(* ===== verification/Prelude.thy ===== *)
theory Prelude
  imports Complex_Main "HOL-Library.AList" "HOL-Library.Monad_Syntax"
begin

text \<open>
  Shared vocabulary of the development: the Go data types every component uses, and the
  generic lemmas about them.

  \<^item> A Go \<^verbatim>\<open>map[K]V\<close> is an association list (\<open>gomap\<close>). The order of the list stands
    for the order a \<^verbatim>\<open>range\<close> over the map visits it, which Go leaves open: statements
    quantify over all representations of a map, hence over all such orders. The keys are
    distinct (\<open>gm_ok\<close>), an invariant the map operations keep.
  \<^item> A Go \<^verbatim>\<open>string\<close>, or a \<^verbatim>\<open>[]byte\<close> of which only the content is read, is a list of
    bytes (\<open>bytes\<close>). Where the code tells the nil slice from an empty one the type is
    \<open>slice\<close>: the value \<^term>\<open>None\<close> is the nil slice, and \<open>content\<close> reads the bytes of a slice.
  \<^item> A Go \<^verbatim>\<open>int64\<close> (and \<^verbatim>\<open>int\<close>, 64 bits wide on the supported targets) is an \<^typ>\<open>int\<close>
    whose arithmetic wraps: \<open>i64\<close> writes the two's-complement wrap-around out.
  \<^item> A point in time and a duration are \<^typ>\<open>int\<close>s (nanoseconds); every operation that reads
    the clock takes the reading as an argument.
\<close>

type_synonym bytes = "char list"
type_synonym slice = "bytes option"
type_synonym gtime = int
type_synonym duration = int
type_synonym ('k, 'v) gomap = "('k \<times> 'v) list"

definition content :: "slice \<Rightarrow> bytes" where
  "content sl = (case sl of None \<Rightarrow> [] | Some bs \<Rightarrow> bs)"

lemma content_simps [simp]: "content None = []" "content (Some bs) = bs"
  by (simp_all add: content_def)

section \<open>Go integers\<close>

definition i64 :: "int \<Rightarrow> int" where
  "i64 x = (x + 2 ^ 63) mod 2 ^ 64 - 2 ^ 63"

abbreviation max_i64 :: int where
  "max_i64 \<equiv> 2 ^ 63 - 1"

lemma i64_id: "- (2 ^ 63) \<le> x \<Longrightarrow> x < 2 ^ 63 \<Longrightarrow> i64 x = x"
  by (simp add: i64_def)

lemma i64_suc: "0 \<le> x \<Longrightarrow> x < max_i64 \<Longrightarrow> i64 (x + 1) = x + 1"
  by (simp add: i64_def)

lemma i64_range: "- (2 ^ 63) \<le> i64 x \<and> i64 x < 2 ^ 63"
proof -
  have "0 \<le> (x + 2 ^ 63) mod 2 ^ 64" and "(x + 2 ^ 63) mod 2 ^ 64 < (2 ^ 64 :: int)"
    by simp_all
  then show ?thesis by (simp add: i64_def)
qed

lemma i64_le_suc: "0 \<le> x \<Longrightarrow> i64 (x + 1) \<le> x + 1"
  by (cases "x < max_i64") (use i64_range [of "x + 1"] in \<open>auto simp: i64_suc\<close>)

section \<open>Go maps\<close>

abbreviation gm_get :: "('k, 'v) gomap \<Rightarrow> 'k \<Rightarrow> 'v option" where
  "gm_get \<equiv> map_of"

abbreviation gm_put :: "'k \<Rightarrow> 'v \<Rightarrow> ('k, 'v) gomap \<Rightarrow> ('k, 'v) gomap" where
  "gm_put \<equiv> AList.update"

abbreviation gm_del :: "'k \<Rightarrow> ('k, 'v) gomap \<Rightarrow> ('k, 'v) gomap" where
  "gm_del \<equiv> AList.delete"

definition gm_ok :: "('k, 'v) gomap \<Rightarrow> bool" where
  "gm_ok m = distinct (map fst m)"

lemma gm_get_put [simp]: "gm_get (gm_put k v m) k' = (if k' = k then Some v else gm_get m k')"
  by (simp add: update_conv')

lemma gm_get_del [simp]: "gm_get (gm_del k m) k' = (if k' = k then None else gm_get m k')"
  by (simp add: delete_conv')

lemma gm_ok_Nil [simp]: "gm_ok []"
  by (simp add: gm_ok_def)

lemma gm_ok_Cons [simp]: "gm_ok (p # m) \<longleftrightarrow> gm_get m (fst p) = None \<and> gm_ok m"
  by (cases p) (auto simp: gm_ok_def map_of_eq_None_iff)

lemma gm_ok_put [simp]: "gm_ok m \<Longrightarrow> gm_ok (gm_put k v m)"
  by (simp add: gm_ok_def distinct_update)

lemma gm_ok_del [simp]: "gm_ok m \<Longrightarrow> gm_ok (gm_del k m)"
  unfolding gm_ok_def by (rule distinct_delete)

lemma gm_del_absent [simp]: "gm_get m k = None \<Longrightarrow> gm_del k m = m"
  by (induction m) (auto split: if_splits)

lemma gm_del_append: "gm_del k (m @ m') = gm_del k m @ gm_del k m'"
  by (simp add: AList.delete_eq)

lemma length_gm_put:
  "length (gm_put k v m) = (if gm_get m k = None then Suc (length m) else length m)"
  by (induction m) auto

lemma length_gm_del:
  "gm_ok m \<Longrightarrow> length (gm_del k m) = (if gm_get m k = None then length m else length m - 1)"
proof (induction m)
  case Nil
  then show ?case by simp
next
  case (Cons p m)
  then show ?case
    by (cases p, cases m) (auto split: if_splits)
qed

lemma set_gm_put: "x \<in> set (gm_put k v m) \<Longrightarrow> x = (k, v) \<or> x \<in> set m"
  by (induction m) (auto split: if_splits)

lemma keys_del: "fst ` set (gm_del k m) \<subseteq> fst ` set m"
  by (induction m) auto

lemma keys_put: "fst ` set (gm_put k v m) \<subseteq> insert k (fst ` set m)"
  by (induction m) auto

lemma gm_get_mem: "gm_ok m \<Longrightarrow> gm_get m k = Some v \<longleftrightarrow> (k, v) \<in> set m"
  by (simp add: gm_ok_def)

lemma map_leD: "m \<subseteq>\<^sub>m m' \<Longrightarrow> m k = Some v \<Longrightarrow> m' k = Some v"
  by (metis domI map_le_def)

lemma map_leI: "(\<And>k v. m k = Some v \<Longrightarrow> m' k = Some v) \<Longrightarrow> m \<subseteq>\<^sub>m m'"
  by (auto simp: map_le_def)

lemma gm_length_dom: "gm_ok m \<Longrightarrow> length m = card (dom (gm_get m))"
  unfolding gm_ok_def dom_map_of_conv_image_fst
  by (metis distinct_card length_map set_map)

section \<open>Lists\<close>

lemma set_tl_mem: "x \<in> set (tl xs) \<Longrightarrow> x \<in> set xs"
  by (cases xs) auto

end
