(* ===== verification/Storage_Interface.thy ===== *)
theory Storage_Interface
  imports Prelude "HOL-Library.Sublist"
begin

text \<open>
  The interface \<^verbatim>\<open>StorageEngine\<close> of \<^verbatim>\<open>src/internal/storage/interface.go\<close>: a record of
  operations over a state (the method table of a Go interface value and the object it is
  called on), and the locale of the laws an implementation promises. A storage engine is a
  map from keys to values: an operation that reports success acts on the map, one that
  reports an error leaves it alone. A client lemma lifts the laws to whole runs.

  An operation that may panic returns an option; \<open>clk\<close> gives the successive readings of the
  clock during a call.
\<close>

datatype berror = BErrKeyNotFound | BErr string

datatype serror = ErrKeyNotFound | SBadger berror | SCreateBackup string | SOpenBackup string

record KeyValue =
  kv_Key :: bytes
  kv_Value :: slice
  kv_Found :: bool

datatype stat = StInt int | StRat rat | StBool bool | StStr string | StMap "(string \<times> stat) list"

type_synonym clock = "nat \<Rightarrow> gtime"
type_synonym files = "string \<rightharpoonup> bytes"

record 's StorageEngine =
  se_Put :: "clock \<Rightarrow> bytes \<Rightarrow> slice \<Rightarrow> 's \<Rightarrow> (serror option \<times> 's) option"
  se_Get :: "clock \<Rightarrow> bytes \<Rightarrow> 's \<Rightarrow> ((slice \<times> serror option) \<times> 's) option"
  se_Delete :: "clock \<Rightarrow> bytes \<Rightarrow> 's \<Rightarrow> (serror option \<times> 's) option"
  se_Exists :: "clock \<Rightarrow> bytes \<Rightarrow> 's \<Rightarrow> ((bool \<times> serror option) \<times> 's) option"
  se_List :: "bytes \<Rightarrow> 's \<Rightarrow> ((bytes, slice) gomap \<times> serror option) \<times> 's"
  se_Close :: "'s \<Rightarrow> (serror option \<times> 's) option"
  se_Backup :: "string option \<Rightarrow> string \<Rightarrow> files \<Rightarrow> 's \<Rightarrow> (serror option \<times> files) \<times> 's"
  se_Restore :: "string \<Rightarrow> files \<Rightarrow> 's \<Rightarrow> (serror option \<times> 's) option"
  se_Stats :: "'s \<Rightarrow> (string, stat) gomap"
  se_BatchPut :: "clock \<Rightarrow> KeyValue list \<Rightarrow> 's \<Rightarrow> (serror option \<times> 's) option"
  se_BatchGet :: "clock \<Rightarrow> bytes list \<Rightarrow> 's \<Rightarrow> ((KeyValue list \<times> serror option) \<times> 's) option"
  se_BatchDelete :: "clock \<Rightarrow> bytes list \<Rightarrow> 's \<Rightarrow> (serror option \<times> 's) option"

section \<open>The map a storage engine implements\<close>

definition putAll :: "KeyValue list \<Rightarrow> (bytes \<rightharpoonup> bytes) \<Rightarrow> (bytes \<rightharpoonup> bytes)" where
  "putAll items m = fold (\<lambda>kv m. m(kv_Key kv \<mapsto> content (kv_Value kv))) items m"

definition deleteAll :: "bytes list \<Rightarrow> (bytes \<rightharpoonup> bytes) \<Rightarrow> (bytes \<rightharpoonup> bytes)" where
  "deleteAll keys m = fold (\<lambda>k m. m(k := None)) keys m"

definition answers :: "(bytes \<rightharpoonup> bytes) \<Rightarrow> bytes \<Rightarrow> KeyValue \<Rightarrow> bool" where
  "answers m k kv = (kv_Key kv = k \<and>
     (if kv_Found kv then m k = Some (content (kv_Value kv)) else m k = None \<and> kv_Value kv = None))"

datatype kv_op = KPut bytes slice | KGet bytes | KDelete bytes | KExists bytes | KList bytes
  | KBatchPut "KeyValue list" | KBatchGet "bytes list" | KBatchDelete "bytes list"

datatype kv_res = KDone "serror option" | KVal "slice \<times> serror option" | KBool "bool \<times> serror option"
  | KMap "(bytes, slice) gomap \<times> serror option" | KVals "KeyValue list \<times> serror option"

fun exec_kv :: "'s StorageEngine \<Rightarrow> clock \<Rightarrow> kv_op \<Rightarrow> 's \<Rightarrow> (kv_res \<times> 's) option" where
  "exec_kv SE clk (KPut k v) s = map_option (map_prod KDone id) (se_Put SE clk k v s)"
| "exec_kv SE clk (KGet k) s = map_option (map_prod KVal id) (se_Get SE clk k s)"
| "exec_kv SE clk (KDelete k) s = map_option (map_prod KDone id) (se_Delete SE clk k s)"
| "exec_kv SE clk (KExists k) s = map_option (map_prod KBool id) (se_Exists SE clk k s)"
| "exec_kv SE clk (KList p) s = Some (map_prod KMap id (se_List SE p s))"
| "exec_kv SE clk (KBatchPut items) s = map_option (map_prod KDone id) (se_BatchPut SE clk items s)"
| "exec_kv SE clk (KBatchGet keys) s = map_option (map_prod KVals id) (se_BatchGet SE clk keys s)"
| "exec_kv SE clk (KBatchDelete keys) s = map_option (map_prod KDone id) (se_BatchDelete SE clk keys s)"

fun exec_kvs :: "'s StorageEngine \<Rightarrow> (clock \<times> kv_op) list \<Rightarrow> 's \<Rightarrow> (kv_res list \<times> 's) option" where
  "exec_kvs SE [] s = Some ([], s)"
| "exec_kvs SE ((clk, p) # ps) s = do {
     (r, s) \<leftarrow> exec_kv SE clk p s;
     (rs, s) \<leftarrow> exec_kvs SE ps s;
     Some (r # rs, s)
   }"

text \<open>
  The specification of a call: \<open>kv_next\<close> is the map after it, given what it returned, and
  \<open>kv_right\<close> says that what it returned is right for the map before it.
\<close>

fun kv_next :: "kv_op \<Rightarrow> kv_res \<Rightarrow> (bytes \<rightharpoonup> bytes) \<Rightarrow> (bytes \<rightharpoonup> bytes)" where
  "kv_next (KPut k v) (KDone None) m = m(k \<mapsto> content v)"
| "kv_next (KDelete k) (KDone None) m = m(k := None)"
| "kv_next (KBatchPut items) (KDone None) m = putAll items m"
| "kv_next (KBatchDelete keys) (KDone None) m = deleteAll keys m"
| "kv_next _ _ m = m"

fun kv_right :: "kv_op \<Rightarrow> kv_res \<Rightarrow> (bytes \<rightharpoonup> bytes) \<Rightarrow> bool" where
  "kv_right (KPut k v) (KDone e) m = True"
| "kv_right (KDelete k) (KDone e) m = True"
| "kv_right (KBatchPut items) (KDone e) m = True"
| "kv_right (KBatchDelete keys) (KDone e) m = True"
| "kv_right (KGet k) (KVal (v, e)) m =
     ((e = None \<longrightarrow> m k = Some (content v)) \<and> (e = Some ErrKeyNotFound \<longrightarrow> m k = None))"
| "kv_right (KExists k) (KBool (b, e)) m = (e = None \<longrightarrow> b = (m k \<noteq> None))"
| "kv_right (KList p) (KMap (l, e)) m =
     (e = None \<longrightarrow> (\<forall>k. map_option content (gm_get l k) = (if prefix p k then m k else None)))"
| "kv_right (KBatchGet keys) (KVals (kvs, e)) m = (e = None \<longrightarrow> list_all2 (answers m) keys kvs)"
| "kv_right _ _ m = False"

fun kv_run_right :: "(clock \<times> kv_op) list \<Rightarrow> kv_res list \<Rightarrow> (bytes \<rightharpoonup> bytes) \<Rightarrow> bool" where
  "kv_run_right [] [] m = True"
| "kv_run_right ((clk, p) # ps) (r # rs) m = (kv_right p r m \<and> kv_run_right ps rs (kv_next p r m))"
| "kv_run_right _ _ m = False"

fun kv_run_next :: "(clock \<times> kv_op) list \<Rightarrow> kv_res list \<Rightarrow> (bytes \<rightharpoonup> bytes) \<Rightarrow> (bytes \<rightharpoonup> bytes)" where
  "kv_run_next ((clk, p) # ps) (r # rs) m = kv_run_next ps rs (kv_next p r m)"
| "kv_run_next _ _ m = m"

section \<open>The contract\<close>

locale storage_engine =
  fixes SE :: "'s StorageEngine"
    and sinv :: "'s \<Rightarrow> bool"
    and contents :: "'s \<Rightarrow> bytes \<rightharpoonup> bytes"
  assumes put_law: "sinv s \<Longrightarrow> \<exists>e s'. se_Put SE clk k v s = Some (e, s') \<and> sinv s' \<and>
      contents s' = (if e = None then (contents s)(k \<mapsto> content v) else contents s)"
    and get_law: "sinv s \<Longrightarrow> \<exists>v e s'. se_Get SE clk k s = Some ((v, e), s') \<and> sinv s' \<and>
      contents s' = contents s \<and> (e = None \<longrightarrow> contents s k = Some (content v)) \<and>
      (e = Some ErrKeyNotFound \<longrightarrow> contents s k = None)"
    and delete_law: "sinv s \<Longrightarrow> \<exists>e s'. se_Delete SE clk k s = Some (e, s') \<and> sinv s' \<and>
      contents s' = (if e = None then (contents s)(k := None) else contents s)"
    and exists_law: "sinv s \<Longrightarrow> \<exists>b e s'. se_Exists SE clk k s = Some ((b, e), s') \<and> sinv s' \<and>
      contents s' = contents s \<and> (e = None \<longrightarrow> b = (contents s k \<noteq> None))"
    and list_law: "sinv s \<Longrightarrow> \<exists>l e s'. se_List SE p s = ((l, e), s') \<and> sinv s' \<and> contents s' = contents s \<and>
      (e = None \<longrightarrow> gm_ok l \<and> (\<forall>k. map_option content (gm_get l k) = (if prefix p k then contents s k else None)))"
    and batch_put_law: "sinv s \<Longrightarrow> \<exists>e s'. se_BatchPut SE clk items s = Some (e, s') \<and> sinv s' \<and>
      contents s' = (if e = None then putAll items (contents s) else contents s)"
    and batch_get_law: "sinv s \<Longrightarrow> \<exists>kvs e s'. se_BatchGet SE clk keys s = Some ((kvs, e), s') \<and> sinv s' \<and>
      contents s' = contents s \<and> (e = None \<longrightarrow> list_all2 (answers (contents s)) keys kvs)"
    and batch_delete_law: "sinv s \<Longrightarrow> \<exists>e s'. se_BatchDelete SE clk keys s = Some (e, s') \<and> sinv s' \<and>
      contents s' = (if e = None then deleteAll keys (contents s) else contents s)"
begin

lemma exec_kv_right:
  assumes s: "sinv s"
  shows "\<exists>r s'. exec_kv SE clk p s = Some (r, s') \<and> sinv s' \<and> kv_right p r (contents s) \<and>
    contents s' = kv_next p r (contents s)"
proof (cases p)
  case (KPut k v)
  obtain e s' where "se_Put SE clk k v s = Some (e, s')" "sinv s'"
    "contents s' = (if e = None then (contents s)(k \<mapsto> content v) else contents s)"
    using put_law [OF s] by blast
  with KPut show ?thesis by (cases e) auto
next
  case (KGet k)
  with get_law [OF s, of clk k] show ?thesis by auto
next
  case (KDelete k)
  obtain e s' where "se_Delete SE clk k s = Some (e, s')" "sinv s'"
    "contents s' = (if e = None then (contents s)(k := None) else contents s)"
    using delete_law [OF s] by blast
  with KDelete show ?thesis by (cases e) auto
next
  case (KExists k)
  with exists_law [OF s, of clk k] show ?thesis by auto
next
  case (KList x)
  with list_law [OF s, of x] show ?thesis by auto
next
  case (KBatchPut items)
  obtain e s' where "se_BatchPut SE clk items s = Some (e, s')" "sinv s'"
    "contents s' = (if e = None then putAll items (contents s) else contents s)"
    using batch_put_law [OF s] by blast
  with KBatchPut show ?thesis by (cases e) auto
next
  case (KBatchGet keys)
  with batch_get_law [OF s, of clk keys] show ?thesis by auto
next
  case (KBatchDelete keys)
  obtain e s' where "se_BatchDelete SE clk keys s = Some (e, s')" "sinv s'"
    "contents s' = (if e = None then deleteAll keys (contents s) else contents s)"
    using batch_delete_law [OF s] by blast
  with KBatchDelete show ?thesis by (cases e) auto
qed

lemma exec_kvs_right:
  "sinv s \<Longrightarrow> \<exists>rs s'. exec_kvs SE ps s = Some (rs, s') \<and> sinv s' \<and>
     kv_run_right ps rs (contents s) \<and> contents s' = kv_run_next ps rs (contents s)"
proof (induction ps arbitrary: s)
  case (Cons q ps)
  obtain clk p where q: "q = (clk, p)" by (cases q)
  obtain r s1 where r: "exec_kv SE clk p s = Some (r, s1)" "sinv s1" "kv_right p r (contents s)"
    "contents s1 = kv_next p r (contents s)"
    using exec_kv_right [OF Cons.prems] by blast
  with Cons.IH [OF r(2)] show ?case by (auto simp: q)
qed simp

end

end
