(* ===== verification/Engine.thy ===== *)
theory Engine
  imports Storage_Interface "HOL-Library.Word"
begin

text \<open>
  The BadgerDB storage engine of \<^verbatim>\<open>src/internal/storage/engine.go\<close>. The database itself is a
  third-party package: it is the parameter \<open>B\<close> of every operation, a record of the calls the
  engine makes, and \<open>badger_ok\<close> states the documented behaviour the engine relies on
  (transactions are atomic, reads see the transaction's snapshot, an iterator visits exactly
  the keys with its prefix). Under it the engine meets the contract \<open>storage_engine\<close>.
\<close>

record ('db, 'txn, 'item) Badger =
  bg_Update :: "('txn \<Rightarrow> berror option \<times> 'txn) \<Rightarrow> 'db \<Rightarrow> berror option \<times> 'db"
  bg_View :: "'db \<Rightarrow> berror + 'txn"
  bg_Set :: "bytes \<Rightarrow> slice \<Rightarrow> 'txn \<Rightarrow> berror option \<times> 'txn"
  bg_Del :: "bytes \<Rightarrow> 'txn \<Rightarrow> berror option \<times> 'txn"
  bg_Get :: "bytes \<Rightarrow> 'txn \<Rightarrow> berror + 'item"
  bg_ValueCopy :: "'item \<Rightarrow> slice \<times> berror option"
  bg_Iterate :: "bytes \<Rightarrow> 'txn \<Rightarrow> (bytes \<times> 'item) list"
  bg_Close :: "'db \<Rightarrow> berror option \<times> 'db"
  bg_Backup :: "'db \<Rightarrow> bytes \<times> berror option"
  bg_Load :: "bytes \<Rightarrow> 'db \<Rightarrow> berror option \<times> 'db"
  bg_LevelsToString :: "'db \<Rightarrow> string"
  bg_Tables :: "'db \<Rightarrow> string"
  bg_Size :: "'db \<Rightarrow> int \<times> int"
  bg_RunValueLogGC :: "'db \<Rightarrow> berror option \<times> 'db"

section \<open>Configuration\<close>

record Config =
  cfg_DataPath :: string
  cfg_InMemory :: bool
  cfg_SyncWrites :: bool
  cfg_ValueLogGC :: bool
  cfg_GCInterval :: duration
  cfg_WALEnabled :: bool
  cfg_WALThreshold :: int
  cfg_MaxWALFiles :: int
  cfg_FSyncThreshold :: int
  cfg_CacheEnabled :: bool
  cfg_CacheSize :: int
  cfg_CacheTTL :: duration
  cfg_CacheCleanupInterval :: duration

text \<open>The options handed to \<^verbatim>\<open>badger.Open\<close>; \<^term>\<open>None\<close> is the package's default.\<close>

record BadgerOptions =
  bo_Dir :: string
  bo_InMemory :: bool
  bo_SyncWrites :: bool
  bo_ValueThreshold :: "int option"
  bo_ValueLogFileSize :: "int option"
  bo_ValueLogMaxEntries :: "32 word option"

definition NewEngine_options :: "Config \<Rightarrow> BadgerOptions" where
  "NewEngine_options config =
     (let opts = \<lparr>bo_Dir = cfg_DataPath config, bo_InMemory = False, bo_SyncWrites = False,
                   bo_ValueThreshold = None, bo_ValueLogFileSize = None, bo_ValueLogMaxEntries = None\<rparr>;
          opts = (if cfg_InMemory config then opts\<lparr>bo_InMemory := True\<rparr> else opts);
          opts = opts\<lparr>bo_SyncWrites := cfg_SyncWrites config\<rparr>
      in if cfg_WALEnabled config then
           (let opts = opts\<lparr>bo_ValueThreshold := Some 1\<rparr>;
                opts = (if 0 < cfg_WALThreshold config
                        then opts\<lparr>bo_ValueLogFileSize := Some (cfg_WALThreshold config)\<rparr> else opts);
                opts = (if 0 < cfg_MaxWALFiles config
                        then opts\<lparr>bo_ValueLogMaxEntries := Some (word_of_int (cfg_MaxWALFiles config * 1000))\<rparr>
                        else opts)
            in if 0 < cfg_FSyncThreshold config then opts\<lparr>bo_SyncWrites := False\<rparr> else opts)
         else opts)"

text \<open>\<^verbatim>\<open>NewEngine\<close>: opening is a parameter; the flag says whether the GC goroutine is started.\<close>

definition NewEngine :: "(BadgerOptions \<Rightarrow> berror + 'db) \<Rightarrow> Config \<Rightarrow> (string \<times> berror) + ('db \<times> bool)" where
  "NewEngine badgerOpen config =
     (case badgerOpen (NewEngine_options config) of
        Inl err \<Rightarrow> Inl (''failed to open badger database: '', err)
      | Inr db \<Rightarrow> Inr (db, cfg_ValueLogGC config \<and> \<not> cfg_InMemory config))"

section \<open>The operations\<close>

definition engine_err :: "berror option \<Rightarrow> serror option" where
  "engine_err e = map_option SBadger e"

definition Engine_Put :: "('db, 'txn, 'item) Badger \<Rightarrow> bytes \<Rightarrow> slice \<Rightarrow> 'db \<Rightarrow> serror option \<times> 'db" where
  "Engine_Put B key val db = map_prod engine_err id (bg_Update B (bg_Set B key val) db)"

definition Engine_Get :: "('db, 'txn, 'item) Badger \<Rightarrow> bytes \<Rightarrow> 'db \<Rightarrow> slice \<times> serror option" where
  "Engine_Get B key db =
     (let (val, err) =
        (case bg_View B db of
           Inl err \<Rightarrow> (None, Some err)
         | Inr txn \<Rightarrow>
             (case bg_Get B key txn of
                Inl err \<Rightarrow> (None, Some err)
              | Inr item \<Rightarrow> bg_ValueCopy B item))
      in if err = Some BErrKeyNotFound then (None, Some ErrKeyNotFound) else (val, engine_err err))"

definition Engine_Delete :: "('db, 'txn, 'item) Badger \<Rightarrow> bytes \<Rightarrow> 'db \<Rightarrow> serror option \<times> 'db" where
  "Engine_Delete B key db = map_prod engine_err id (bg_Update B (bg_Del B key) db)"

definition Engine_Exists :: "('db, 'txn, 'item) Badger \<Rightarrow> bytes \<Rightarrow> 'db \<Rightarrow> bool \<times> serror option" where
  "Engine_Exists B key db =
     (let err =
        (case bg_View B db of
           Inl err \<Rightarrow> Some err
         | Inr txn \<Rightarrow> (case bg_Get B key txn of Inl err \<Rightarrow> Some err | Inr item \<Rightarrow> None))
      in if err = Some BErrKeyNotFound then (False, None) else (err = None, engine_err err))"

fun listLoop :: "('db, 'txn, 'item) Badger \<Rightarrow> (bytes \<times> 'item) list \<Rightarrow> (bytes, slice) gomap \<Rightarrow>
    (bytes, slice) gomap \<times> berror option" where
  "listLoop B [] result = (result, None)"
| "listLoop B ((key, item) # its) result =
     (case bg_ValueCopy B item of
        (val, Some err) \<Rightarrow> (result, Some err)
      | (val, None) \<Rightarrow> listLoop B its (gm_put key val result))"

definition Engine_List :: "('db, 'txn, 'item) Badger \<Rightarrow> bytes \<Rightarrow> 'db \<Rightarrow> (bytes, slice) gomap \<times> serror option" where
  "Engine_List B p db =
     (case bg_View B db of
        Inl err \<Rightarrow> ([], engine_err (Some err))
      | Inr txn \<Rightarrow> map_prod id engine_err (listLoop B (bg_Iterate B p txn) []))"

definition Engine_Close :: "('db, 'txn, 'item) Badger \<Rightarrow> 'db \<Rightarrow> serror option \<times> 'db" where
  "Engine_Close B db = map_prod engine_err id (bg_Close B db)"

definition Engine_Backup :: "('db, 'txn, 'item) Badger \<Rightarrow> string option \<Rightarrow> string \<Rightarrow> files \<Rightarrow> 'db \<Rightarrow>
    serror option \<times> files" where
  "Engine_Backup B createErr path fs db =
     (case createErr of
        Some err \<Rightarrow> (Some (SCreateBackup err), fs)
      | None \<Rightarrow> (let (data, err) = bg_Backup B db in (engine_err err, fs(path \<mapsto> data))))"

definition Engine_Restore :: "('db, 'txn, 'item) Badger \<Rightarrow> string \<Rightarrow> files \<Rightarrow> 'db \<Rightarrow> serror option \<times> 'db" where
  "Engine_Restore B path fs db =
     (case fs path of
        None \<Rightarrow> (Some (SOpenBackup (''open '' @ path @ '': no such file or directory'')), db)
      | Some data \<Rightarrow> map_prod engine_err id (bg_Load B data db))"

definition Engine_Stats :: "('db, 'txn, 'item) Badger \<Rightarrow> 'db \<Rightarrow> (string, stat) gomap" where
  "Engine_Stats B db =
     (let (lsmSize, vlogSize) = bg_Size B db in
      [(''lsm_structure'', StStr (bg_LevelsToString B db)), (''tables'', StStr (bg_Tables B db)),
       (''lsm_size'', StInt lsmSize), (''vlog_size'', StInt vlogSize),
       (''total_size'', StInt (i64 (lsmSize + vlogSize)))])"

fun setLoop :: "('db, 'txn, 'item) Badger \<Rightarrow> KeyValue list \<Rightarrow> 'txn \<Rightarrow> berror option \<times> 'txn" where
  "setLoop B [] txn = (None, txn)"
| "setLoop B (item # items) txn =
     (case bg_Set B (kv_Key item) (kv_Value item) txn of
        (Some err, txn) \<Rightarrow> (Some err, txn)
      | (None, txn) \<Rightarrow> setLoop B items txn)"

definition Engine_BatchPut :: "('db, 'txn, 'item) Badger \<Rightarrow> KeyValue list \<Rightarrow> 'db \<Rightarrow> serror option \<times> 'db" where
  "Engine_BatchPut B items db = map_prod engine_err id (bg_Update B (setLoop B items) db)"

text \<open>\<^verbatim>\<open>results\<close> is allocated with one zero value per key; index \<open>i\<close> is filled in turn.\<close>

definition zero_KeyValue :: KeyValue where
  "zero_KeyValue = \<lparr>kv_Key = [], kv_Value = None, kv_Found = False\<rparr>"

fun getLoop :: "('db, 'txn, 'item) Badger \<Rightarrow> 'txn \<Rightarrow> nat \<Rightarrow> bytes list \<Rightarrow> KeyValue list \<Rightarrow>
    KeyValue list \<times> berror option" where
  "getLoop B txn i [] results = (results, None)"
| "getLoop B txn i (key # keys) results =
     (case bg_Get B key txn of
        Inl err \<Rightarrow>
          if err = BErrKeyNotFound
          then getLoop B txn (Suc i) keys (results[i := \<lparr>kv_Key = key, kv_Value = None, kv_Found = False\<rparr>])
          else (results, Some err)
      | Inr item \<Rightarrow>
          (case bg_ValueCopy B item of
             (val, Some err) \<Rightarrow> (results, Some err)
           | (val, None) \<Rightarrow>
               getLoop B txn (Suc i) keys (results[i := \<lparr>kv_Key = key, kv_Value = val, kv_Found = True\<rparr>])))"

definition Engine_BatchGet :: "('db, 'txn, 'item) Badger \<Rightarrow> bytes list \<Rightarrow> 'db \<Rightarrow> KeyValue list \<times> serror option" where
  "Engine_BatchGet B keys db =
     (let results = replicate (length keys) zero_KeyValue in
      case bg_View B db of
        Inl err \<Rightarrow> (results, engine_err (Some err))
      | Inr txn \<Rightarrow> map_prod id engine_err (getLoop B txn 0 keys results))"

fun deleteLoop :: "('db, 'txn, 'item) Badger \<Rightarrow> bytes list \<Rightarrow> 'txn \<Rightarrow> berror option \<times> 'txn" where
  "deleteLoop B [] txn = (None, txn)"
| "deleteLoop B (key # keys) txn =
     (case bg_Del B key txn of
        (Some err, txn) \<Rightarrow> (Some err, txn)
      | (None, txn) \<Rightarrow> deleteLoop B keys txn)"

definition Engine_BatchDelete :: "('db, 'txn, 'item) Badger \<Rightarrow> bytes list \<Rightarrow> 'db \<Rightarrow> serror option \<times> 'db" where
  "Engine_BatchDelete B keys db = map_prod engine_err id (bg_Update B (deleteLoop B keys) db)"

text \<open>One tick of \<^verbatim>\<open>runGC\<close>: collect until the database reports there is nothing left to do.\<close>

partial_function (option) runGC_tick :: "('db, 'txn, 'item) Badger \<Rightarrow> 'db \<Rightarrow> 'db option" where
  "runGC_tick B db =
     (case bg_RunValueLogGC B db of
        (None, db) \<Rightarrow> runGC_tick B db
      | (Some err, db) \<Rightarrow> Some db)"

text \<open>The engine as a value of the interface.\<close>

definition engine_SE :: "('db, 'txn, 'item) Badger \<Rightarrow> 'db StorageEngine" where
  "engine_SE B =
     \<lparr>se_Put = \<lambda>clk k v db. Some (Engine_Put B k v db),
      se_Get = \<lambda>clk k db. Some (Engine_Get B k db, db),
      se_Delete = \<lambda>clk k db. Some (Engine_Delete B k db),
      se_Exists = \<lambda>clk k db. Some (Engine_Exists B k db, db),
      se_List = \<lambda>p db. (Engine_List B p db, db),
      se_Close = \<lambda>db. Some (Engine_Close B db),
      se_Backup = \<lambda>createErr path fs db. (Engine_Backup B createErr path fs db, db),
      se_Restore = \<lambda>path fs db. Some (Engine_Restore B path fs db),
      se_Stats = Engine_Stats B,
      se_BatchPut = \<lambda>clk items db. Some (Engine_BatchPut B items db),
      se_BatchGet = \<lambda>clk keys db. Some (Engine_BatchGet B keys db, db),
      se_BatchDelete = \<lambda>clk keys db. Some (Engine_BatchDelete B keys db)\<rparr>"

section \<open>What the engine relies on\<close>

definition badger_ok :: "('db, 'txn, 'item) Badger \<Rightarrow> ('db \<Rightarrow> bytes \<rightharpoonup> bytes) \<Rightarrow> ('txn \<Rightarrow> bytes \<rightharpoonup> bytes) \<Rightarrow>
    ('item \<Rightarrow> bytes) \<Rightarrow> bool" where
  "badger_ok B dabs tabs ival \<longleftrightarrow>
     (\<forall>db t. bg_View B db = Inr t \<longrightarrow> tabs t = dabs db) \<and>
     (\<forall>db. bg_View B db \<noteq> Inl BErrKeyNotFound) \<and>
     (\<forall>k t i. bg_Get B k t = Inr i \<longrightarrow> tabs t k = Some (ival i)) \<and>
     (\<forall>k t. bg_Get B k t = Inl BErrKeyNotFound \<longrightarrow> tabs t k = None) \<and>
     (\<forall>i v. bg_ValueCopy B i = (v, None) \<longrightarrow> content v = ival i) \<and>
     (\<forall>i v. bg_ValueCopy B i \<noteq> (v, Some BErrKeyNotFound)) \<and>
     (\<forall>k v t t'. bg_Set B k v t = (None, t') \<longrightarrow> tabs t' = (tabs t)(k \<mapsto> content v)) \<and>
     (\<forall>k t t'. bg_Del B k t = (None, t') \<longrightarrow> tabs t' = (tabs t)(k := None)) \<and>
     (\<forall>f db db'. bg_Update B f db = (None, db') \<longrightarrow>
        (\<exists>t t'. tabs t = dabs db \<and> f t = (None, t') \<and> dabs db' = tabs t')) \<and>
     (\<forall>f db e db'. bg_Update B f db = (Some e, db') \<longrightarrow> dabs db' = dabs db) \<and>
     (\<forall>p t. gm_ok (bg_Iterate B p t) \<and>
        (\<forall>k. map_option ival (gm_get (bg_Iterate B p t) k) = (if prefix p k then tabs t k else None))) \<and>
     (\<forall>db e db'. bg_RunValueLogGC B db = (e, db') \<longrightarrow> dabs db' = dabs db)"

lemma badger_viewD:
  assumes "badger_ok B dabs tabs ival"
  shows "bg_View B db = Inr t \<Longrightarrow> tabs t = dabs db" "bg_View B db \<noteq> Inl BErrKeyNotFound"
  using assms by (simp_all add: badger_ok_def)

lemma badger_getD:
  assumes "badger_ok B dabs tabs ival"
  shows "bg_Get B k t = Inr i \<Longrightarrow> tabs t k = Some (ival i)"
    "bg_Get B k t = Inl BErrKeyNotFound \<Longrightarrow> tabs t k = None"
    "bg_ValueCopy B i = (v, None) \<Longrightarrow> content v = ival i"
    "bg_ValueCopy B i \<noteq> (v, Some BErrKeyNotFound)"
  using assms by (simp_all add: badger_ok_def)

lemma badger_setD:
  assumes "badger_ok B dabs tabs ival"
  shows "bg_Set B k v t = (None, t') \<Longrightarrow> tabs t' = (tabs t)(k \<mapsto> content v)"
    "bg_Del B k t = (None, t') \<Longrightarrow> tabs t' = (tabs t)(k := None)"
  using assms by (simp_all add: badger_ok_def)

lemma badger_updateD:
  assumes "badger_ok B dabs tabs ival"
  shows "bg_Update B f db = (None, db') \<Longrightarrow> \<exists>t t'. tabs t = dabs db \<and> f t = (None, t') \<and> dabs db' = tabs t'"
    "bg_Update B f db = (Some e, db') \<Longrightarrow> dabs db' = dabs db"
  using assms unfolding badger_ok_def by blast+

lemma badger_iterD:
  assumes "badger_ok B dabs tabs ival"
  shows "gm_ok (bg_Iterate B p t)"
    "map_option ival (gm_get (bg_Iterate B p t) k) = (if prefix p k then tabs t k else None)"
  using assms by (simp_all add: badger_ok_def)

lemma badger_gcD: "badger_ok B dabs tabs ival \<Longrightarrow> bg_RunValueLogGC B db = (e, db') \<Longrightarrow> dabs db' = dabs db"
  by (simp add: badger_ok_def)

section \<open>The engine meets the contract\<close>

lemma engine_err_None [simp]: "engine_err e = None \<longleftrightarrow> e = None" "engine_err None = None"
  by (simp_all add: engine_err_def)

lemma engine_err_NotFound [simp]: "engine_err e \<noteq> Some ErrKeyNotFound"
  by (cases e) (simp_all add: engine_err_def)

text \<open>A transaction body that transforms the snapshot by \<open>g\<close> when it reports no error.\<close>

lemma update_effect:
  assumes ok: "badger_ok B dabs tabs ival"
    and body: "\<And>t t'. f t = (None, t') \<Longrightarrow> tabs t' = g (tabs t)"
    and res: "map_prod engine_err id (bg_Update B f db) = (e, db')"
  shows "dabs db' = (if e = None then g (dabs db) else dabs db)"
proof (cases "bg_Update B f db")
  case (Pair e0 db0)
  then show ?thesis
    using res badger_updateD(1) [OF ok, of f db db'] badger_updateD(2) [OF ok, of f db _ db'] body
    by (cases e0) (auto simp: engine_err_def)
qed

lemma setLoop_effect:
  assumes ok: "badger_ok B dabs tabs ival"
  shows "setLoop B items t = (None, t') \<Longrightarrow> tabs t' = putAll items (tabs t)"
  by (induction items arbitrary: t)
    (auto simp: putAll_def badger_setD [OF ok] split: prod.splits option.splits)

lemma deleteLoop_effect:
  assumes ok: "badger_ok B dabs tabs ival"
  shows "deleteLoop B keys t = (None, t') \<Longrightarrow> tabs t' = deleteAll keys (tabs t)"
  by (induction keys arbitrary: t)
    (auto simp: deleteAll_def badger_setD [OF ok] split: prod.splits option.splits)

lemma getLoop_effect:
  assumes ok: "badger_ok B dabs tabs ival"
    and "getLoop B t i keys results = (kvs, None)" and "length results = i + length keys"
  shows "\<exists>new. kvs = take i results @ new \<and> list_all2 (answers (tabs t)) keys new"
  using assms(2,3)
proof (induction keys arbitrary: i results)
  case (Cons key keys)
  obtain kv where kv: "answers (tabs t) key kv"
    and rest: "getLoop B t (Suc i) keys (results[i := kv]) = (kvs, None)"
  proof (cases "bg_Get B key t")
    case (Inl err)
    with Cons.prems(1) badger_getD(2) [OF ok, of key t] show ?thesis
      by (intro that [of "\<lparr>kv_Key = key, kv_Value = None, kv_Found = False\<rparr>"])
        (auto simp: answers_def split: if_splits)
  next
    case (Inr item)
    with Cons.prems(1) obtain v where "bg_ValueCopy B item = (v, None)"
      "getLoop B t (Suc i) keys (results[i := \<lparr>kv_Key = key, kv_Value = v, kv_Found = True\<rparr>]) = (kvs, None)"
      by (auto split: prod.splits option.splits)
    with Inr badger_getD [OF ok] show ?thesis by (intro that) (auto simp: answers_def)
  qed
  from Cons.IH [OF rest] Cons.prems(2) obtain new where
    "kvs = take (Suc i) (results[i := kv]) @ new" "list_all2 (answers (tabs t)) keys new" by auto
  with kv Cons.prems(2) show ?case
    by (intro exI [of _ "kv # new"]) (simp add: take_Suc_conv_app_nth)
qed simp

lemma listLoop_effect:
  assumes ok: "badger_ok B dabs tabs ival"
    and "listLoop B its result = (l, None)" and "gm_ok its"
  shows "map_option content (gm_get l k) =
    (case gm_get its k of None \<Rightarrow> map_option content (gm_get result k) | Some i \<Rightarrow> Some (ival i))"
  using assms(2,3)
proof (induction its arbitrary: result)
  case (Cons p its)
  obtain key item where p: "p = (key, item)" by (cases p)
  obtain v where "bg_ValueCopy B item = (v, None)" "listLoop B its (gm_put key v result) = (l, None)"
    using Cons.prems(1) by (auto simp: p split: prod.splits option.splits)
  with Cons.IH Cons.prems(2) show ?case
    by (auto simp: p badger_getD(3) [OF ok] split: option.splits)
qed simp

lemma listLoop_ok: "listLoop B its result = (l, e) \<Longrightarrow> gm_ok result \<Longrightarrow> gm_ok l"
  by (induction B its result rule: listLoop.induct) (auto split: prod.splits option.splits)

lemma Engine_Get_effect:
  assumes ok: "badger_ok B dabs tabs ival" and get: "Engine_Get B k db = (v, e)"
  shows "(e = None \<longrightarrow> dabs db k = Some (content v)) \<and> (e = Some ErrKeyNotFound \<longrightarrow> dabs db k = None)"
proof (cases "bg_View B db")
  case (Inl err)
  with get badger_viewD(2) [OF ok, of db] show ?thesis by (auto simp: Engine_Get_def)
next
  case (Inr t)
  note t = badger_viewD(1) [OF ok Inr]
  show ?thesis
  proof (cases "bg_Get B k t")
    case (Inl err)
    with get Inr badger_getD(2) [OF ok, of k t] t show ?thesis
      by (auto simp: Engine_Get_def split: if_splits)
  next
    case item: (Inr item)
    obtain v' e' where vc: "bg_ValueCopy B item = (v', e')" by fastforce
    then have "e' \<noteq> Some BErrKeyNotFound" using badger_getD(4) [OF ok] by metis
    with get Inr item vc have "v = v'" "e = engine_err e'" by (auto simp: Engine_Get_def)
    with vc badger_getD(1) [OF ok item] badger_getD(3) [OF ok, of item v'] t show ?thesis by auto
  qed
qed

lemma Engine_Exists_effect:
  assumes ok: "badger_ok B dabs tabs ival" and "Engine_Exists B k db = (b, e)"
  shows "e = None \<longrightarrow> b = (dabs db k \<noteq> None)"
proof (cases "bg_View B db")
  case (Inl err)
  with assms badger_viewD(2) [OF ok, of db] show ?thesis by (auto simp: Engine_Exists_def)
next
  case (Inr t)
  with assms badger_viewD(1) [OF ok Inr] badger_getD(1,2) [OF ok, of k t] show ?thesis
    by (auto simp: Engine_Exists_def Let_def split: sum.splits if_splits)
qed

interpretation eng: storage_engine "engine_SE B" "\<lambda>_. badger_ok B dabs tabs ival" dabs for B dabs tabs ival
proof
  fix db clk k v assume ok: "badger_ok B dabs tabs ival"
  show "\<exists>e s'. se_Put (engine_SE B) clk k v db = Some (e, s') \<and> badger_ok B dabs tabs ival \<and>
      dabs s' = (if e = None then (dabs db)(k \<mapsto> content v) else dabs db)"
    using ok update_effect [OF ok, of "bg_Set B k v" "\<lambda>m. m(k \<mapsto> content v)" db] badger_setD(1) [OF ok, of k v]
    by (cases "Engine_Put B k v db") (simp add: engine_SE_def Engine_Put_def)
next
  fix db clk k assume ok: "badger_ok B dabs tabs ival"
  show "\<exists>v e s'. se_Get (engine_SE B) clk k db = Some ((v, e), s') \<and> badger_ok B dabs tabs ival \<and>
      dabs s' = dabs db \<and> (e = None \<longrightarrow> dabs db k = Some (content v)) \<and>
      (e = Some ErrKeyNotFound \<longrightarrow> dabs db k = None)"
    using ok Engine_Get_effect [OF ok, of k db]
    by (cases "Engine_Get B k db") (simp add: engine_SE_def)
next
  fix db clk k assume ok: "badger_ok B dabs tabs ival"
  show "\<exists>e s'. se_Delete (engine_SE B) clk k db = Some (e, s') \<and> badger_ok B dabs tabs ival \<and>
      dabs s' = (if e = None then (dabs db)(k := None) else dabs db)"
    using ok update_effect [OF ok, of "bg_Del B k" "\<lambda>m. m(k := None)" db] badger_setD(2) [OF ok, of k]
    by (cases "Engine_Delete B k db") (simp add: engine_SE_def Engine_Delete_def)
next
  fix db clk k assume ok: "badger_ok B dabs tabs ival"
  show "\<exists>b e s'. se_Exists (engine_SE B) clk k db = Some ((b, e), s') \<and> badger_ok B dabs tabs ival \<and>
      dabs s' = dabs db \<and> (e = None \<longrightarrow> b = (dabs db k \<noteq> None))"
    using ok Engine_Exists_effect [OF ok, of k db]
    by (cases "Engine_Exists B k db") (simp add: engine_SE_def)
next
  fix db p assume ok: "badger_ok B dabs tabs ival"
  show "\<exists>l e s'. se_List (engine_SE B) p db = ((l, e), s') \<and> badger_ok B dabs tabs ival \<and> dabs s' = dabs db \<and>
      (e = None \<longrightarrow> gm_ok l \<and> (\<forall>k. map_option content (gm_get l k) = (if prefix p k then dabs db k else None)))"
  proof (cases "bg_View B db")
    case (Inl err)
    with ok show ?thesis by (simp add: engine_SE_def Engine_List_def)
  next
    case (Inr t)
    have "map_option content (gm_get l k) = (if prefix p k then dabs db k else None)"
      if "listLoop B (bg_Iterate B p t) [] = (l, None)" for l k
      using listLoop_effect [OF ok that badger_iterD(1) [OF ok], of k] badger_iterD(2) [OF ok, of p t k]
        badger_viewD(1) [OF ok Inr] by (auto split: option.splits if_splits)
    with ok Inr listLoop_ok [of B "bg_Iterate B p t" "[]"] show ?thesis
      by (cases "listLoop B (bg_Iterate B p t) []") (auto simp: engine_SE_def Engine_List_def)
  qed
next
  fix db clk items assume ok: "badger_ok B dabs tabs ival"
  show "\<exists>e s'. se_BatchPut (engine_SE B) clk items db = Some (e, s') \<and> badger_ok B dabs tabs ival \<and>
      dabs s' = (if e = None then putAll items (dabs db) else dabs db)"
    using ok update_effect [OF ok, of "setLoop B items" "putAll items" db] setLoop_effect [OF ok, of items]
    by (cases "Engine_BatchPut B items db") (simp add: engine_SE_def Engine_BatchPut_def)
next
  fix db clk keys assume ok: "badger_ok B dabs tabs ival"
  show "\<exists>kvs e s'. se_BatchGet (engine_SE B) clk keys db = Some ((kvs, e), s') \<and> badger_ok B dabs tabs ival \<and>
      dabs s' = dabs db \<and> (e = None \<longrightarrow> list_all2 (answers (dabs db)) keys kvs)"
  proof (cases "bg_View B db")
    case (Inl err)
    with ok show ?thesis by (simp add: engine_SE_def Engine_BatchGet_def)
  next
    case (Inr t)
    have "list_all2 (answers (dabs db)) keys kvs"
      if "getLoop B t 0 keys (replicate (length keys) zero_KeyValue) = (kvs, None)" for kvs
      using getLoop_effect [OF ok that] badger_viewD(1) [OF ok Inr] by simp
    with ok Inr show ?thesis
      by (cases "getLoop B t 0 keys (replicate (length keys) zero_KeyValue)")
        (auto simp: engine_SE_def Engine_BatchGet_def)
  qed
next
  fix db clk keys assume ok: "badger_ok B dabs tabs ival"
  show "\<exists>e s'. se_BatchDelete (engine_SE B) clk keys db = Some (e, s') \<and> badger_ok B dabs tabs ival \<and>
      dabs s' = (if e = None then deleteAll keys (dabs db) else dabs db)"
    using ok update_effect [OF ok, of "deleteLoop B keys" "deleteAll keys" db] deleteLoop_effect [OF ok, of keys]
    by (cases "Engine_BatchDelete B keys db") (simp add: engine_SE_def Engine_BatchDelete_def)
qed

section \<open>A database that keeps the laws\<close>

text \<open>
  An in-memory instance of the parameter, to show that \<open>badger_ok\<close> can hold: database and
  transaction are association lists, an empty key is refused as BadgerDB refuses it, and an
  empty value is copied to a nil slice.
\<close>

definition mem_badger :: "((bytes, bytes) gomap, (bytes, bytes) gomap, bytes) Badger" where
  "mem_badger =
     \<lparr>bg_Update = \<lambda>f db. (case f db of (None, db') \<Rightarrow> (None, db') | (Some e, _) \<Rightarrow> (Some e, db)),
      bg_View = \<lambda>db. Inr db,
      bg_Set = \<lambda>k v t. (if k = [] then (Some (BErr ''Key cannot be empty''), t) else (None, gm_put k (content v) t)),
      bg_Del = \<lambda>k t. (if k = [] then (Some (BErr ''Key cannot be empty''), t) else (None, gm_del k t)),
      bg_Get = \<lambda>k t. (case gm_get t k of None \<Rightarrow> Inl BErrKeyNotFound | Some v \<Rightarrow> Inr v),
      bg_ValueCopy = \<lambda>v. (if v = [] then None else Some v, None),
      bg_Iterate = \<lambda>p t. filter (\<lambda>q. prefix p (fst q)) (AList.clearjunk t),
      bg_Close = \<lambda>db. (None, db),
      bg_Backup = \<lambda>db. ([], Some (BErr ''not supported'')),
      bg_Load = \<lambda>data db. (Some (BErr ''not supported''), db),
      bg_LevelsToString = \<lambda>db. [],
      bg_Tables = \<lambda>db. [],
      bg_Size = \<lambda>db. (0, 0),
      bg_RunValueLogGC = \<lambda>db. (Some (BErr ''no rewrite''), db)\<rparr>"

lemma mem_iterate:
  "map_option f (gm_get (filter (\<lambda>q. P (fst q)) m) k) = (if P k then map_option f (gm_get m k) else None)"
  by (induction m) auto

lemma mem_badger_ok: "badger_ok mem_badger gm_get gm_get id"
proof -
  have "gm_ok (bg_Iterate mem_badger p t)" for p t
    by (simp add: mem_badger_def gm_ok_def distinct_map_filter)
  moreover have "map_option id (gm_get (bg_Iterate mem_badger p t) k) = (if prefix p k then gm_get t k else None)" for p t k
    using mem_iterate [of id "prefix p" "AList.clearjunk t" k]
    by (simp add: mem_badger_def map_of_clearjunk option.map_id)
  ultimately show ?thesis
    unfolding badger_ok_def
    by (auto simp: mem_badger_def update_conv' delete_conv' split: option.splits if_splits prod.splits)
qed

section \<open>Durability of the write path\<close>

lemma NewEngine_sync:
  "bo_SyncWrites (NewEngine_options config) =
     (cfg_SyncWrites config \<and> \<not> (cfg_WALEnabled config \<and> 0 < cfg_FSyncThreshold config))"
  by (simp add: NewEngine_options_def Let_def)

lemma runGC_tick_contents:
  assumes ok: "badger_ok B dabs tabs ival" and "runGC_tick B db = Some db'"
  shows "dabs db' = dabs db"
proof -
  have "B = B \<longrightarrow> dabs db' = dabs db"
  proof (rule runGC_tick.raw_induct [where P = "\<lambda>B' db db'. B' = B \<longrightarrow> dabs db' = dabs db", OF _ assms(2)])
    fix loop B' db0 db1
    assume "\<And>B' db0 db1. loop B' db0 = Some db1 \<Longrightarrow> B' = B \<longrightarrow> dabs db1 = dabs db0"
      and "(case bg_RunValueLogGC B' db0 of (None, db) \<Rightarrow> loop B' db | (Some err, db) \<Rightarrow> Some db) = Some db1"
    then show "B' = B \<longrightarrow> dabs db1 = dabs db0"
      by (cases "bg_RunValueLogGC B' db0") (auto dest: badger_gcD [OF ok] split: option.splits)
  qed
  then show ?thesis by simp
qed

end
