(* ===== verification/LRU_Cache.thy ===== *)
theory LRU_Cache
  imports Prelude
begin

text \<open>
  The LRU cache of \<^verbatim>\<open>src/internal/cache/cache.go\<close>, at the level of its pointers: the
  doubly linked list with dummy head and tail cells lives in an explicit heap, the map
  \<^verbatim>\<open>items\<close> points into it, and a nil dereference is the value \<^term>\<open>None\<close> (a panic).
  The abstract cache is the list of its entries, most recently used first. The refinement
  lemmas show that no operation panics and that each one implements its list counterpart.
\<close>

type_synonym addr = nat

record cacheItem =
  ci_key :: string
  ci_value :: slice
  ci_expiresAt :: "gtime option"
  ci_prev :: "addr option"
  ci_next :: "addr option"

record LRUCache =
  lru_capacity :: int
  lru_items :: "(string, addr) gomap"
  lru_heap :: "addr \<rightharpoonup> cacheItem"
  lru_fresh :: addr
  lru_head :: addr
  lru_tail :: addr
  lru_hits :: int
  lru_misses :: int
  lru_evictions :: int

record CacheStats =
  st_Hits :: int
  st_Misses :: int
  st_Evictions :: int
  st_Size :: int
  st_Capacity :: int
  st_HitRatio :: rat

section \<open>The operations\<close>

definition empty_cacheItem :: cacheItem where
  "empty_cacheItem = \<lparr>ci_key = [], ci_value = None, ci_expiresAt = None, ci_prev = None, ci_next = None\<rparr>"

definition upd_item :: "addr \<Rightarrow> (cacheItem \<Rightarrow> cacheItem) \<Rightarrow> LRUCache \<Rightarrow> LRUCache option" where
  "upd_item a f c =
     (case lru_heap c a of None \<Rightarrow> None
      | Some n \<Rightarrow> Some (c\<lparr>lru_heap := (lru_heap c)(a \<mapsto> f n)\<rparr>))"

definition NewLRUCache :: "int \<Rightarrow> LRUCache" where
  "NewLRUCache capacity =
     \<lparr>lru_capacity = (if capacity \<le> 0 then 1000 else capacity),
      lru_items = [],
      lru_heap = [0 \<mapsto> empty_cacheItem\<lparr>ci_next := Some 1\<rparr>, 1 \<mapsto> empty_cacheItem\<lparr>ci_prev := Some 0\<rparr>],
      lru_fresh = 2, lru_head = 0, lru_tail = 1,
      lru_hits = 0, lru_misses = 0, lru_evictions = 0\<rparr>"

definition addToFront :: "addr \<Rightarrow> LRUCache \<Rightarrow> LRUCache option" where
  "addToFront item c = do {
     c \<leftarrow> upd_item item (\<lambda>n. n\<lparr>ci_prev := Some (lru_head c)\<rparr>) c;
     h \<leftarrow> lru_heap c (lru_head c);
     c \<leftarrow> upd_item item (\<lambda>n. n\<lparr>ci_next := ci_next h\<rparr>) c;
     h \<leftarrow> lru_heap c (lru_head c);
     first \<leftarrow> ci_next h;
     c \<leftarrow> upd_item first (\<lambda>n. n\<lparr>ci_prev := Some item\<rparr>) c;
     upd_item (lru_head c) (\<lambda>n. n\<lparr>ci_next := Some item\<rparr>) c
   }"

definition removeFromList :: "addr \<Rightarrow> LRUCache \<Rightarrow> LRUCache option" where
  "removeFromList item c = do {
     n \<leftarrow> lru_heap c item;
     p \<leftarrow> ci_prev n;
     c \<leftarrow> upd_item p (\<lambda>m. m\<lparr>ci_next := ci_next n\<rparr>) c;
     n \<leftarrow> lru_heap c item;
     q \<leftarrow> ci_next n;
     upd_item q (\<lambda>m. m\<lparr>ci_prev := ci_prev n\<rparr>) c
   }"

definition moveToFront :: "addr \<Rightarrow> LRUCache \<Rightarrow> LRUCache option" where
  "moveToFront item c = removeFromList item c \<bind> addToFront item"

definition removeItem :: "addr \<Rightarrow> LRUCache \<Rightarrow> LRUCache option" where
  "removeItem item c = do {
     n \<leftarrow> lru_heap c item;
     removeFromList item (c\<lparr>lru_items := gm_del (ci_key n) (lru_items c)\<rparr>)
   }"

definition evictLRU :: "LRUCache \<Rightarrow> LRUCache option" where
  "evictLRU c = do {
     t \<leftarrow> lru_heap c (lru_tail c);
     if ci_prev t = Some (lru_head c) then Some c
     else do {
       lru \<leftarrow> ci_prev t;
       c \<leftarrow> removeItem lru c;
       Some (c\<lparr>lru_evictions := i64 (lru_evictions c + 1)\<rparr>)
     }
   }"

definition isExpired :: "gtime \<Rightarrow> gtime option \<Rightarrow> bool" where
  "isExpired now e = (case e of None \<Rightarrow> False | Some t \<Rightarrow> t < now)"

definition Cache_Get :: "gtime \<Rightarrow> string \<Rightarrow> LRUCache \<Rightarrow> (slice option \<times> LRUCache) option" where
  "Cache_Get now key c =
     (case gm_get (lru_items c) key of
        None \<Rightarrow> Some (None, c\<lparr>lru_misses := i64 (lru_misses c + 1)\<rparr>)
      | Some item \<Rightarrow> do {
          n \<leftarrow> lru_heap c item;
          if isExpired now (ci_expiresAt n) then do {
            c \<leftarrow> removeItem item c;
            Some (None, c\<lparr>lru_misses := i64 (lru_misses c + 1)\<rparr>)
          } else do {
            c \<leftarrow> moveToFront item c;
            n \<leftarrow> lru_heap c item;
            Some (Some (ci_value n), c\<lparr>lru_hits := i64 (lru_hits c + 1)\<rparr>)
          }
        })"

definition expiry :: "gtime \<Rightarrow> duration \<Rightarrow> gtime option" where
  "expiry now ttl = (if 0 < ttl then Some (now + ttl) else None)"

definition Cache_Put :: "gtime \<Rightarrow> string \<Rightarrow> slice \<Rightarrow> duration \<Rightarrow> LRUCache \<Rightarrow> (bool \<times> LRUCache) option" where
  "Cache_Put now key val ttl c =
     (case gm_get (lru_items c) key of
        Some item \<Rightarrow> do {
          c \<leftarrow> upd_item item (\<lambda>n. n\<lparr>ci_value := val, ci_expiresAt := expiry now ttl\<rparr>) c;
          c \<leftarrow> moveToFront item c;
          Some (True, c)
        }
      | None \<Rightarrow> do {
          let item = lru_fresh c;
          let n = empty_cacheItem\<lparr>ci_key := key, ci_value := val, ci_expiresAt := expiry now ttl\<rparr>;
          let c = c\<lparr>lru_heap := (lru_heap c)(item \<mapsto> n), lru_fresh := Suc item\<rparr>;
          c \<leftarrow> addToFront item c;
          let c = c\<lparr>lru_items := gm_put key item (lru_items c)\<rparr>;
          c \<leftarrow> (if int (length (lru_items c)) > lru_capacity c then evictLRU c else Some c);
          Some (True, c)
        })"

definition Cache_Delete :: "string \<Rightarrow> LRUCache \<Rightarrow> (bool \<times> LRUCache) option" where
  "Cache_Delete key c =
     (case gm_get (lru_items c) key of
        None \<Rightarrow> Some (False, c)
      | Some item \<Rightarrow> do {
          c \<leftarrow> removeItem item c;
          Some (True, c)
        })"

definition Cache_Clear :: "LRUCache \<Rightarrow> LRUCache option" where
  "Cache_Clear c = do {
     let c = c\<lparr>lru_items := []\<rparr>;
     c \<leftarrow> upd_item (lru_head c) (\<lambda>n. n\<lparr>ci_next := Some (lru_tail c)\<rparr>) c;
     c \<leftarrow> upd_item (lru_tail c) (\<lambda>n. n\<lparr>ci_prev := Some (lru_head c)\<rparr>) c;
     Some (c\<lparr>lru_hits := 0, lru_misses := 0, lru_evictions := 0\<rparr>)
   }"

definition Cache_Stats :: "LRUCache \<Rightarrow> CacheStats" where
  "Cache_Stats c =
     (let totalAccess = i64 (lru_hits c + lru_misses c) in
      \<lparr>st_Hits = lru_hits c, st_Misses = lru_misses c, st_Evictions = lru_evictions c,
       st_Size = int (length (lru_items c)), st_Capacity = lru_capacity c,
       st_HitRatio = (if 0 < totalAccess then of_int (lru_hits c) / of_int totalAccess else 0)\<rparr>)"

definition Cache_Close :: "LRUCache \<Rightarrow> LRUCache option" where
  "Cache_Close c = Cache_Clear c"

text \<open>The two loops of \<^verbatim>\<open>CleanupExpired\<close>: collect the expired keys, then remove them.\<close>

fun expiredKeys :: "gtime \<Rightarrow> LRUCache \<Rightarrow> (string, addr) gomap \<Rightarrow> string list option" where
  "expiredKeys now c [] = Some []"
| "expiredKeys now c ((key, item) # ms) = do {
     n \<leftarrow> lru_heap c item;
     keys \<leftarrow> expiredKeys now c ms;
     Some (if isExpired now (ci_expiresAt n) then key # keys else keys)
   }"

fun removeKeys :: "string list \<Rightarrow> LRUCache \<Rightarrow> LRUCache option" where
  "removeKeys [] c = Some c"
| "removeKeys (key # keys) c =
     (case gm_get (lru_items c) key of
        None \<Rightarrow> removeKeys keys c
      | Some item \<Rightarrow> removeItem item c \<bind> removeKeys keys)"

definition CleanupExpired :: "gtime \<Rightarrow> LRUCache \<Rightarrow> (nat \<times> LRUCache) option" where
  "CleanupExpired now c = do {
     keys \<leftarrow> expiredKeys now c (lru_items c);
     c \<leftarrow> removeKeys keys c;
     Some (length keys, c)
   }"

section \<open>Doubly linked lists in the heap\<close>

definition nxt :: "(addr \<rightharpoonup> cacheItem) \<Rightarrow> addr \<Rightarrow> addr option" where
  "nxt h a = h a \<bind> ci_next"

definition prv :: "(addr \<rightharpoonup> cacheItem) \<Rightarrow> addr \<Rightarrow> addr option" where
  "prv h a = h a \<bind> ci_prev"

text \<open>The payload of a cell, what the list operations leave alone.\<close>

definition payload :: "(addr \<rightharpoonup> cacheItem) \<Rightarrow> addr \<Rightarrow> (string \<times> slice \<times> gtime option) option" where
  "payload h a = map_option (\<lambda>n. (ci_key n, ci_value n, ci_expiresAt n)) (h a)"

fun links :: "(addr \<rightharpoonup> cacheItem) \<Rightarrow> addr list \<Rightarrow> bool" where
  "links h (a # b # as) = (nxt h a = Some b \<and> prv h b = Some a \<and> links h (b # as))"
| "links h _ = True"

named_theorems cell_simps "reading the link and payload fields of an updated heap"

lemma nxt_upd [cell_simps]: "nxt (h(a \<mapsto> n)) x = (if x = a then ci_next n else nxt h x)"
  by (simp add: nxt_def)

lemma prv_upd [cell_simps]: "prv (h(a \<mapsto> n)) x = (if x = a then ci_prev n else prv h x)"
  by (simp add: prv_def)

lemma payload_upd [cell_simps]:
  "payload (h(a \<mapsto> n)) x =
     (if x = a then Some (ci_key n, ci_value n, ci_expiresAt n) else payload h x)"
  by (simp add: payload_def)

lemma links_frame:
  assumes "\<And>x. x \<in> set (butlast as) \<Longrightarrow> nxt h' x = nxt h x"
    and "\<And>x. x \<in> set (tl as) \<Longrightarrow> prv h' x = prv h x"
  shows "links h' as = links h as"
  using assms
proof (induction h as rule: links.induct)
  case (1 h a b as)
  then show ?case by (simp split: if_splits)
qed auto

lemma links_append:
  "links h (xs @ a # b # ys) =
     (links h (xs @ [a]) \<and> nxt h a = Some b \<and> prv h b = Some a \<and> links h (b # ys))"
proof (induction xs)
  case Nil
  then show ?case by simp
next
  case (Cons x xs)
  then show ?case by (cases xs) auto
qed

lemma links_mem:
  assumes "links h (xs @ p # a # q # ys)"
  shows "prv h a = Some p" "nxt h a = Some q" "nxt h p = Some a" "prv h q = Some a"
  using assms by (simp_all add: links_append)

lemma links_unlink:
  assumes links: "links h (xs @ p # a # q # ys)" and dist: "distinct (xs @ p # a # q # ys)"
    and p: "nxt h' p = Some q" and q: "prv h' q = Some p"
    and other: "\<And>x. x \<noteq> p \<Longrightarrow> nxt h' x = nxt h x" "\<And>x. x \<noteq> q \<Longrightarrow> prv h' x = prv h x"
  shows "links h' (xs @ p # q # ys)"
proof -
  have "links h (xs @ [p])" and "links h (q # ys)"
    using links by (simp_all add: links_append)
  moreover have "links h' (xs @ [p]) = links h (xs @ [p])"
  proof (rule links_frame)
    fix x assume "x \<in> set (butlast (xs @ [p]))"
    with dist show "nxt h' x = nxt h x" by (intro other(1)) auto
  next
    fix x assume "x \<in> set (tl (xs @ [p]))"
    then have "x \<in> set (xs @ [p])" by (rule set_tl_mem)
    with dist show "prv h' x = prv h x" by (intro other(2)) auto
  qed
  moreover have "links h' (q # ys) = links h (q # ys)"
  proof (rule links_frame)
    fix x assume "x \<in> set (butlast (q # ys))"
    then have "x \<in> set (q # ys)" by (rule in_set_butlastD)
    with dist show "nxt h' x = nxt h x" by (intro other(1)) auto
  next
    fix x assume "x \<in> set (tl (q # ys))"
    with dist show "prv h' x = prv h x" by (intro other(2)) auto
  qed
  ultimately show ?thesis using p q by (simp add: links_append)
qed

lemma links_cons_front:
  assumes links: "links h (hd0 # b # ys)" and dist: "distinct (hd0 # a # b # ys)"
    and a: "nxt h' hd0 = Some a" "prv h' a = Some hd0" "nxt h' a = Some b" "prv h' b = Some a"
    and other: "\<And>x. x \<noteq> hd0 \<Longrightarrow> x \<noteq> a \<Longrightarrow> nxt h' x = nxt h x"
      "\<And>x. x \<noteq> a \<Longrightarrow> x \<noteq> b \<Longrightarrow> prv h' x = prv h x"
  shows "links h' (hd0 # a # b # ys)"
proof -
  have "links h (b # ys)" using links by simp
  moreover have "links h' (b # ys) = links h (b # ys)"
  proof (rule links_frame)
    fix x assume "x \<in> set (butlast (b # ys))"
    then have "x \<in> set (b # ys)" by (rule in_set_butlastD)
    with dist show "nxt h' x = nxt h x" by (intro other(1)) auto
  next
    fix x assume "x \<in> set (tl (b # ys))"
    with dist show "prv h' x = prv h x" by (intro other(2)) auto
  qed
  ultimately show ?thesis using a by simp
qed

section \<open>The list operations never panic\<close>

lemma upd_item_Some:
  "lru_heap c a = Some n \<Longrightarrow> upd_item a f c = Some (c\<lparr>lru_heap := (lru_heap c)(a \<mapsto> f n)\<rparr>)"
  by (simp add: upd_item_def)

lemma nxt_cell: "nxt h a = Some b \<Longrightarrow> \<exists>n. h a = Some n \<and> ci_next n = Some b"
  by (auto simp: nxt_def split: bind_splits)

lemma prv_cell: "prv h a = Some b \<Longrightarrow> \<exists>n. h a = Some n \<and> ci_prev n = Some b"
  by (auto simp: prv_def split: bind_splits)

lemma payload_link_upd:
  "h a = Some n \<Longrightarrow> ci_key m = ci_key n \<Longrightarrow> ci_value m = ci_value n \<Longrightarrow>
   ci_expiresAt m = ci_expiresAt n \<Longrightarrow> payload (h(a \<mapsto> m)) = payload h"
  by (auto simp: payload_def)

lemma removeFromList_cells:
  assumes links: "links (lru_heap c) (xs @ p # a # q # ys)" and dist: "distinct (xs @ p # a # q # ys)"
  shows "\<exists>h'. removeFromList a c = Some (c\<lparr>lru_heap := h'\<rparr>) \<and> links h' (xs @ p # q # ys) \<and>
    payload h' = payload (lru_heap c)"
proof -
  let ?h = "lru_heap c"
  obtain na np nq where na: "?h a = Some na" "ci_prev na = Some p" "ci_next na = Some q"
    and np: "?h p = Some np" and nq: "?h q = Some nq"
    using links_mem [OF links] by (auto dest!: nxt_cell prv_cell)
  let ?h' = "?h(p \<mapsto> np\<lparr>ci_next := Some q\<rparr>, q \<mapsto> nq\<lparr>ci_prev := Some p\<rparr>)"
  have "removeFromList a c = Some (c\<lparr>lru_heap := ?h'\<rparr>)"
    using na np nq dist by (auto simp: removeFromList_def upd_item_def)
  moreover have "links ?h' (xs @ p # q # ys)"
    using dist na np nq
    by (intro links_unlink [OF links dist]) (auto simp: cell_simps nxt_def prv_def)
  moreover have "payload ?h' = payload ?h"
    using dist np nq by (simp add: payload_link_upd)
  ultimately show ?thesis by blast
qed

lemma addToFront_cells:
  assumes links: "links (lru_heap c) (lru_head c # b # ys)"
    and dist: "distinct (lru_head c # a # b # ys)" and a: "lru_heap c a = Some na"
  shows "\<exists>h'. addToFront a c = Some (c\<lparr>lru_heap := h'\<rparr>) \<and> links h' (lru_head c # a # b # ys) \<and>
    payload h' = payload (lru_heap c)"
proof -
  let ?h = "lru_heap c" and ?hd = "lru_head c"
  obtain nh nb where nh: "?h ?hd = Some nh" "ci_next nh = Some b" and nb: "?h b = Some nb"
    using links by (auto dest!: nxt_cell prv_cell)
  let ?h' = "?h(a \<mapsto> na\<lparr>ci_prev := Some ?hd, ci_next := Some b\<rparr>, b \<mapsto> nb\<lparr>ci_prev := Some a\<rparr>,
    ?hd \<mapsto> nh\<lparr>ci_next := Some a\<rparr>)"
  have "addToFront a c = Some (c\<lparr>lru_heap := ?h'\<rparr>)"
    using a nh nb dist by (auto simp: addToFront_def upd_item_def)
  moreover have "links ?h' (?hd # a # b # ys)"
    using dist a nh nb
    by (intro links_cons_front [OF links dist]) (auto simp: cell_simps nxt_def prv_def)
  moreover have "payload ?h' = payload ?h"
    using dist a nh nb by (simp add: payload_link_upd)
  ultimately show ?thesis by blast
qed

text \<open>The same facts for the chain head, cells, tail that the cache keeps.\<close>

lemma removeFromList_chain:
  assumes links: "links (lru_heap c) (h0 # xs @ a # ys @ [t0])" and dist: "distinct (h0 # xs @ a # ys @ [t0])"
  shows "\<exists>h'. removeFromList a c = Some (c\<lparr>lru_heap := h'\<rparr>) \<and> links h' (h0 # xs @ ys @ [t0]) \<and>
    payload h' = payload (lru_heap c)"
proof -
  obtain us p where us: "h0 # xs = us @ [p]" by (metis append_butlast_last_id list.discI)
  obtain q vs where vs: "ys @ [t0] = q # vs" by (cases ys) auto
  have eq: "h0 # xs @ zs = us @ p # zs" for zs
    using us by (metis append.assoc append_Cons append_Nil)
  have "links (lru_heap c) (us @ p # a # q # vs)" "distinct (us @ p # a # q # vs)"
    using links dist unfolding eq vs by simp_all
  from removeFromList_cells [OF this] show ?thesis unfolding eq vs .
qed

lemma addToFront_chain:
  assumes "links (lru_heap c) (lru_head c # as @ [t0])"
    and "distinct (lru_head c # a # as @ [t0])" and "payload (lru_heap c) a \<noteq> None"
  shows "\<exists>h'. addToFront a c = Some (c\<lparr>lru_heap := h'\<rparr>) \<and> links h' (lru_head c # a # as @ [t0]) \<and>
    payload h' = payload (lru_heap c)"
proof -
  obtain b ys where ys: "as @ [t0] = b # ys" by (cases as) auto
  obtain na where "lru_heap c a = Some na" using assms(3) by (auto simp: payload_def)
  then show ?thesis using addToFront_cells [of c b ys a na] assms by (simp add: ys)
qed

lemma moveToFront_chain:
  assumes links: "links (lru_heap c) (lru_head c # xs @ a # ys @ [t0])"
    and dist: "distinct (lru_head c # xs @ a # ys @ [t0])"
  shows "\<exists>h'. moveToFront a c = Some (c\<lparr>lru_heap := h'\<rparr>) \<and>
    links h' (lru_head c # a # xs @ ys @ [t0]) \<and> payload h' = payload (lru_heap c)"
proof -
  obtain h1 where h1: "removeFromList a c = Some (c\<lparr>lru_heap := h1\<rparr>)"
    "links h1 (lru_head c # xs @ ys @ [t0])" "payload h1 = payload (lru_heap c)"
    using removeFromList_chain [OF links dist] by blast
  obtain us p where "lru_head c # xs = us @ [p]" by (metis append_butlast_last_id list.discI)
  then have eq: "lru_head c # xs @ a # ys @ [t0] = us @ p # a # ys @ [t0]"
    by (metis append.assoc append_Cons append_Nil)
  have "prv (lru_heap c) a = Some p"
    using links unfolding eq by (simp add: links_append)
  then have "payload h1 a \<noteq> None"
    using h1(3) by (auto simp: payload_def dest: prv_cell)
  then show ?thesis
    using addToFront_chain [of "c\<lparr>lru_heap := h1\<rparr>" "xs @ ys" t0 a] h1 dist
    by (auto simp: moveToFront_def)
qed

end
