(* ===== verification/Cache_Interface.thy ===== *)
theory Cache_Interface
  imports Prelude
begin

text \<open>
  The contract of the interface \<^verbatim>\<open>Cache\<close> of \<^verbatim>\<open>src/internal/cache/cache.go\<close> as its clients see it.
  A cache may forget an entry at any time (expiry, eviction) but never invents one: a hit
  returns the value last put for the key. The client lemmas are about coherence with a
  backing store: every entry of the cache is what the store holds for its key.
\<close>

definition coherent :: "('c \<Rightarrow> string \<Rightarrow> slice option) \<Rightarrow> 'c \<Rightarrow> (bytes \<rightharpoonup> bytes) \<Rightarrow> bool" where
  "coherent view c m = (\<forall>k v. view c k = Some v \<longrightarrow> m k = Some (content v))"

lemma coherentD: "coherent view c m \<Longrightarrow> view c k = Some v \<Longrightarrow> m k = Some (content v)"
  by (simp add: coherent_def)

locale cache_laws =
  fixes inv :: "'c \<Rightarrow> bool"
    and view :: "'c \<Rightarrow> string \<Rightarrow> slice option"
    and cget :: "gtime \<Rightarrow> string \<Rightarrow> 'c \<Rightarrow> (slice option \<times> 'c) option"
    and cput :: "gtime \<Rightarrow> string \<Rightarrow> slice \<Rightarrow> duration \<Rightarrow> 'c \<Rightarrow> (bool \<times> 'c) option"
    and cdelete :: "string \<Rightarrow> 'c \<Rightarrow> (bool \<times> 'c) option"
    and cclear :: "'c \<Rightarrow> 'c option"
    and ccleanup :: "gtime \<Rightarrow> 'c \<Rightarrow> (nat \<times> 'c) option"
  assumes get_law: "inv c \<Longrightarrow> \<exists>r c'. cget now k c = Some (r, c') \<and> inv c' \<and> view c' \<subseteq>\<^sub>m view c \<and>
      (\<forall>v. r = Some v \<longrightarrow> view c k = Some v)"
    and put_law: "inv c \<Longrightarrow> \<exists>b c'. cput now k v ttl c = Some (b, c') \<and> inv c' \<and>
      view c' \<subseteq>\<^sub>m (view c)(k \<mapsto> v)"
    and delete_law: "inv c \<Longrightarrow> \<exists>b c'. cdelete k c = Some (b, c') \<and> inv c' \<and>
      view c' \<subseteq>\<^sub>m (view c)(k := None)"
    and clear_law: "inv c \<Longrightarrow> \<exists>c'. cclear c = Some c' \<and> inv c' \<and> view c' = Map.empty"
    and cleanup_law: "inv c \<Longrightarrow> \<exists>n c'. ccleanup now c = Some (n, c') \<and> inv c' \<and> view c' \<subseteq>\<^sub>m view c"
begin

lemma coherent_mono: "coherent view c m \<Longrightarrow> view c' \<subseteq>\<^sub>m view c \<Longrightarrow> coherent view c' m"
  unfolding coherent_def by (metis map_leD)

lemma coherent_get:
  assumes "inv c" and "coherent view c m"
  obtains r c' where "cget now k c = Some (r, c')" "inv c'" "coherent view c' m"
    "\<And>v. r = Some v \<Longrightarrow> m k = Some (content v)"
  using get_law [OF assms(1), of now k] coherent_mono [OF assms(2)] coherentD [OF assms(2)] by blast

lemma coherent_put:
  assumes "inv c" and "coherent view c m" and "m' = m(k \<mapsto> content v)"
  obtains b c' where "cput now k v ttl c = Some (b, c')" "inv c'" "coherent view c' m'"
proof -
  obtain b c' where c': "cput now k v ttl c = Some (b, c')" "inv c'" "view c' \<subseteq>\<^sub>m (view c)(k \<mapsto> v)"
    using put_law [OF assms(1)] by blast
  then have "coherent view c' m'"
    using assms(2,3) unfolding coherent_def by (auto dest!: map_leD [OF c'(3)] split: if_splits)
  with c' that show ?thesis by blast
qed

lemma coherent_fill:
  assumes "inv c" and "coherent view c m" and "m k = Some (content v)"
  obtains b c' where "cput now k v ttl c = Some (b, c')" "inv c'" "coherent view c' m"
  using coherent_put [OF assms(1,2), of m k v] assms(3) by (metis fun_upd_triv)

lemma coherent_delete:
  assumes "inv c" and "coherent view c m" and "m' = m(k := None)"
  obtains b c' where "cdelete k c = Some (b, c')" "inv c'" "coherent view c' m'"
proof -
  obtain b c' where c': "cdelete k c = Some (b, c')" "inv c'" "view c' \<subseteq>\<^sub>m (view c)(k := None)"
    using delete_law [OF assms(1)] by blast
  have "coherent view c' m'"
    unfolding coherent_def
  proof (intro allI impI)
    fix x w assume "view c' x = Some w"
    from map_leD [OF c'(3) this] show "m' x = Some (content w)"
      using assms(2,3) by (simp add: coherent_def split: if_splits)
  qed
  with c' that show ?thesis by blast
qed

lemma coherent_clear:
  assumes "inv c"
  obtains c' where "cclear c = Some c'" "inv c'" "coherent view c' m"
  using clear_law [OF assms] by (auto simp: coherent_def)

lemma coherent_cleanup:
  assumes "inv c" and "coherent view c m"
  obtains n c' where "ccleanup now c = Some (n, c')" "inv c'" "coherent view c' m"
  using cleanup_law [OF assms(1)] coherent_mono [OF assms(2)] by blast

end

end
