(* ===== verification/LRU_Refinement.thy ===== *)
theory LRU_Refinement
  imports LRU_Cache Cache_Interface
begin

text \<open>
  The LRU cache as a list of entries, most recently used first, and the proof that the
  pointer implementation of theory \<open>LRU_Cache\<close> implements it: \<open>lru_abs c s\<close> relates a cache
  in the heap to an abstract cache, every operation of \<^verbatim>\<open>cache.go\<close> keeps the relation and
  returns what the list operation returns, and none of them panics.
\<close>

section \<open>The abstract cache\<close>

type_synonym entries = "(string, slice \<times> gtime option) gomap"

record absCache =
  ab_capacity :: int
  ab_entries :: entries
  ab_hits :: int
  ab_misses :: int
  ab_evictions :: int

definition spec_Get :: "gtime \<Rightarrow> string \<Rightarrow> absCache \<Rightarrow> slice option \<times> absCache" where
  "spec_Get now k s =
     (case gm_get (ab_entries s) k of
        None \<Rightarrow> (None, s\<lparr>ab_misses := i64 (ab_misses s + 1)\<rparr>)
      | Some (v, e) \<Rightarrow>
          if isExpired now e
          then (None, s\<lparr>ab_entries := gm_del k (ab_entries s), ab_misses := i64 (ab_misses s + 1)\<rparr>)
          else (Some v, s\<lparr>ab_entries := (k, v, e) # gm_del k (ab_entries s),
                          ab_hits := i64 (ab_hits s + 1)\<rparr>))"

definition spec_Put :: "gtime \<Rightarrow> string \<Rightarrow> slice \<Rightarrow> duration \<Rightarrow> absCache \<Rightarrow> absCache" where
  "spec_Put now k v ttl s =
     (let es = (k, v, expiry now ttl) # gm_del k (ab_entries s) in
      if gm_get (ab_entries s) k = None \<and> int (length es) > ab_capacity s
      then s\<lparr>ab_entries := butlast es, ab_evictions := i64 (ab_evictions s + 1)\<rparr>
      else s\<lparr>ab_entries := es\<rparr>)"

definition spec_Delete :: "string \<Rightarrow> absCache \<Rightarrow> bool \<times> absCache" where
  "spec_Delete k s = (gm_get (ab_entries s) k \<noteq> None, s\<lparr>ab_entries := gm_del k (ab_entries s)\<rparr>)"

definition spec_Clear :: "absCache \<Rightarrow> absCache" where
  "spec_Clear s = s\<lparr>ab_entries := [], ab_hits := 0, ab_misses := 0, ab_evictions := 0\<rparr>"

definition spec_Cleanup :: "gtime \<Rightarrow> absCache \<Rightarrow> nat \<times> absCache" where
  "spec_Cleanup now s =
     (length (filter (\<lambda>(k, v, e). isExpired now e) (ab_entries s)),
      s\<lparr>ab_entries := filter (\<lambda>(k, v, e). \<not> isExpired now e) (ab_entries s)\<rparr>)"

section \<open>The representation relation\<close>

definition chain_ok :: "LRUCache \<Rightarrow> addr list \<Rightarrow> bool" where
  "chain_ok c as =
     (distinct (lru_head c # as @ [lru_tail c]) \<and>
      links (lru_heap c) (lru_head c # as @ [lru_tail c]) \<and>
      (\<forall>a \<in> set (lru_head c # as @ [lru_tail c]). a < lru_fresh c))"

definition items_ok :: "LRUCache \<Rightarrow> addr list \<Rightarrow> bool" where
  "items_ok c as =
     (gm_ok (lru_items c) \<and>
      (\<forall>k a. gm_get (lru_items c) k = Some a \<longleftrightarrow>
         a \<in> set as \<and> (\<exists>d. payload (lru_heap c) a = Some (k, d))))"

definition lru_rep :: "LRUCache \<Rightarrow> addr list \<Rightarrow> bool" where
  "lru_rep c as = (chain_ok c as \<and> items_ok c as \<and> 0 < lru_capacity c)"

definition entries_of :: "(addr \<rightharpoonup> cacheItem) \<Rightarrow> addr list \<Rightarrow> entries" where
  "entries_of h as = map (\<lambda>a. the (payload h a)) as"

definition lru_abs :: "LRUCache \<Rightarrow> absCache \<Rightarrow> bool" where
  "lru_abs c s = (\<exists>as. lru_rep c as \<and>
     s = \<lparr>ab_capacity = lru_capacity c, ab_entries = entries_of (lru_heap c) as,
          ab_hits = lru_hits c, ab_misses = lru_misses c, ab_evictions = lru_evictions c\<rparr>)"

lemma entries_of_simps [simp]:
  "entries_of h [] = []"
  "entries_of h (a # as) = the (payload h a) # entries_of h as"
  "entries_of h (as @ bs) = entries_of h as @ entries_of h bs"
  "length (entries_of h as) = length as"
  by (simp_all add: entries_of_def)

lemma lru_rep_cell:
  assumes "lru_rep c as" and "a \<in> set as"
  shows "\<exists>k v e. payload (lru_heap c) a = Some (k, v, e) \<and> gm_get (lru_items c) k = Some a"
proof -
  obtain xs ys where as: "as = xs @ a # ys" using assms(2) by (meson split_list)
  obtain us p where us: "lru_head c # xs = us @ [p]" by (metis append_butlast_last_id list.discI)
  have eq: "lru_head c # as @ [lru_tail c] = us @ p # a # ys @ [lru_tail c]"
    using us as by (metis append.assoc append_Cons append_Nil)
  have "prv (lru_heap c) a = Some p"
    using assms(1) unfolding lru_rep_def chain_ok_def eq by (simp add: links_append)
  then obtain n where n: "lru_heap c a = Some n" by (auto dest: prv_cell)
  then have "payload (lru_heap c) a = Some (ci_key n, ci_value n, ci_expiresAt n)"
    by (simp add: payload_def)
  with assms show ?thesis by (auto simp: lru_rep_def items_ok_def)
qed

lemma entries_distinct:
  assumes "lru_rep c as"
  shows "gm_ok (entries_of (lru_heap c) as)"
proof -
  have "inj_on (\<lambda>a. fst (the (payload (lru_heap c) a))) (set as)"
  proof (rule inj_onI)
    fix a b assume "a \<in> set as" "b \<in> set as"
      and "fst (the (payload (lru_heap c) a)) = fst (the (payload (lru_heap c) b))"
    then show "a = b"
      using lru_rep_cell [OF assms, of a] lru_rep_cell [OF assms, of b] by fastforce
  qed
  moreover have "distinct as" using assms by (simp add: lru_rep_def chain_ok_def)
  ultimately show ?thesis by (simp add: gm_ok_def entries_of_def distinct_map comp_def)
qed

lemma entries_lookup:
  assumes rep: "lru_rep c as"
  shows "gm_get (entries_of (lru_heap c) as) k =
    (case gm_get (lru_items c) k of None \<Rightarrow> None | Some a \<Rightarrow> map_option snd (payload (lru_heap c) a))"
proof (cases "gm_get (lru_items c) k")
  case None
  have "k \<notin> fst ` set (entries_of (lru_heap c) as)"
    using lru_rep_cell [OF rep] None by (fastforce simp: entries_of_def)
  then have "gm_get (entries_of (lru_heap c) as) k = None" by (simp add: map_of_eq_None_iff)
  then show ?thesis using None by (simp only: option.case)
next
  case (Some a)
  then obtain d where "a \<in> set as" "payload (lru_heap c) a = Some (k, d)"
    using rep by (auto simp: lru_rep_def items_ok_def)
  moreover from this have "(k, d) \<in> set (entries_of (lru_heap c) as)"
    by (force simp: entries_of_def)
  ultimately show ?thesis
    using Some entries_distinct [OF rep] by (simp add: gm_get_mem)
qed

lemma items_length:
  assumes rep: "lru_rep c as"
  shows "length (lru_items c) = length as"
proof -
  have ok: "gm_ok (lru_items c)" using rep by (simp add: lru_rep_def items_ok_def)
  have keys: "dom (gm_get (lru_items c)) = dom (gm_get (entries_of (lru_heap c) as))"
    using entries_lookup [OF rep] lru_rep_cell [OF rep] rep
    by (auto simp: lru_rep_def items_ok_def dom_def split: option.splits)
  show ?thesis
    using gm_length_dom [OF ok] gm_length_dom [OF entries_distinct [OF rep]] keys by simp
qed


section \<open>The list operations on a represented cache\<close>

lemma chain_ok_fields:
  "chain_ok (c\<lparr>lru_items := m\<rparr>) as = chain_ok c as"
  "chain_ok (c\<lparr>lru_hits := n\<rparr>) as = chain_ok c as"
  "chain_ok (c\<lparr>lru_misses := n\<rparr>) as = chain_ok c as"
  "chain_ok (c\<lparr>lru_evictions := n\<rparr>) as = chain_ok c as"
  by (simp_all add: chain_ok_def)

lemma items_ok_fields:
  "items_ok (c\<lparr>lru_hits := n\<rparr>) as = items_ok c as"
  "items_ok (c\<lparr>lru_misses := n\<rparr>) as = items_ok c as"
  "items_ok (c\<lparr>lru_evictions := n\<rparr>) as = items_ok c as"
  by (simp_all add: items_ok_def)

lemma lru_rep_counters [simp]:
  "lru_rep (c\<lparr>lru_hits := n\<rparr>) as = lru_rep c as"
  "lru_rep (c\<lparr>lru_misses := n\<rparr>) as = lru_rep c as"
  "lru_rep (c\<lparr>lru_evictions := n\<rparr>) as = lru_rep c as"
  by (simp_all add: lru_rep_def chain_ok_fields items_ok_fields)

lemma entries_of_cong: "payload h' = payload h \<Longrightarrow> entries_of h' as = entries_of h as"
  by (simp add: entries_of_def)

lemma entries_del:
  assumes rep: "lru_rep c (xs @ a # ys)" and a: "payload (lru_heap c) a = Some (k, d)"
  shows "gm_del k (entries_of (lru_heap c) (xs @ a # ys)) = entries_of (lru_heap c) (xs @ ys)"
proof -
  have "gm_ok (entries_of (lru_heap c) xs @ (k, d) # entries_of (lru_heap c) ys)"
    using entries_distinct [OF rep] a by simp
  then have "k \<notin> fst ` set (entries_of (lru_heap c) xs)" "k \<notin> fst ` set (entries_of (lru_heap c) ys)"
    by (auto simp: gm_ok_def)
  then show ?thesis using a by (simp add: gm_del_append gm_del_absent map_of_eq_None_iff)
qed

lemma lru_rep_addr:
  assumes "lru_rep c as" and "gm_get (lru_items c) k = Some a"
  obtains xs ys v e where "as = xs @ a # ys" "payload (lru_heap c) a = Some (k, v, e)"
proof -
  obtain d where "a \<in> set as" "payload (lru_heap c) a = Some (k, d)"
    using assms by (auto simp: lru_rep_def items_ok_def)
  then show ?thesis using that by (cases d) (metis split_list)
qed

lemma items_ok_remove:
  assumes ok: "items_ok c (xs @ a # ys)" and a: "payload (lru_heap c) a = Some (k, d)"
    and pay: "payload h' = payload (lru_heap c)" and a': "a \<notin> set xs" "a \<notin> set ys"
  shows "items_ok (c\<lparr>lru_items := gm_del k (lru_items c), lru_heap := h'\<rparr>) (xs @ ys)"
proof -
  have items: "gm_get (lru_items c) k' = Some b \<longleftrightarrow>
      b \<in> set (xs @ a # ys) \<and> (\<exists>d. payload (lru_heap c) b = Some (k', d))" for k' b
    using ok by (simp add: items_ok_def)
  then have "gm_get (lru_items c) k = Some a" using a by simp
  then have "b \<notin> set (xs @ ys)" if "payload (lru_heap c) b = Some (k, d')" for b d'
    using items [of k b] that a' by auto
  then have "gm_get (gm_del k (lru_items c)) k' = Some b \<longleftrightarrow>
      b \<in> set (xs @ ys) \<and> (\<exists>d. payload (lru_heap c) b = Some (k', d))" for k' b
    using items [of k' b] a by (cases "k' = k"; cases "b = a") auto
  then show ?thesis using ok by (simp add: items_ok_def pay)
qed

lemma removeItem_rep:
  assumes rep: "lru_rep c (xs @ a # ys)" and a: "payload (lru_heap c) a = Some (k, d)"
  shows "\<exists>h'. removeItem a c = Some (c\<lparr>lru_items := gm_del k (lru_items c), lru_heap := h'\<rparr>) \<and>
    lru_rep (c\<lparr>lru_items := gm_del k (lru_items c), lru_heap := h'\<rparr>) (xs @ ys) \<and>
    payload h' = payload (lru_heap c)"
proof -
  let ?c = "c\<lparr>lru_items := gm_del k (lru_items c)\<rparr>"
  obtain n where n: "lru_heap c a = Some n" "ci_key n = k" using a by (auto simp: payload_def)
  have "links (lru_heap ?c) (lru_head c # xs @ a # ys @ [lru_tail c])"
    and dist: "distinct (lru_head c # xs @ a # ys @ [lru_tail c])"
    using rep by (simp_all add: lru_rep_def chain_ok_def)
  from removeFromList_chain [OF this] obtain h' where h':
    "removeFromList a ?c = Some (?c\<lparr>lru_heap := h'\<rparr>)"
    "links h' (lru_head c # xs @ ys @ [lru_tail c])" "payload h' = payload (lru_heap c)"
    by auto
  have "chain_ok (?c\<lparr>lru_heap := h'\<rparr>) (xs @ ys)"
    using rep dist h'(2) by (auto simp: lru_rep_def chain_ok_def)
  moreover have "items_ok (?c\<lparr>lru_heap := h'\<rparr>) (xs @ ys)"
    using items_ok_remove [of c xs a ys k d h'] rep a h'(3) dist by (simp add: lru_rep_def)
  ultimately show ?thesis
    using rep h' n by (auto simp: removeItem_def lru_rep_def)
qed

lemma moveToFront_rep:
  assumes rep: "lru_rep c (xs @ a # ys)"
  shows "\<exists>h'. moveToFront a c = Some (c\<lparr>lru_heap := h'\<rparr>) \<and>
    lru_rep (c\<lparr>lru_heap := h'\<rparr>) (a # xs @ ys) \<and> payload h' = payload (lru_heap c)"
proof -
  have "links (lru_heap c) (lru_head c # xs @ a # ys @ [lru_tail c])"
    and dist: "distinct (lru_head c # xs @ a # ys @ [lru_tail c])"
    using rep by (simp_all add: lru_rep_def chain_ok_def)
  from moveToFront_chain [OF this] obtain h' where h':
    "moveToFront a c = Some (c\<lparr>lru_heap := h'\<rparr>)"
    "links h' (lru_head c # a # xs @ ys @ [lru_tail c])" "payload h' = payload (lru_heap c)"
    by auto
  then have "lru_rep (c\<lparr>lru_heap := h'\<rparr>) (a # xs @ ys)"
    using rep dist by (auto simp: lru_rep_def chain_ok_def items_ok_def)
  with h' show ?thesis by blast
qed

lemma evictLRU_rep:
  assumes rep: "lru_rep c (as @ [a])" and a: "payload (lru_heap c) a = Some (k, d)"
  shows "\<exists>h'. evictLRU c = Some (c\<lparr>lru_items := gm_del k (lru_items c), lru_heap := h',
      lru_evictions := i64 (lru_evictions c + 1)\<rparr>) \<and>
    lru_rep (c\<lparr>lru_items := gm_del k (lru_items c), lru_heap := h',
      lru_evictions := i64 (lru_evictions c + 1)\<rparr>) as \<and> payload h' = payload (lru_heap c)"
proof -
  have "links (lru_heap c) ((lru_head c # as) @ a # lru_tail c # [])"
    and "a \<noteq> lru_head c"
    using rep by (simp_all add: lru_rep_def chain_ok_def)
  then obtain t where "lru_heap c (lru_tail c) = Some t" "ci_prev t = Some a" "a \<noteq> lru_head c"
    unfolding links_append by (auto dest: prv_cell)
  then show ?thesis
    using removeItem_rep [of c as a "[]" k d] rep a by (auto simp: evictLRU_def)
qed


section \<open>Every operation implements its list counterpart\<close>

lemma lru_absI:
  assumes "lru_rep c as" and "ab_capacity s = lru_capacity c" and "ab_entries s = entries_of (lru_heap c) as"
    and "ab_hits s = lru_hits c" and "ab_misses s = lru_misses c" and "ab_evictions s = lru_evictions c"
  shows "lru_abs c s"
  using assms by (auto simp: lru_abs_def)

lemma lru_absE:
  assumes "lru_abs c s"
  obtains as where "lru_rep c as" "ab_capacity s = lru_capacity c"
    "ab_entries s = entries_of (lru_heap c) as" "ab_hits s = lru_hits c"
    "ab_misses s = lru_misses c" "ab_evictions s = lru_evictions c"
  using assms by (auto simp: lru_abs_def)

lemma abs_lookup:
  assumes "lru_abs c s"
  shows "gm_get (ab_entries s) k = (case gm_get (lru_items c) k of None \<Rightarrow> None
    | Some a \<Rightarrow> map_option snd (payload (lru_heap c) a))"
  using assms by (auto simp: lru_abs_def entries_lookup)

lemma NewLRUCache_abs:
  "lru_abs (NewLRUCache n) \<lparr>ab_capacity = (if n \<le> 0 then 1000 else n), ab_entries = [],
     ab_hits = 0, ab_misses = 0, ab_evictions = 0\<rparr>"
  by (rule lru_absI [where as = "[]"])
    (auto simp: NewLRUCache_def lru_rep_def chain_ok_def items_ok_def nxt_def prv_def)

lemma abs_item:
  assumes abs: "lru_abs c s" and Some: "gm_get (lru_items c) k = Some a"
  obtains xs ys v e where "lru_rep c (xs @ a # ys)" "payload (lru_heap c) a = Some (k, v, e)"
    "gm_get (ab_entries s) k = Some (v, e)"
    "gm_del k (ab_entries s) = entries_of (lru_heap c) (xs @ ys)"
    "ab_capacity s = lru_capacity c" "ab_hits s = lru_hits c"
    "ab_misses s = lru_misses c" "ab_evictions s = lru_evictions c"
proof -
  from abs obtain as where rep: "lru_rep c as" and s: "ab_capacity s = lru_capacity c"
    "ab_entries s = entries_of (lru_heap c) as" "ab_hits s = lru_hits c"
    "ab_misses s = lru_misses c" "ab_evictions s = lru_evictions c" by (rule lru_absE)
  from rep Some obtain xs ys v e where as: "as = xs @ a # ys"
    and pay: "payload (lru_heap c) a = Some (k, v, e)" by (rule lru_rep_addr)
  have "gm_get (ab_entries s) k = Some (v, e)" by (simp add: abs_lookup [OF abs] Some pay)
  moreover have "gm_del k (ab_entries s) = entries_of (lru_heap c) (xs @ ys)"
    using entries_del [of c xs a ys] rep pay as s by simp
  ultimately show ?thesis using that rep s pay as by blast
qed

lemma Cache_Get_abs:
  assumes abs: "lru_abs c s"
  shows "\<exists>c'. Cache_Get now k c = Some (fst (spec_Get now k s), c') \<and> lru_abs c' (snd (spec_Get now k s))"
proof (cases "gm_get (lru_items c) k")
  case None
  then show ?thesis using abs
    by (auto simp: Cache_Get_def spec_Get_def abs_lookup [OF abs] lru_abs_def)
next
  case (Some a)
  from abs Some obtain xs ys v e where rep: "lru_rep c (xs @ a # ys)"
    and pay: "payload (lru_heap c) a = Some (k, v, e)"
    and look: "gm_get (ab_entries s) k = Some (v, e)"
    and del: "gm_del k (ab_entries s) = entries_of (lru_heap c) (xs @ ys)"
    and s: "ab_capacity s = lru_capacity c" "ab_hits s = lru_hits c"
      "ab_misses s = lru_misses c" "ab_evictions s = lru_evictions c" by (rule abs_item)
  then obtain n where n: "lru_heap c a = Some n" "ci_expiresAt n = e" by (auto simp: payload_def)
  show ?thesis
  proof (cases "isExpired now e")
    case True
    obtain h' where h': "removeItem a c = Some (c\<lparr>lru_items := gm_del k (lru_items c), lru_heap := h'\<rparr>)"
      "lru_rep (c\<lparr>lru_items := gm_del k (lru_items c), lru_heap := h'\<rparr>) (xs @ ys)"
      "payload h' = payload (lru_heap c)"
      using removeItem_rep [OF rep pay] by blast
    have "lru_abs (c\<lparr>lru_items := gm_del k (lru_items c), lru_heap := h', lru_misses := i64 (lru_misses c + 1)\<rparr>)
        (snd (spec_Get now k s))"
      by (rule lru_absI [where as = "xs @ ys"])
        (simp_all add: spec_Get_def look True del s h' entries_of_cong [OF h'(3)])
    then show ?thesis by (simp add: Cache_Get_def spec_Get_def Some n True look h'(1))
  next
    case False
    obtain h' where h': "moveToFront a c = Some (c\<lparr>lru_heap := h'\<rparr>)"
      "lru_rep (c\<lparr>lru_heap := h'\<rparr>) (a # xs @ ys)" "payload h' = payload (lru_heap c)"
      using moveToFront_rep [OF rep] by blast
    then have "payload h' a = Some (k, v, e)" using pay by simp
    then obtain n' where n': "h' a = Some n'" "ci_value n' = v" by (auto simp: payload_def)
    have "lru_abs (c\<lparr>lru_heap := h', lru_hits := i64 (lru_hits c + 1)\<rparr>) (snd (spec_Get now k s))"
      by (rule lru_absI [where as = "a # xs @ ys"])
        (simp_all add: spec_Get_def look False del s h' pay entries_of_cong [OF h'(3)])
    then show ?thesis by (simp add: Cache_Get_def spec_Get_def Some n n' False look h'(1))
  qed
qed

lemma Cache_Delete_abs:
  assumes abs: "lru_abs c s"
  shows "\<exists>c'. Cache_Delete k c = Some (fst (spec_Delete k s), c') \<and> lru_abs c' (snd (spec_Delete k s))"
proof (cases "gm_get (lru_items c) k")
  case None
  then show ?thesis using abs
    by (auto simp: Cache_Delete_def spec_Delete_def abs_lookup [OF abs])
next
  case (Some a)
  from abs Some obtain xs ys v e where rep: "lru_rep c (xs @ a # ys)"
    and pay: "payload (lru_heap c) a = Some (k, v, e)"
    and look: "gm_get (ab_entries s) k = Some (v, e)"
    and del: "gm_del k (ab_entries s) = entries_of (lru_heap c) (xs @ ys)"
    and s: "ab_capacity s = lru_capacity c" "ab_hits s = lru_hits c"
      "ab_misses s = lru_misses c" "ab_evictions s = lru_evictions c" by (rule abs_item)
  obtain h' where h': "removeItem a c = Some (c\<lparr>lru_items := gm_del k (lru_items c), lru_heap := h'\<rparr>)"
    "lru_rep (c\<lparr>lru_items := gm_del k (lru_items c), lru_heap := h'\<rparr>) (xs @ ys)"
    "payload h' = payload (lru_heap c)"
    using removeItem_rep [OF rep pay] by blast
  have "lru_abs (c\<lparr>lru_items := gm_del k (lru_items c), lru_heap := h'\<rparr>) (snd (spec_Delete k s))"
    by (rule lru_absI [where as = "xs @ ys"])
      (simp_all add: spec_Delete_def del s h' entries_of_cong [OF h'(3)])
  then show ?thesis by (simp add: Cache_Delete_def spec_Delete_def Some look h'(1))
qed

lemma links_cong: "nxt h' = nxt h \<Longrightarrow> prv h' = prv h \<Longrightarrow> links h' as = links h as"
  by (rule links_frame) simp_all

lemma entries_of_frame: "(\<And>a. a \<in> set as \<Longrightarrow> payload h' a = payload h a) \<Longrightarrow> entries_of h' as = entries_of h as"
  by (simp add: entries_of_def)

lemma upd_value_rep:
  assumes rep: "lru_rep c (xs @ a # ys)" and a: "payload (lru_heap c) a = Some (k, d)"
  shows "\<exists>c'. upd_item a (\<lambda>n. n\<lparr>ci_value := v, ci_expiresAt := e\<rparr>) c = Some c' \<and>
    lru_rep c' (xs @ a # ys) \<and> payload (lru_heap c') = (payload (lru_heap c))(a \<mapsto> (k, v, e)) \<and>
    c' = c\<lparr>lru_heap := lru_heap c'\<rparr>"
proof -
  obtain n where n: "lru_heap c a = Some n" "ci_key n = k" using a by (auto simp: payload_def)
  let ?h = "(lru_heap c)(a \<mapsto> n\<lparr>ci_value := v, ci_expiresAt := e\<rparr>)"
  have pay: "payload ?h = (payload (lru_heap c))(a \<mapsto> (k, v, e))"
    using n by (auto simp: payload_def)
  have "links ?h = links (lru_heap c)"
    using n by (intro ext links_cong) (auto simp: nxt_def prv_def)
  then have "chain_ok (c\<lparr>lru_heap := ?h\<rparr>) (xs @ a # ys)"
    using rep by (simp add: lru_rep_def chain_ok_def)
  moreover have "(\<exists>d. payload ?h b = Some (k', d)) = (\<exists>d. payload (lru_heap c) b = Some (k', d))" for b k'
    using a unfolding pay by auto
  then have "items_ok (c\<lparr>lru_heap := ?h\<rparr>) (xs @ a # ys)"
    using rep by (simp add: lru_rep_def items_ok_def)
  ultimately show ?thesis
    using rep n pay by (simp add: upd_item_def lru_rep_def)
qed

lemma addNew_rep:
  assumes rep: "lru_rep c as" and new: "gm_get (lru_items c) k = None"
    and c1_def: "c1 = c\<lparr>lru_heap := (lru_heap c)(lru_fresh c \<mapsto>
      empty_cacheItem\<lparr>ci_key := k, ci_value := v, ci_expiresAt := e\<rparr>), lru_fresh := Suc (lru_fresh c)\<rparr>"
  shows "\<exists>h'. addToFront (lru_fresh c) c1 = Some (c1\<lparr>lru_heap := h'\<rparr>) \<and>
    lru_rep (c1\<lparr>lru_heap := h', lru_items := gm_put k (lru_fresh c) (lru_items c)\<rparr>) (lru_fresh c # as) \<and>
    payload h' = (payload (lru_heap c))(lru_fresh c \<mapsto> (k, v, e))"
proof -
  let ?a = "lru_fresh c" and ?ch = "lru_head c # as @ [lru_tail c]"
  have fresh: "x \<noteq> ?a" if "x \<in> set ?ch" for x
    using rep that by (auto simp: lru_rep_def chain_ok_def)
  have pay: "payload (lru_heap c1) = (payload (lru_heap c))(?a \<mapsto> (k, v, e))"
    by (rule ext) (simp add: c1_def cell_simps)
  have "links (lru_heap c1) ?ch = links (lru_heap c) ?ch"
  proof (rule links_frame)
    fix x assume "x \<in> set (butlast ?ch)"
    then have "x \<noteq> ?a" by (rule fresh [OF in_set_butlastD])
    then show "nxt (lru_heap c1) x = nxt (lru_heap c) x" by (simp add: c1_def nxt_def)
  next
    fix x assume "x \<in> set (tl ?ch)"
    then have "x \<noteq> ?a" by (rule fresh [OF set_tl_mem])
    then show "prv (lru_heap c1) x = prv (lru_heap c) x" by (simp add: c1_def prv_def)
  qed
  then have "links (lru_heap c1) (lru_head c1 # as @ [lru_tail c])"
    using rep by (simp add: lru_rep_def chain_ok_def c1_def)
  moreover have dist: "distinct (lru_head c1 # ?a # as @ [lru_tail c])"
    using rep fresh by (auto simp: lru_rep_def chain_ok_def c1_def)
  ultimately obtain h' where h': "addToFront ?a c1 = Some (c1\<lparr>lru_heap := h'\<rparr>)"
    "links h' (lru_head c1 # ?a # as @ [lru_tail c])" "payload h' = payload (lru_heap c1)"
    using addToFront_chain [of c1 as "lru_tail c" ?a] pay by auto
  let ?c = "c1\<lparr>lru_heap := h', lru_items := gm_put k ?a (lru_items c)\<rparr>"
  have "chain_ok ?c (?a # as)"
    using rep h' dist by (auto simp: lru_rep_def chain_ok_def c1_def)
  moreover have "(if k' = k then Some ?a else gm_get (lru_items c) k') = Some b \<longleftrightarrow>
      b \<in> set (?a # as) \<and> (\<exists>d. payload h' b = Some (k', d))" for k' b
  proof -
    have "gm_get (lru_items c) k' = Some b \<longleftrightarrow> b \<in> set as \<and> (\<exists>d. payload (lru_heap c) b = Some (k', d))" for k'
      using rep by (simp add: lru_rep_def items_ok_def)
    from this [of k] this [of k'] show ?thesis
      using fresh [of b] new unfolding h'(3) pay by (cases "b = ?a"; cases "k' = k") auto
  qed
  then have "items_ok ?c (?a # as)"
    using rep by (simp add: lru_rep_def items_ok_def)
  ultimately show ?thesis using h' pay rep by (auto simp: lru_rep_def c1_def)
qed

lemma Cache_Put_hit:
  assumes abs: "lru_abs c s" and Some: "gm_get (lru_items c) k = Some a"
  shows "\<exists>c'. Cache_Put now k v ttl c = Some (True, c') \<and> lru_abs c' (spec_Put now k v ttl s)"
proof -
  from abs Some obtain xs ys v0 e0 where rep: "lru_rep c (xs @ a # ys)"
    and pay: "payload (lru_heap c) a = Some (k, v0, e0)"
    and look: "gm_get (ab_entries s) k = Some (v0, e0)"
    and del: "gm_del k (ab_entries s) = entries_of (lru_heap c) (xs @ ys)"
    and s: "ab_capacity s = lru_capacity c" "ab_hits s = lru_hits c"
      "ab_misses s = lru_misses c" "ab_evictions s = lru_evictions c" by (rule abs_item)
  from upd_value_rep [OF rep pay, where v = v and e = "expiry now ttl"] obtain c1 where
    c1: "upd_item a (\<lambda>n. n\<lparr>ci_value := v, ci_expiresAt := expiry now ttl\<rparr>) c = Some c1"
    and rep1: "lru_rep c1 (xs @ a # ys)"
    and pay1: "payload (lru_heap c1) = (payload (lru_heap c))(a \<mapsto> (k, v, expiry now ttl))"
    and c1_def: "c1 = c\<lparr>lru_heap := lru_heap c1\<rparr>" by (elim exE conjE)
  from moveToFront_rep [OF rep1] obtain h' where
    h': "moveToFront a c1 = Some (c1\<lparr>lru_heap := h'\<rparr>)"
      "lru_rep (c1\<lparr>lru_heap := h'\<rparr>) (a # xs @ ys)" "payload h' = payload (lru_heap c1)"
    by (elim exE conjE)
  have "a \<notin> set (xs @ ys)" using rep by (auto simp: lru_rep_def chain_ok_def)
  then have "entries_of h' (xs @ ys) = gm_del k (ab_entries s)"
    unfolding del h'(3) pay1 by (intro entries_of_frame) (auto simp: h'(3) pay1)
  moreover have "payload h' a = Some (k, v, expiry now ttl)" by (simp add: h'(3) pay1)
  moreover have "lru_capacity c1 = lru_capacity c" "lru_hits c1 = lru_hits c"
    "lru_misses c1 = lru_misses c" "lru_evictions c1 = lru_evictions c"
    by (subst c1_def, simp)+
  ultimately have "lru_abs (c1\<lparr>lru_heap := h'\<rparr>) (spec_Put now k v ttl s)"
    using h'(2) by (intro lru_absI [where as = "a # xs @ ys"])
      (simp_all add: spec_Put_def look s)
  then show ?thesis by (simp add: Cache_Put_def Some c1 h'(1))
qed

lemma Cache_Put_miss:
  assumes abs: "lru_abs c s" and new: "gm_get (lru_items c) k = None"
  shows "\<exists>c'. Cache_Put now k v ttl c = Some (True, c') \<and> lru_abs c' (spec_Put now k v ttl s)"
proof -
  from abs obtain as where rep: "lru_rep c as" and s: "ab_capacity s = lru_capacity c"
    "ab_entries s = entries_of (lru_heap c) as" "ab_hits s = lru_hits c"
    "ab_misses s = lru_misses c" "ab_evictions s = lru_evictions c" by (rule lru_absE)
  let ?a = "lru_fresh c" and ?e = "expiry now ttl"
  define c1 where c1_def: "c1 = c\<lparr>lru_heap := (lru_heap c)(?a \<mapsto>
      empty_cacheItem\<lparr>ci_key := k, ci_value := v, ci_expiresAt := ?e\<rparr>), lru_fresh := Suc ?a\<rparr>"
  from addNew_rep [OF rep new c1_def] obtain h' where
    h': "addToFront ?a c1 = Some (c1\<lparr>lru_heap := h'\<rparr>)"
    and rep2: "lru_rep (c1\<lparr>lru_heap := h', lru_items := gm_put k ?a (lru_items c)\<rparr>) (?a # as)"
    and pay: "payload h' = (payload (lru_heap c))(?a \<mapsto> (k, v, ?e))" by (elim exE conjE)
  define c2 where "c2 = c1\<lparr>lru_heap := h', lru_items := gm_put k ?a (lru_items c)\<rparr>"
  have "gm_get (ab_entries s) k = None" by (simp add: abs_lookup [OF abs] new)
  then have look: "gm_get (ab_entries s) k = None" "gm_del k (ab_entries s) = ab_entries s" by simp_all
  have "?a \<notin> set as" using rep by (auto simp: lru_rep_def chain_ok_def)
  then have ent: "entries_of h' (?a # as) = (k, v, ?e) # ab_entries s"
    unfolding s(2) entries_of_simps pay
    by (simp add: pay) (rule entries_of_frame, auto simp: pay)
  have len: "length (lru_items c2) = length ((k, v, ?e) # ab_entries s)"
    using items_length [OF rep2] by (simp add: c2_def s(2))
  have c2: "lru_capacity c2 = ab_capacity s" "lru_hits c2 = ab_hits s" "lru_misses c2 = ab_misses s"
    "lru_evictions c2 = ab_evictions s" "lru_heap c2 = h'"
    by (simp_all add: c2_def c1_def s)
  have put: "Cache_Put now k v ttl c = (if int (length (lru_items c2)) > lru_capacity c2
      then evictLRU c2 else Some c2) \<bind> (\<lambda>c'. Some (True, c'))"
    using h' by (simp add: Cache_Put_def new c2_def c1_def Let_def)
  show ?thesis
  proof (cases "int (length (lru_items c2)) > lru_capacity c2")
    case True
    obtain bs b where bs: "?a # as = bs @ [b]" by (metis append_butlast_last_id list.discI)
    have rep3: "lru_rep c2 (bs @ [b])" using rep2 bs by (simp add: c2_def)
    then obtain kb db where b: "payload (lru_heap c2) b = Some (kb, db)"
      using lru_rep_cell [of c2 "bs @ [b]" b] by auto
    from evictLRU_rep [OF rep3 b] obtain h3 where
      h3: "evictLRU c2 = Some (c2\<lparr>lru_items := gm_del kb (lru_items c2), lru_heap := h3,
        lru_evictions := i64 (lru_evictions c2 + 1)\<rparr>)"
      "lru_rep (c2\<lparr>lru_items := gm_del kb (lru_items c2), lru_heap := h3,
        lru_evictions := i64 (lru_evictions c2 + 1)\<rparr>) bs" "payload h3 = payload (lru_heap c2)"
      by (elim exE conjE)
    have "butlast (entries_of h' (?a # as)) = entries_of h3 bs"
      unfolding bs entries_of_cong [OF h3(3)] c2(5) by simp
    then have "butlast ((k, v, ?e) # ab_entries s) = entries_of h3 bs" unfolding ent .
    then have "lru_abs (c2\<lparr>lru_items := gm_del kb (lru_items c2), lru_heap := h3,
        lru_evictions := i64 (lru_evictions c2 + 1)\<rparr>) (spec_Put now k v ttl s)"
      using True h3(2) len by (intro lru_absI [where as = bs]) (simp_all add: spec_Put_def look c2)
    then show ?thesis using True h3(1) by (simp add: put)
  next
    case False
    have "lru_abs c2 (spec_Put now k v ttl s)"
      using False rep2 len ent by (intro lru_absI [where as = "?a # as"])
        (simp_all add: spec_Put_def look c2 flip: c2_def)
    then show ?thesis using False by (simp add: put)
  qed
qed

lemma Cache_Put_abs:
  assumes "lru_abs c s"
  shows "\<exists>c'. Cache_Put now k v ttl c = Some (True, c') \<and> lru_abs c' (spec_Put now k v ttl s)"
  using Cache_Put_hit [OF assms] Cache_Put_miss [OF assms] by (cases "gm_get (lru_items c) k") blast+

lemma Cache_Clear_abs:
  assumes abs: "lru_abs c s"
  shows "\<exists>c'. Cache_Clear c = Some c' \<and> lru_abs c' (spec_Clear s)"
proof -
  from abs obtain as where rep: "lru_rep c as" and s: "ab_capacity s = lru_capacity c" by (rule lru_absE)
  then have "links (lru_heap c) (lru_head c # as @ [lru_tail c])" and ne: "lru_head c \<noteq> lru_tail c"
    by (auto simp: lru_rep_def chain_ok_def)
  moreover obtain us p where "lru_head c # as = us @ [p]" by (metis append_butlast_last_id list.discI)
  then have "lru_head c # as @ [lru_tail c] = us @ [p, lru_tail c]" by (metis append.assoc append_Cons append_Nil)
  ultimately have "prv (lru_heap c) (lru_tail c) = Some p" by (simp add: links_append)
  then obtain nt where nt: "lru_heap c (lru_tail c) = Some nt" by (auto dest: prv_cell)
  obtain b bs where "as @ [lru_tail c] = b # bs" by (cases as) auto
  then have "nxt (lru_heap c) (lru_head c) = Some b"
    using rep by (simp add: lru_rep_def chain_ok_def)
  then obtain nh where nh: "lru_heap c (lru_head c) = Some nh" by (auto dest: nxt_cell)
  let ?h = "(lru_heap c)(lru_head c \<mapsto> nh\<lparr>ci_next := Some (lru_tail c)\<rparr>,
    lru_tail c \<mapsto> nt\<lparr>ci_prev := Some (lru_head c)\<rparr>)"
  have "Cache_Clear c = Some (c\<lparr>lru_items := [], lru_heap := ?h, lru_hits := 0, lru_misses := 0, lru_evictions := 0\<rparr>)"
    using nt nh ne by (simp add: Cache_Clear_def upd_item_def)
  moreover have "lru_rep (c\<lparr>lru_items := [], lru_heap := ?h, lru_hits := 0, lru_misses := 0, lru_evictions := 0\<rparr>) []"
    using rep ne by (auto simp: lru_rep_def chain_ok_def items_ok_def cell_simps)
  ultimately show ?thesis
    using s by (auto simp: spec_Clear_def intro!: lru_absI [where as = "[]"])
qed

text \<open>The keys \<^const>\<open>expiredKeys\<close> collects, read off the abstract entries.\<close>

definition dead :: "gtime \<Rightarrow> entries \<Rightarrow> string \<Rightarrow> bool" where
  "dead now es k = (case gm_get es k of None \<Rightarrow> False | Some (v, e) \<Rightarrow> isExpired now e)"

lemma expiredKeys_abs:
  assumes "\<And>k a. (k, a) \<in> set ms \<Longrightarrow> \<exists>v e. payload (lru_heap c) a = Some (k, v, e) \<and> gm_get es k = Some (v, e)"
  shows "expiredKeys now c ms = Some (filter (dead now es) (map fst ms))"
  using assms
proof (induction ms)
  case Nil
  then show ?case by simp
next
  case (Cons m ms)
  obtain k a where m: "m = (k, a)" by (cases m)
  with Cons.prems [of k a] obtain v e where
    a: "payload (lru_heap c) a = Some (k, v, e)" "gm_get es k = Some (v, e)" by auto
  moreover have "expiredKeys now c ms = Some (filter (dead now es) (map fst ms))"
    using Cons.IH Cons.prems by auto
  moreover have "dead now es k = isExpired now e" using a by (simp add: dead_def)
  ultimately show ?case by (auto simp: m payload_def)
qed

lemma removeKeys_Delete:
  "removeKeys (k # ks) c = Cache_Delete k c \<bind> (\<lambda>(_, c'). removeKeys ks c')"
  by (auto simp: Cache_Delete_def split: option.splits)

lemma removeKeys_abs:
  assumes "lru_abs c s"
  shows "\<exists>c'. removeKeys ks c = Some c' \<and>
    lru_abs c' (s\<lparr>ab_entries := filter (\<lambda>p. fst p \<notin> set ks) (ab_entries s)\<rparr>)"
  using assms
proof (induction ks arbitrary: c s)
  case Nil
  then show ?case by simp
next
  case (Cons k ks)
  from Cache_Delete_abs [OF Cons.prems, of k] obtain c1 where
    c1: "Cache_Delete k c = Some (fst (spec_Delete k s), c1)" "lru_abs c1 (snd (spec_Delete k s))"
    by (elim exE conjE)
  have "filter (\<lambda>p. fst p \<notin> set ks) (gm_del k (ab_entries s)) =
      filter (\<lambda>p. fst p \<notin> set (k # ks)) (ab_entries s)"
    by (auto simp: AList.delete_eq intro!: filter_cong)
  then show ?case
    using Cons.IH [OF c1(2)] unfolding removeKeys_Delete c1(1) by (simp add: spec_Delete_def)
qed

lemma dead_filter:
  assumes "gm_ok es"
  shows "filter (\<lambda>p. \<not> dead now es (fst p)) es = filter (\<lambda>(k, v, e). \<not> isExpired now e) es"
    "filter (\<lambda>p. dead now es (fst p)) es = filter (\<lambda>(k, v, e). isExpired now e) es"
proof -
  have dead: "dead now es k = isExpired now e" if "(k, v, e) \<in> set es" for k v e
    using that gm_get_mem [OF assms, of k "(v, e)"] by (simp add: dead_def)
  then show "filter (\<lambda>p. \<not> dead now es (fst p)) es = filter (\<lambda>(k, v, e). \<not> isExpired now e) es"
    and "filter (\<lambda>p. dead now es (fst p)) es = filter (\<lambda>(k, v, e). isExpired now e) es"
    by (auto intro!: filter_cong)
qed

lemma CleanupExpired_abs:
  assumes abs: "lru_abs c s"
  shows "\<exists>c'. CleanupExpired now c = Some (fst (spec_Cleanup now s), c') \<and>
    lru_abs c' (snd (spec_Cleanup now s))"
proof -
  from abs obtain as where rep: "lru_rep c as" and es: "ab_entries s = entries_of (lru_heap c) as"
    by (rule lru_absE)
  let ?es = "ab_entries s" and ?ks = "filter (dead now (ab_entries s)) (map fst (lru_items c))"
  have ok: "gm_ok ?es" using entries_distinct [OF rep] es by simp
  have ok2: "gm_ok (lru_items c)" using rep by (simp add: lru_rep_def items_ok_def)
  have "\<exists>v e. payload (lru_heap c) a = Some (k, v, e) \<and> gm_get ?es k = Some (v, e)"
    if "(k, a) \<in> set (lru_items c)" for k a
  proof -
    have "gm_get (lru_items c) k = Some a" using that ok2 by (simp add: gm_get_mem)
    from abs this show ?thesis by (rule abs_item) blast
  qed
  then have keys: "expiredKeys now c (lru_items c) = Some ?ks" by (rule expiredKeys_abs)
  have "k \<in> fst ` set (lru_items c)" if "dead now ?es k" for k
    using that abs_lookup [OF abs, of k] map_of_eq_None_iff [of "lru_items c" k]
    by (auto simp: dead_def split: option.splits)
  then have set_ks: "set ?ks = {k. dead now ?es k}" by auto
  then have fil: "filter (\<lambda>p. fst p \<notin> set ?ks) ?es = filter (\<lambda>(k, v, e). \<not> isExpired now e) ?es"
    by (simp add: dead_filter [OF ok, symmetric])
  have "distinct (map fst (filter (\<lambda>p. dead now ?es (fst p)) ?es))"
    using ok by (simp add: gm_ok_def distinct_map_filter)
  moreover have "k \<in> fst ` set ?es" if "dead now ?es k" for k
    using that map_of_eq_None_iff [of ?es k] by (auto simp: dead_def split: option.splits)
  then have "set (map fst (filter (\<lambda>p. dead now ?es (fst p)) ?es)) = {k. dead now ?es k}" by auto
  moreover have "distinct ?ks" using ok2 by (simp add: gm_ok_def)
  ultimately have "length ?ks = length (map fst (filter (\<lambda>p. dead now ?es (fst p)) ?es))"
    using set_ks distinct_card by metis
  then have len: "length ?ks = length (filter (\<lambda>(k, v, e). isExpired now e) ?es)"
    by (simp add: dead_filter [OF ok])
  show ?thesis
    using removeKeys_abs [OF abs, of ?ks] len unfolding fil
    by (auto simp: CleanupExpired_def keys spec_Cleanup_def)
qed

section \<open>Runs of the cache\<close>

datatype cache_op = OpGet gtime string | OpPut gtime string slice duration | OpDelete string
  | OpClear | OpCleanup gtime | OpStats

datatype cache_res = RVal "slice option" | RBool bool | RUnit | RCount nat | RStats CacheStats

fun exec_op :: "cache_op \<Rightarrow> LRUCache \<Rightarrow> (cache_res \<times> LRUCache) option" where
  "exec_op (OpGet now k) c = map_option (map_prod RVal id) (Cache_Get now k c)"
| "exec_op (OpPut now k v ttl) c = map_option (map_prod RBool id) (Cache_Put now k v ttl c)"
| "exec_op (OpDelete k) c = map_option (map_prod RBool id) (Cache_Delete k c)"
| "exec_op OpClear c = map_option (Pair RUnit) (Cache_Clear c)"
| "exec_op (OpCleanup now) c = map_option (map_prod RCount id) (CleanupExpired now c)"
| "exec_op OpStats c = Some (RStats (Cache_Stats c), c)"

definition spec_Stats :: "absCache \<Rightarrow> CacheStats" where
  "spec_Stats s =
     \<lparr>st_Hits = ab_hits s, st_Misses = ab_misses s, st_Evictions = ab_evictions s,
      st_Size = int (length (ab_entries s)), st_Capacity = ab_capacity s,
      st_HitRatio = (let n = i64 (ab_hits s + ab_misses s) in
        if 0 < n then of_int (ab_hits s) / of_int n else 0)\<rparr>"

fun spec_op :: "cache_op \<Rightarrow> absCache \<Rightarrow> cache_res \<times> absCache" where
  "spec_op (OpGet now k) s = map_prod RVal id (spec_Get now k s)"
| "spec_op (OpPut now k v ttl) s = (RBool True, spec_Put now k v ttl s)"
| "spec_op (OpDelete k) s = map_prod RBool id (spec_Delete k s)"
| "spec_op OpClear s = (RUnit, spec_Clear s)"
| "spec_op (OpCleanup now) s = map_prod RCount id (spec_Cleanup now s)"
| "spec_op OpStats s = (RStats (spec_Stats s), s)"

fun exec_ops :: "cache_op list \<Rightarrow> LRUCache \<Rightarrow> (cache_res list \<times> LRUCache) option" where
  "exec_ops [] c = Some ([], c)"
| "exec_ops (p # ps) c = do {
     (r, c) \<leftarrow> exec_op p c;
     (rs, c) \<leftarrow> exec_ops ps c;
     Some (r # rs, c)
   }"

fun spec_ops :: "cache_op list \<Rightarrow> absCache \<Rightarrow> cache_res list \<times> absCache" where
  "spec_ops [] s = ([], s)"
| "spec_ops (p # ps) s = (let (r, s) = spec_op p s; (rs, s) = spec_ops ps s in (r # rs, s))"

definition spec_New :: "int \<Rightarrow> absCache" where
  "spec_New n = \<lparr>ab_capacity = (if n \<le> 0 then 1000 else n), ab_entries = [],
     ab_hits = 0, ab_misses = 0, ab_evictions = 0\<rparr>"

lemma Cache_Stats_abs: "lru_abs c s \<Longrightarrow> Cache_Stats c = spec_Stats s"
  by (auto simp: lru_abs_def Cache_Stats_def spec_Stats_def items_length Let_def)

lemma exec_op_abs:
  assumes "lru_abs c s"
  shows "\<exists>c'. exec_op p c = Some (fst (spec_op p s), c') \<and> lru_abs c' (snd (spec_op p s))"
proof (cases p)
  case (OpGet now k)
  with Cache_Get_abs [OF assms, of now k] show ?thesis by auto
next
  case (OpPut now k v ttl)
  with Cache_Put_abs [OF assms, of now k v ttl] show ?thesis by auto
next
  case (OpDelete k)
  with Cache_Delete_abs [OF assms, of k] show ?thesis by auto
next
  case OpClear
  with Cache_Clear_abs [OF assms] show ?thesis by auto
next
  case (OpCleanup now)
  with CleanupExpired_abs [OF assms, of now] show ?thesis by auto
next
  case OpStats
  with Cache_Stats_abs [OF assms] assms show ?thesis by auto
qed

lemma exec_ops_abs:
  assumes "lru_abs c s"
  shows "\<exists>c'. exec_ops ps c = Some (fst (spec_ops ps s), c') \<and> lru_abs c' (snd (spec_ops ps s))"
  using assms
proof (induction ps arbitrary: c s)
  case (Cons p ps)
  from exec_op_abs [OF Cons.prems, of p] obtain c1 where
    "exec_op p c = Some (fst (spec_op p s), c1)" "lru_abs c1 (snd (spec_op p s))" by (elim exE conjE)
  with Cons.IH [of c1 "snd (spec_op p s)"] show ?case by (auto simp: split_beta Let_def)
qed simp

section \<open>The cache contract\<close>

definition lru_inv :: "LRUCache \<Rightarrow> bool" where
  "lru_inv c = (\<exists>s. lru_abs c s)"

definition lru_view :: "LRUCache \<Rightarrow> string \<Rightarrow> slice option" where
  "lru_view c k = (case gm_get (lru_items c) k of None \<Rightarrow> None
     | Some a \<Rightarrow> map_option (\<lambda>p. fst (snd p)) (payload (lru_heap c) a))"

lemma lru_view_abs: "lru_abs c s \<Longrightarrow> lru_view c = (\<lambda>k. map_option fst (gm_get (ab_entries s) k))"
  by (auto simp: lru_view_def abs_lookup fun_eq_iff option.map_comp comp_def split: option.splits)

lemma abs_entries_ok: "lru_abs c s \<Longrightarrow> gm_ok (ab_entries s)"
  by (auto simp: lru_abs_def entries_distinct)

lemma map_of_butlast_le: "gm_ok m \<Longrightarrow> gm_get (butlast m) k = Some v \<Longrightarrow> gm_get m k = Some v"
proof (induction m)
  case (Cons p m)
  then show ?case by (cases p) (auto split: if_splits)
qed simp

lemma spec_Get_view:
  "gm_get (ab_entries (snd (spec_Get now k s))) \<subseteq>\<^sub>m gm_get (ab_entries s)"
  "fst (spec_Get now k s) = Some v \<Longrightarrow> \<exists>e. gm_get (ab_entries s) k = Some (v, e)"
  by (auto simp: spec_Get_def map_le_def dom_def split: option.splits if_splits)

lemma spec_Put_view:
  assumes "gm_ok (ab_entries s)"
  shows "gm_get (ab_entries (spec_Put now k v ttl s)) \<subseteq>\<^sub>m (gm_get (ab_entries s))(k \<mapsto> (v, expiry now ttl))"
proof -
  let ?es = "(k, v, expiry now ttl) # gm_del k (ab_entries s)"
  have "gm_ok ?es" using assms by simp
  from map_of_butlast_le [OF this] have "gm_get (butlast ?es) \<subseteq>\<^sub>m gm_get ?es" by (rule map_leI)
  moreover have "gm_get ?es = (gm_get (ab_entries s))(k \<mapsto> (v, expiry now ttl))"
    by (auto simp: fun_eq_iff)
  ultimately show ?thesis
    unfolding spec_Put_def Let_def by (simp del: butlast.simps map_of.simps gm_del_absent)
qed

lemma spec_Cleanup_view:
  "gm_ok (ab_entries s) \<Longrightarrow> gm_get (ab_entries (snd (spec_Cleanup now s))) \<subseteq>\<^sub>m gm_get (ab_entries s)"
  unfolding map_le_def
proof
  fix k assume ok: "gm_ok (ab_entries s)" and "k \<in> dom (gm_get (ab_entries (snd (spec_Cleanup now s))))"
  then obtain d where d: "gm_get (ab_entries (snd (spec_Cleanup now s))) k = Some d" by blast
  then have "(k, d) \<in> set (ab_entries s)" by (auto simp: spec_Cleanup_def dest: map_of_SomeD)
  with d ok show "gm_get (ab_entries (snd (spec_Cleanup now s))) k = gm_get (ab_entries s) k"
    by (simp add: gm_get_mem [symmetric])
qed

lemma map_le_map_option: "m \<subseteq>\<^sub>m m' \<Longrightarrow> (\<lambda>k. map_option f (m k)) \<subseteq>\<^sub>m (\<lambda>k. map_option f (m' k))"
  by (force simp: map_le_def dom_def)

interpretation lru: cache_laws lru_inv lru_view Cache_Get Cache_Put Cache_Delete Cache_Clear CleanupExpired
proof
  fix c now k assume "lru_inv c"
  then obtain s where s: "lru_abs c s" by (auto simp: lru_inv_def)
  from Cache_Get_abs [OF s, of now k] obtain c' where
    c': "Cache_Get now k c = Some (fst (spec_Get now k s), c')" "lru_abs c' (snd (spec_Get now k s))"
    by (elim exE conjE)
  then have "lru_view c' \<subseteq>\<^sub>m lru_view c"
    by (simp add: lru_view_abs [OF s] lru_view_abs [OF c'(2)] map_le_map_option spec_Get_view)
  moreover have "\<forall>v. fst (spec_Get now k s) = Some v \<longrightarrow> lru_view c k = Some v"
    using spec_Get_view(2) by (fastforce simp: lru_view_abs [OF s])
  ultimately show "\<exists>r c'. Cache_Get now k c = Some (r, c') \<and> lru_inv c' \<and> lru_view c' \<subseteq>\<^sub>m lru_view c \<and>
      (\<forall>v. r = Some v \<longrightarrow> lru_view c k = Some v)"
    using c' by (auto simp: lru_inv_def)
next
  fix c now k v ttl assume "lru_inv c"
  then obtain s where s: "lru_abs c s" by (auto simp: lru_inv_def)
  from Cache_Put_abs [OF s, of now k v ttl] obtain c' where
    c': "Cache_Put now k v ttl c = Some (True, c')" "lru_abs c' (spec_Put now k v ttl s)"
    by (elim exE conjE)
  have "lru_view c' \<subseteq>\<^sub>m (lru_view c)(k \<mapsto> v)"
    using map_le_map_option [OF spec_Put_view [OF abs_entries_ok [OF s]], of fst now k v ttl]
    by (simp add: lru_view_abs [OF s] lru_view_abs [OF c'(2)] fun_upd_def if_distrib cong: if_cong)
  then show "\<exists>b c'. Cache_Put now k v ttl c = Some (b, c') \<and> lru_inv c' \<and> lru_view c' \<subseteq>\<^sub>m (lru_view c)(k \<mapsto> v)"
    using c' by (auto simp: lru_inv_def)
next
  fix c k assume "lru_inv c"
  then obtain s where s: "lru_abs c s" by (auto simp: lru_inv_def)
  from Cache_Delete_abs [OF s, of k] obtain c' where
    c': "Cache_Delete k c = Some (fst (spec_Delete k s), c')" "lru_abs c' (snd (spec_Delete k s))"
    by (elim exE conjE)
  have "lru_view c' \<subseteq>\<^sub>m (lru_view c)(k := None)"
    by (auto simp: lru_view_abs [OF s] lru_view_abs [OF c'(2)] spec_Delete_def map_le_def)
  then show "\<exists>b c'. Cache_Delete k c = Some (b, c') \<and> lru_inv c' \<and> lru_view c' \<subseteq>\<^sub>m (lru_view c)(k := None)"
    using c' by (auto simp: lru_inv_def)
next
  fix c assume "lru_inv c"
  then obtain s where s: "lru_abs c s" by (auto simp: lru_inv_def)
  from Cache_Clear_abs [OF s] obtain c' where
    c': "Cache_Clear c = Some c'" "lru_abs c' (spec_Clear s)" by (elim exE conjE)
  have "lru_view c' = Map.empty" by (simp add: lru_view_abs [OF c'(2)] spec_Clear_def)
  then show "\<exists>c'. Cache_Clear c = Some c' \<and> lru_inv c' \<and> lru_view c' = Map.empty"
    using c' by (auto simp: lru_inv_def)
next
  fix c now assume "lru_inv c"
  then obtain s where s: "lru_abs c s" by (auto simp: lru_inv_def)
  from CleanupExpired_abs [OF s, of now] obtain c' where
    c': "CleanupExpired now c = Some (fst (spec_Cleanup now s), c')" "lru_abs c' (snd (spec_Cleanup now s))"
    by (elim exE conjE)
  then have "lru_view c' \<subseteq>\<^sub>m lru_view c"
    by (simp add: lru_view_abs [OF s] lru_view_abs [OF c'(2)] map_le_map_option
      spec_Cleanup_view [OF abs_entries_ok [OF s]])
  then show "\<exists>n c'. CleanupExpired now c = Some (n, c') \<and> lru_inv c' \<and> lru_view c' \<subseteq>\<^sub>m lru_view c"
    using c' by (auto simp: lru_inv_def)
qed

lemma lru_inv_New: "lru_inv (NewLRUCache n)" "lru_view (NewLRUCache n) = Map.empty"
  using NewLRUCache_abs [of n] by (auto simp: lru_inv_def lru_view_abs)

section \<open>Capacity, freshness and eviction\<close>

definition abs_ok :: "absCache \<Rightarrow> bool" where
  "abs_ok s = (gm_ok (ab_entries s) \<and> 0 < ab_capacity s \<and> int (length (ab_entries s)) \<le> ab_capacity s)"

lemma gm_ok_butlast: "gm_ok m \<Longrightarrow> gm_ok (butlast m)"
  by (simp add: gm_ok_def map_butlast distinct_butlast)

lemma gm_ok_filter: "gm_ok m \<Longrightarrow> gm_ok (filter P m)"
  by (simp add: gm_ok_def distinct_map_filter)

lemma gm_present: "gm_get m k = Some v \<Longrightarrow> 0 < length m"
  by (cases m) auto

lemma spec_op_ok:
  assumes "abs_ok s"
  shows "abs_ok (snd (spec_op p s))" "ab_capacity (snd (spec_op p s)) = ab_capacity s"
proof -
  show "ab_capacity (snd (spec_op p s)) = ab_capacity s"
    by (cases p) (auto simp: spec_Get_def spec_Put_def spec_Delete_def spec_Clear_def spec_Cleanup_def
      Let_def split: option.splits)
  show "abs_ok (snd (spec_op p s))"
  proof (cases p)
    case (OpPut now k v ttl)
    have "gm_ok ((k, v, expiry now ttl) # gm_del k (ab_entries s))"
      using assms by (simp add: abs_ok_def)
    then show ?thesis
      using assms OpPut gm_present [of "ab_entries s" k] gm_ok_butlast
      by (fastforce simp: abs_ok_def spec_Put_def Let_def length_gm_del simp del: butlast.simps)
  next
    case (OpGet now k)
    then show ?thesis using assms gm_present [of "ab_entries s" k]
      by (auto simp: abs_ok_def spec_Get_def length_gm_del split: option.splits)
  next
    case (OpCleanup now)
    have "int (length (filter (\<lambda>(k, v, e). \<not> isExpired now e) (ab_entries s))) \<le> ab_capacity s"
      using assms length_filter_le [of "\<lambda>(k, v, e). \<not> isExpired now e" "ab_entries s"]
      unfolding abs_ok_def by linarith
    with assms OpCleanup show ?thesis by (simp add: abs_ok_def spec_Cleanup_def gm_ok_filter)
  qed (use assms in \<open>auto simp: abs_ok_def spec_Delete_def spec_Clear_def length_gm_del split: if_splits\<close>)
qed

lemma spec_ops_ok:
  "abs_ok s \<Longrightarrow> abs_ok (snd (spec_ops ps s)) \<and> ab_capacity (snd (spec_ops ps s)) = ab_capacity s"
  by (induction ps arbitrary: s) (auto simp: split_beta Let_def spec_op_ok)

lemma reachable_abs:
  assumes "exec_ops ps (NewLRUCache n) = Some (rs, c)"
  shows "\<exists>s. lru_abs c s \<and> abs_ok s \<and> ab_capacity s = (if n \<le> 0 then 1000 else n)"
proof -
  have "lru_abs (NewLRUCache n) (spec_New n)" using NewLRUCache_abs [of n] by (simp add: spec_New_def)
  from exec_ops_abs [OF this, of ps] have "lru_abs c (snd (spec_ops ps (spec_New n)))" using assms by simp
  moreover have "abs_ok (spec_New n)" by (simp add: abs_ok_def spec_New_def)
  from spec_ops_ok [OF this, of ps] have "abs_ok (snd (spec_ops ps (spec_New n)))"
    "ab_capacity (snd (spec_ops ps (spec_New n))) = (if n \<le> 0 then 1000 else n)"
    by (simp_all add: spec_New_def)
  ultimately show ?thesis by blast
qed

lemma spec_put_get:
  assumes "abs_ok s"
  shows "fst (spec_Get now' k (spec_Put now k v ttl s)) =
    (if 0 < ttl \<and> now + ttl < now' then None else Some v)"
proof -
  let ?rest = "gm_del k (ab_entries s)"
  have "gm_get (ab_entries (spec_Put now k v ttl s)) k = Some (v, expiry now ttl)"
  proof (cases ?rest)
    case Nil
    with assms show ?thesis by (simp add: spec_Put_def abs_ok_def)
  qed (simp add: spec_Put_def Let_def)
  then show ?thesis by (simp add: spec_Get_def isExpired_def expiry_def)
qed

text \<open>
  C8. Every run of the LRU cache is a run of the list of entries, most recently used first:
  whatever operations a caller issues on a new cache (lookups, updates, deletions, clearing,
  expiry sweeps, statistics, at any clock readings), none of the pointer manipulations panics
  and each call returns what the list operation returns.
\<close>

theorem cache_runs_refine:
  "\<exists>c. exec_ops ps (NewLRUCache n) = Some (fst (spec_ops ps (spec_New n)), c) \<and>
     lru_abs c (snd (spec_ops ps (spec_New n)))"
  by (rule exec_ops_abs) (use NewLRUCache_abs [of n] in \<open>simp add: spec_New_def\<close>)

text \<open>
  The cache never holds more entries than its capacity, which is the configured one, or
  1000 when that is not positive.
\<close>

theorem cache_capacity:
  assumes "exec_ops ps (NewLRUCache n) = Some (rs, c)"
  shows "int (length (lru_items c)) \<le> lru_capacity c \<and> lru_capacity c = (if n \<le> 0 then 1000 else n)"
  using reachable_abs [OF assms] by (auto simp: lru_abs_def abs_ok_def items_length)

theorem cache_capacity_witness:
  "\<exists>rs c. exec_ops [OpPut 0 ''a'' (Some ''1'') 0, OpPut 1 ''b'' (Some ''2'') 0] (NewLRUCache 1) = Some (rs, c) \<and>
     int (length (lru_items c)) \<le> 1"
  using cache_capacity [of "[OpPut 0 ''a'' (Some ''1'') 0, OpPut 1 ''b'' (Some ''2'') 0]" 1]
  by (simp add: NewLRUCache_def Cache_Put_def addToFront_def upd_item_def evictLRU_def removeItem_def
    removeFromList_def expiry_def empty_cacheItem_def Let_def)

text \<open>
  In every reachable cache a value just put is what the next lookup of its key returns,
  until its time to live has passed; from then on the lookup misses. In particular storing
  an entry never evicts that entry, whatever the capacity.
\<close>

theorem cache_put_get:
  assumes "exec_ops ps (NewLRUCache n) = Some (rs, c)"
    and "Cache_Put now k v ttl c = Some (b, c1)"
  shows "\<exists>c2. Cache_Get now' k c1 = Some (if 0 < ttl \<and> now + ttl < now' then None else Some v, c2)"
proof -
  obtain s where s: "lru_abs c s" "abs_ok s" using reachable_abs [OF assms(1)] by blast
  have "lru_abs c1 (spec_Put now k v ttl s)"
    using Cache_Put_abs [OF s(1), of now k v ttl] assms(2) by auto
  from Cache_Get_abs [OF this, of now' k] show ?thesis by (auto simp: spec_put_get [OF s(2)])
qed

theorem cache_put_get_witness:
  "\<exists>c1 c2 c3. Cache_Put 5 ''a'' (Some ''1'') 10 (NewLRUCache 1) = Some (True, c1) \<and>
     Cache_Get 15 ''a'' c1 = Some (Some (Some ''1''), c2) \<and> Cache_Get 16 ''a'' c1 = Some (None, c3)"
proof -
  have nil: "exec_ops [] (NewLRUCache 1) = Some ([], NewLRUCache 1)" by simp
  obtain c1 where c1: "Cache_Put 5 ''a'' (Some ''1'') 10 (NewLRUCache 1) = Some (True, c1)"
    using Cache_Put_abs [OF NewLRUCache_abs] by blast
  show ?thesis
    using c1 cache_put_get [OF nil c1, of 15] cache_put_get [OF nil c1, of 16] by auto
qed

end
