(* ===== verification/Cached_Storage.thy ===== *)
theory Cached_Storage
  imports Engine LRU_Refinement
begin

text \<open>
  The caching wrapper of \<^verbatim>\<open>src/internal/storage/cached_storage.go\<close> and the factory of
  \<^verbatim>\<open>factory.go\<close>. The wrapper holds a storage engine (any value of the interface) and, when
  caching is enabled, an LRU cache. Its invariant is coherence: every cached entry is what
  the storage holds for the key. Every operation keeps it, so the wrapper meets the same
  contract as the engine it wraps.
\<close>

record CachedStorageConfig =
  csc_CacheEnabled :: bool
  csc_CacheSize :: int
  csc_DefaultTTL :: duration
  csc_CleanupInterval :: duration

record 's CachedStorageEngine =
  cse_storage :: 's
  cse_cache :: "LRUCache option"
  cse_config :: CachedStorageConfig
  cse_stopped :: bool

section \<open>The operations\<close>

definition NewCachedStorageEngine :: "'s \<Rightarrow> CachedStorageConfig \<Rightarrow> 's CachedStorageEngine" where
  "NewCachedStorageEngine storageEngine config =
     \<lparr>cse_storage = storageEngine,
      cse_cache = (if csc_CacheEnabled config then Some (NewLRUCache (csc_CacheSize config)) else None),
      cse_config = config,
      cse_stopped = False\<rparr>"

abbreviation cse_ttl :: "'s CachedStorageEngine \<Rightarrow> duration" where
  "cse_ttl c \<equiv> csc_DefaultTTL (cse_config c)"

text \<open>A call on the cache field, skipped when the field is nil.\<close>

definition on_cache :: "(LRUCache \<Rightarrow> LRUCache option) \<Rightarrow> 's CachedStorageEngine \<Rightarrow> 's CachedStorageEngine option" where
  "on_cache f c = (case cse_cache c of
     None \<Rightarrow> Some c
   | Some lru \<Rightarrow> map_option (\<lambda>lru. c\<lparr>cse_cache := Some lru\<rparr>) (f lru))"

definition CSE_Put :: "'s StorageEngine \<Rightarrow> clock \<Rightarrow> bytes \<Rightarrow> slice \<Rightarrow> 's CachedStorageEngine \<Rightarrow>
    (serror option \<times> 's CachedStorageEngine) option" where
  "CSE_Put SE clk key val c = do {
     (err, st) \<leftarrow> se_Put SE clk key val (cse_storage c);
     let c = c\<lparr>cse_storage := st\<rparr>;
     if err \<noteq> None then Some (err, c)
     else do {
       c \<leftarrow> on_cache (\<lambda>lru. map_option snd (Cache_Put (clk 0) key val (cse_ttl c) lru)) c;
       Some (None, c)
     }
   }"

text \<open>The lookup both \<^verbatim>\<open>Get\<close> and \<^verbatim>\<open>Exists\<close> start with; with no cache it misses.\<close>

definition cse_lookup :: "gtime \<Rightarrow> bytes \<Rightarrow> 's CachedStorageEngine \<Rightarrow> (slice option \<times> 's CachedStorageEngine) option" where
  "cse_lookup now key c = (case cse_cache c of
     None \<Rightarrow> Some (None, c)
   | Some lru \<Rightarrow> map_option (map_prod id (\<lambda>lru. c\<lparr>cse_cache := Some lru\<rparr>)) (Cache_Get now key lru))"

definition CSE_Get :: "'s StorageEngine \<Rightarrow> clock \<Rightarrow> bytes \<Rightarrow> 's CachedStorageEngine \<Rightarrow>
    ((slice \<times> serror option) \<times> 's CachedStorageEngine) option" where
  "CSE_Get SE clk key c = do {
     (hit, c) \<leftarrow> cse_lookup (clk 0) key c;
     case hit of
       Some val \<Rightarrow> Some ((val, None), c)
     | None \<Rightarrow> do {
         ((val, err), st) \<leftarrow> se_Get SE clk key (cse_storage c);
         let c = c\<lparr>cse_storage := st\<rparr>;
         if err \<noteq> None then Some ((None, err), c)
         else do {
           c \<leftarrow> (if val \<noteq> None
                 then on_cache (\<lambda>lru. map_option snd (Cache_Put (clk 1) key val (cse_ttl c) lru)) c
                 else Some c);
           Some ((val, None), c)
         }
       }
   }"

definition CSE_Delete :: "'s StorageEngine \<Rightarrow> clock \<Rightarrow> bytes \<Rightarrow> 's CachedStorageEngine \<Rightarrow>
    (serror option \<times> 's CachedStorageEngine) option" where
  "CSE_Delete SE clk key c = do {
     (err, st) \<leftarrow> se_Delete SE clk key (cse_storage c);
     let c = c\<lparr>cse_storage := st\<rparr>;
     if err \<noteq> None then Some (err, c)
     else do {
       c \<leftarrow> on_cache (\<lambda>lru. map_option snd (Cache_Delete key lru)) c;
       Some (None, c)
     }
   }"

definition CSE_Exists :: "'s StorageEngine \<Rightarrow> clock \<Rightarrow> bytes \<Rightarrow> 's CachedStorageEngine \<Rightarrow>
    ((bool \<times> serror option) \<times> 's CachedStorageEngine) option" where
  "CSE_Exists SE clk key c = do {
     (hit, c) \<leftarrow> cse_lookup (clk 0) key c;
     case hit of
       Some val \<Rightarrow> Some ((True, None), c)
     | None \<Rightarrow> do {
         (r, st) \<leftarrow> se_Exists SE clk key (cse_storage c);
         Some (r, c\<lparr>cse_storage := st\<rparr>)
       }
   }"

definition CSE_List :: "'s StorageEngine \<Rightarrow> bytes \<Rightarrow> 's CachedStorageEngine \<Rightarrow>
    ((bytes, slice) gomap \<times> serror option) \<times> 's CachedStorageEngine" where
  "CSE_List SE p c = (let (r, st) = se_List SE p (cse_storage c) in (r, c\<lparr>cse_storage := st\<rparr>))"

text \<open>\<^verbatim>\<open>Close\<close> closes the channel \<^verbatim>\<open>stopCleanup\<close>: closing it twice panics.\<close>

definition CSE_Close :: "'s StorageEngine \<Rightarrow> 's CachedStorageEngine \<Rightarrow>
    (serror option \<times> 's CachedStorageEngine) option" where
  "CSE_Close SE c = do {
     c \<leftarrow> (if cse_stopped c then None else Some (c\<lparr>cse_stopped := True\<rparr>));
     c \<leftarrow> on_cache Cache_Close c;
     (err, st) \<leftarrow> se_Close SE (cse_storage c);
     Some (err, c\<lparr>cse_storage := st\<rparr>)
   }"

definition CSE_Backup :: "'s StorageEngine \<Rightarrow> string option \<Rightarrow> string \<Rightarrow> files \<Rightarrow> 's CachedStorageEngine \<Rightarrow>
    (serror option \<times> files) \<times> 's CachedStorageEngine" where
  "CSE_Backup SE createErr path fs c =
     (let (r, st) = se_Backup SE createErr path fs (cse_storage c) in (r, c\<lparr>cse_storage := st\<rparr>))"

definition CSE_Restore :: "'s StorageEngine \<Rightarrow> string \<Rightarrow> files \<Rightarrow> 's CachedStorageEngine \<Rightarrow>
    (serror option \<times> 's CachedStorageEngine) option" where
  "CSE_Restore SE path fs c = do {
     (err, st) \<leftarrow> se_Restore SE path fs (cse_storage c);
     let c = c\<lparr>cse_storage := st\<rparr>;
     if err \<noteq> None then Some (err, c)
     else do {
       c \<leftarrow> on_cache Cache_Clear c;
       Some (None, c)
     }
   }"

definition CSE_Stats :: "'s StorageEngine \<Rightarrow> 's CachedStorageEngine \<Rightarrow> (string, stat) gomap" where
  "CSE_Stats SE c =
     gm_put ''cache''
       (case cse_cache c of
          None \<Rightarrow> StMap [(''enabled'', StBool False)]
        | Some lru \<Rightarrow> (let st = Cache_Stats lru in
            StMap [(''enabled'', StBool True), (''hits'', StInt (st_Hits st)),
                   (''misses'', StInt (st_Misses st)), (''evictions'', StInt (st_Evictions st)),
                   (''size'', StInt (st_Size st)), (''capacity'', StInt (st_Capacity st)),
                   (''hit_ratio'', StRat (st_HitRatio st))]))
       (se_Stats SE (cse_storage c))"

text \<open>One tick of \<^verbatim>\<open>cleanupLoop\<close>.\<close>

definition CSE_cleanupTick :: "gtime \<Rightarrow> 's CachedStorageEngine \<Rightarrow> 's CachedStorageEngine option" where
  "CSE_cleanupTick now c = on_cache (\<lambda>lru. map_option snd (CleanupExpired now lru)) c"

definition CSE_GetCacheStats :: "'s CachedStorageEngine \<Rightarrow> CacheStats option" where
  "CSE_GetCacheStats c = map_option Cache_Stats (cse_cache c)"

definition CSE_ClearCache :: "'s CachedStorageEngine \<Rightarrow> 's CachedStorageEngine option" where
  "CSE_ClearCache c = on_cache Cache_Clear c"

fun warmLoop :: "'s StorageEngine \<Rightarrow> clock \<Rightarrow> nat \<Rightarrow> bytes list \<Rightarrow> 's CachedStorageEngine \<Rightarrow>
    's CachedStorageEngine option" where
  "warmLoop SE clk i [] c = Some c"
| "warmLoop SE clk i (key # keys) c = do {
     ((val, err), st) \<leftarrow> se_Get SE clk key (cse_storage c);
     let c = c\<lparr>cse_storage := st\<rparr>;
     c \<leftarrow> (if err \<noteq> None then Some c
           else on_cache (\<lambda>lru. map_option snd (Cache_Put (clk i) key val (cse_ttl c) lru)) c);
     warmLoop SE clk (Suc i) keys c
   }"

definition CSE_WarmCache :: "'s StorageEngine \<Rightarrow> clock \<Rightarrow> bytes list \<Rightarrow> 's CachedStorageEngine \<Rightarrow>
    's CachedStorageEngine option" where
  "CSE_WarmCache SE clk keys c =
     (case cse_cache c of None \<Rightarrow> Some c | Some lru \<Rightarrow> warmLoop SE clk 0 keys c)"

fun cachePutLoop :: "clock \<Rightarrow> nat \<Rightarrow> duration \<Rightarrow> KeyValue list \<Rightarrow> LRUCache \<Rightarrow> LRUCache option" where
  "cachePutLoop clk i ttl [] lru = Some lru"
| "cachePutLoop clk i ttl (item # items) lru = do {
     (ok, lru) \<leftarrow> Cache_Put (clk i) (kv_Key item) (kv_Value item) ttl lru;
     cachePutLoop clk (Suc i) ttl items lru
   }"

definition CSE_BatchPut :: "'s StorageEngine \<Rightarrow> clock \<Rightarrow> KeyValue list \<Rightarrow> 's CachedStorageEngine \<Rightarrow>
    (serror option \<times> 's CachedStorageEngine) option" where
  "CSE_BatchPut SE clk items c = do {
     (err, st) \<leftarrow> se_BatchPut SE clk items (cse_storage c);
     let c = c\<lparr>cse_storage := st\<rparr>;
     if err \<noteq> None then Some (err, c)
     else do {
       c \<leftarrow> on_cache (cachePutLoop clk 0 (cse_ttl c) items) c;
       Some (None, c)
     }
   }"

text \<open>
  \<^verbatim>\<open>BatchGet\<close>: the first loop looks every key up in the cache, filling \<^verbatim>\<open>results\<close> and collecting
  the indices and keys that missed; the second writes the storage's answers to those indices
  and caches the ones found. An index outside \<^verbatim>\<open>cacheMisses\<close> or \<^verbatim>\<open>results\<close> would panic.
\<close>

fun batchLookup :: "clock \<Rightarrow> nat \<Rightarrow> bytes list \<Rightarrow> LRUCache \<Rightarrow> KeyValue list \<Rightarrow> nat list \<Rightarrow> bytes list \<Rightarrow>
    (LRUCache \<times> KeyValue list \<times> nat list \<times> bytes list) option" where
  "batchLookup clk i [] lru results misses missKeys = Some (lru, results, misses, missKeys)"
| "batchLookup clk i (key # keys) lru results misses missKeys = do {
     (hit, lru) \<leftarrow> Cache_Get (clk i) key lru;
     case hit of
       Some val \<Rightarrow> batchLookup clk (Suc i) keys lru
         (results[i := \<lparr>kv_Key = key, kv_Value = val, kv_Found = True\<rparr>]) misses missKeys
     | None \<Rightarrow> batchLookup clk (Suc i) keys lru results (misses @ [i]) (missKeys @ [key])
   }"

fun batchFill :: "clock \<Rightarrow> nat \<Rightarrow> duration \<Rightarrow> KeyValue list \<Rightarrow> nat list \<Rightarrow> KeyValue list \<Rightarrow> LRUCache option \<Rightarrow>
    (KeyValue list \<times> LRUCache option) option" where
  "batchFill clk j ttl [] misses results cache = Some (results, cache)"
| "batchFill clk j ttl (storageResult # rs) misses results cache =
     (if j < length misses \<and> misses ! j < length results then do {
        let results = results[misses ! j := storageResult];
        cache \<leftarrow> (case cache of
            Some lru \<Rightarrow>
              if kv_Found storageResult
              then map_option (Some \<circ> snd)
                (Cache_Put (clk j) (kv_Key storageResult) (kv_Value storageResult) ttl lru)
              else Some (Some lru)
          | None \<Rightarrow> Some None);
        batchFill clk (Suc j) ttl rs misses results cache
      } else None)"

definition CSE_BatchGet :: "'s StorageEngine \<Rightarrow> clock \<Rightarrow> bytes list \<Rightarrow> 's CachedStorageEngine \<Rightarrow>
    ((KeyValue list \<times> serror option) \<times> 's CachedStorageEngine) option" where
  "CSE_BatchGet SE clk keys c = do {
     let results = replicate (length keys) zero_KeyValue;
     (c, results, misses, missKeys) \<leftarrow> (case cse_cache c of
         Some lru \<Rightarrow> map_option (map_prod (\<lambda>lru. c\<lparr>cse_cache := Some lru\<rparr>) id)
           (batchLookup clk 0 keys lru results [] [])
       | None \<Rightarrow> Some (c, results, [0..<length keys], keys));
     if missKeys \<noteq> [] then do {
       ((storageResults, err), st) \<leftarrow> se_BatchGet SE clk missKeys (cse_storage c);
       let c = c\<lparr>cse_storage := st\<rparr>;
       if err \<noteq> None then Some (([], err), c)
       else do {
         (results, cache) \<leftarrow> batchFill (\<lambda>j. clk (j + length keys)) 0 (cse_ttl c) storageResults misses results (cse_cache c);
         Some ((results, None), c\<lparr>cse_cache := cache\<rparr>)
       }
     } else Some ((results, None), c)
   }"

fun cacheDeleteLoop :: "bytes list \<Rightarrow> LRUCache \<Rightarrow> LRUCache option" where
  "cacheDeleteLoop [] lru = Some lru"
| "cacheDeleteLoop (key # keys) lru = do {
     (found, lru) \<leftarrow> Cache_Delete key lru;
     cacheDeleteLoop keys lru
   }"

definition CSE_BatchDelete :: "'s StorageEngine \<Rightarrow> clock \<Rightarrow> bytes list \<Rightarrow> 's CachedStorageEngine \<Rightarrow>
    (serror option \<times> 's CachedStorageEngine) option" where
  "CSE_BatchDelete SE clk keys c = do {
     (err, st) \<leftarrow> se_BatchDelete SE clk keys (cse_storage c);
     let c = c\<lparr>cse_storage := st\<rparr>;
     if err \<noteq> None then Some (err, c)
     else do {
       c \<leftarrow> on_cache (cacheDeleteLoop keys) c;
       Some (None, c)
     }
   }"

definition cached_SE :: "'s StorageEngine \<Rightarrow> 's CachedStorageEngine StorageEngine" where
  "cached_SE SE =
     \<lparr>se_Put = CSE_Put SE, se_Get = CSE_Get SE, se_Delete = CSE_Delete SE, se_Exists = CSE_Exists SE,
      se_List = CSE_List SE, se_Close = CSE_Close SE, se_Backup = CSE_Backup SE,
      se_Restore = CSE_Restore SE, se_Stats = CSE_Stats SE, se_BatchPut = CSE_BatchPut SE,
      se_BatchGet = CSE_BatchGet SE, se_BatchDelete = CSE_BatchDelete SE\<rparr>"

text \<open>\<^verbatim>\<open>NewStorageEngine\<close> returns a plain engine or a cached one.\<close>

datatype 'db engine_value = PlainEngine 'db | CachedEngine "'db CachedStorageEngine"

definition NewStorageEngine :: "(BadgerOptions \<Rightarrow> berror + 'db) \<Rightarrow> Config \<Rightarrow>
    (string \<times> berror) + 'db engine_value" where
  "NewStorageEngine badgerOpen config =
     (case NewEngine badgerOpen config of
        Inl err \<Rightarrow> Inl err
      | Inr (baseEngine, gc) \<Rightarrow>
          if \<not> cfg_CacheEnabled config then Inr (PlainEngine baseEngine)
          else Inr (CachedEngine (NewCachedStorageEngine baseEngine
            \<lparr>csc_CacheEnabled = cfg_CacheEnabled config, csc_CacheSize = cfg_CacheSize config,
             csc_DefaultTTL = cfg_CacheTTL config, csc_CleanupInterval = cfg_CacheCleanupInterval config\<rparr>)))"

section \<open>Coherence\<close>

definition cache_ok :: "'s CachedStorageEngine \<Rightarrow> (bytes \<rightharpoonup> bytes) \<Rightarrow> bool" where
  "cache_ok c m = (\<forall>lru. cse_cache c = Some lru \<longrightarrow> lru_inv lru \<and> coherent lru_view lru m)"

definition cse_inv :: "('s \<Rightarrow> bool) \<Rightarrow> ('s \<Rightarrow> bytes \<rightharpoonup> bytes) \<Rightarrow> 's CachedStorageEngine \<Rightarrow> bool" where
  "cse_inv sinv contents c = (sinv (cse_storage c) \<and> cache_ok c (contents (cse_storage c)))"

lemma cache_ok_storage [simp]: "cache_ok (c\<lparr>cse_storage := st\<rparr>) m = cache_ok c m"
  by (simp add: cache_ok_def)

lemma on_cache_ok:
  assumes "cache_ok c m"
    and "\<And>lru. lru_inv lru \<Longrightarrow> coherent lru_view lru m \<Longrightarrow>
      \<exists>lru'. f lru = Some lru' \<and> lru_inv lru' \<and> coherent lru_view lru' m'"
  shows "\<exists>c'. on_cache f c = Some c' \<and> cache_ok c' m' \<and> cse_storage c' = cse_storage c"
proof (cases "cse_cache c")
  case None
  then show ?thesis by (simp add: on_cache_def cache_ok_def)
next
  case (Some lru)
  with assms obtain lru' where "f lru = Some lru'" "lru_inv lru'" "coherent lru_view lru' m'"
    unfolding cache_ok_def by blast
  with Some show ?thesis by (simp add: on_cache_def cache_ok_def)
qed

lemma cse_lookup_ok:
  assumes "cache_ok c m"
  shows "\<exists>hit c'. cse_lookup now k c = Some (hit, c') \<and> cache_ok c' m \<and> cse_storage c' = cse_storage c \<and>
    (\<forall>v. hit = Some v \<longrightarrow> m k = Some (content v))"
proof (cases "cse_cache c")
  case None
  with assms show ?thesis by (simp add: cse_lookup_def)
next
  case (Some lru)
  with assms have lru: "lru_inv lru" "coherent lru_view lru m" by (simp_all add: cache_ok_def)
  obtain r lru' where "Cache_Get now k lru = Some (r, lru')" "lru_inv lru'" "coherent lru_view lru' m"
    "\<And>v. r = Some v \<Longrightarrow> m k = Some (content v)"
    using lru.coherent_get [OF lru] by blast
  with Some show ?thesis by (simp add: cse_lookup_def cache_ok_def)
qed

lemma cache_put_step:
  "lru_inv lru \<Longrightarrow> coherent lru_view lru m \<Longrightarrow>
     \<exists>lru'. map_option snd (Cache_Put now k v ttl lru) = Some lru' \<and> lru_inv lru' \<and>
       coherent lru_view lru' (m(k \<mapsto> content v))"
  by (rule lru.coherent_put [of lru m _ k v now ttl]) auto

lemma cache_fill_step:
  "m k = Some (content v) \<Longrightarrow> lru_inv lru \<Longrightarrow> coherent lru_view lru m \<Longrightarrow>
     \<exists>lru'. map_option snd (Cache_Put now k v ttl lru) = Some lru' \<and> lru_inv lru' \<and>
       coherent lru_view lru' m"
  by (rule lru.coherent_fill [of lru m k v now ttl]) auto

lemma cache_delete_step:
  "lru_inv lru \<Longrightarrow> coherent lru_view lru m \<Longrightarrow>
     \<exists>lru'. map_option snd (Cache_Delete k lru) = Some lru' \<and> lru_inv lru' \<and>
       coherent lru_view lru' (m(k := None))"
  by (rule lru.coherent_delete [of lru m _ k]) auto

lemma cachePutLoop_ok:
  "lru_inv lru \<Longrightarrow> coherent lru_view lru m \<Longrightarrow>
     \<exists>lru'. cachePutLoop clk i ttl items lru = Some lru' \<and> lru_inv lru' \<and>
       coherent lru_view lru' (putAll items m)"
proof (induction items arbitrary: i lru m)
  case (Cons item items)
  obtain b lru1 where "Cache_Put (clk i) (kv_Key item) (kv_Value item) ttl lru = Some (b, lru1)"
    "lru_inv lru1" "coherent lru_view lru1 (m(kv_Key item \<mapsto> content (kv_Value item)))"
    by (rule lru.coherent_put [OF Cons.prems refl])
  with Cons.IH show ?case by (simp add: putAll_def)
qed (simp add: putAll_def)

lemma cacheDeleteLoop_ok:
  "lru_inv lru \<Longrightarrow> coherent lru_view lru m \<Longrightarrow>
     \<exists>lru'. cacheDeleteLoop keys lru = Some lru' \<and> lru_inv lru' \<and>
       coherent lru_view lru' (deleteAll keys m)"
proof (induction keys arbitrary: lru m)
  case (Cons key keys)
  obtain b lru1 where "Cache_Delete key lru = Some (b, lru1)"
    "lru_inv lru1" "coherent lru_view lru1 (m(key := None))"
    by (rule lru.coherent_delete [OF Cons.prems refl])
  with Cons.IH show ?case by (simp add: deleteAll_def)
qed (simp add: deleteAll_def)

text \<open>
  What the first loop of \<^verbatim>\<open>BatchGet\<close> leaves: every index holds a right answer or is among
  the misses.
\<close>

definition partial_answers :: "(bytes \<rightharpoonup> bytes) \<Rightarrow> bytes list \<Rightarrow> KeyValue list \<Rightarrow> nat list \<Rightarrow> nat \<Rightarrow> bool" where
  "partial_answers m keys results misses n =
     (length results = length keys \<and> (\<forall>i \<in> set misses. i < n) \<and>
      (\<forall>i < n. i \<notin> set misses \<longrightarrow> answers m (keys ! i) (results ! i)))"

lemma batchLookup_ok:
  assumes "lru_inv lru" "coherent lru_view lru m" "partial_answers m (pre @ keys) results misses (length pre)"
    "missKeys = map ((!) (pre @ keys)) misses"
  shows "\<exists>lru' results' misses'. batchLookup clk (length pre) keys lru results misses missKeys =
      Some (lru', results', misses', map ((!) (pre @ keys)) misses') \<and> lru_inv lru' \<and> coherent lru_view lru' m \<and>
      partial_answers m (pre @ keys) results' misses' (length (pre @ keys))"
  using assms
proof (induction keys arbitrary: pre lru results misses missKeys)
  case Nil
  then show ?case by simp
next
  case (Cons key keys)
  obtain hit lru1 where get: "Cache_Get (clk (length pre)) key lru = Some (hit, lru1)"
    "lru_inv lru1" "coherent lru_view lru1 m" "\<And>v. hit = Some v \<Longrightarrow> m key = Some (content v)"
    using lru.coherent_get [OF Cons.prems(1,2)] by blast
  show ?case
  proof (cases hit)
    case None
    have "partial_answers m ((pre @ [key]) @ keys) results (misses @ [length pre]) (length (pre @ [key]))"
      using Cons.prems(3) by (auto simp: partial_answers_def less_Suc_eq)
    from Cons.IH [OF get(2,3) this refl] get(1) None Cons.prems(4) show ?thesis
      by (simp add: nth_append)
  next
    case (Some v)
    have "partial_answers m ((pre @ [key]) @ keys)
      (results[length pre := \<lparr>kv_Key = key, kv_Value = v, kv_Found = True\<rparr>]) misses (length (pre @ [key]))"
      using Cons.prems(3) get(4) [OF Some]
      by (auto simp: partial_answers_def less_Suc_eq nth_list_update answers_def nth_append)
    from Cons.IH [OF get(2,3) this] get(1) Some Cons.prems(4) show ?thesis by simp
  qed
qed

lemma batchFill_cache:
  assumes "\<And>lru. cache = Some lru \<Longrightarrow> lru_inv lru \<and> coherent lru_view lru m" and "answers m k kv"
  shows "\<exists>cache'. (case cache of
      Some lru \<Rightarrow> if kv_Found kv then map_option (Some \<circ> snd) (Cache_Put now (kv_Key kv) (kv_Value kv) ttl lru)
                  else Some (Some lru)
    | None \<Rightarrow> Some None) = Some cache' \<and> (\<forall>lru. cache' = Some lru \<longrightarrow> lru_inv lru \<and> coherent lru_view lru m)"
proof (cases "\<exists>lru. cache = Some lru \<and> kv_Found kv")
  case True
  then obtain lru where lru: "cache = Some lru" "kv_Found kv" "lru_inv lru" "coherent lru_view lru m"
    using assms(1) by blast
  have "m (kv_Key kv) = Some (content (kv_Value kv))"
    using assms(2) lru(2) by (simp add: answers_def)
  from lru.coherent_fill [OF lru(3,4) this] obtain b lru' where
    "Cache_Put now (kv_Key kv) (kv_Value kv) ttl lru = Some (b, lru')" "lru_inv lru'" "coherent lru_view lru' m"
    by blast
  with lru show ?thesis by simp
next
  case False
  with assms(1) show ?thesis by (cases cache) auto
qed

lemma batchFill_ok:
  assumes "\<And>lru. cache = Some lru \<Longrightarrow> lru_inv lru \<and> coherent lru_view lru m"
    and "list_all2 (answers m) (map ((!) keys) (drop j misses)) rs" and "j + length rs = length misses"
    and "partial_answers m keys results (drop j misses) (length keys)"
  shows "\<exists>results' cache'. batchFill clk j ttl rs misses results cache = Some (results', cache') \<and>
    list_all2 (answers m) keys results' \<and>
    (\<forall>lru. cache' = Some lru \<longrightarrow> lru_inv lru \<and> coherent lru_view lru m)"
  using assms
proof (induction rs arbitrary: j results cache)
  case Nil
  then show ?case by (auto simp: partial_answers_def list_all2_conv_all_nth)
next
  case (Cons kv rs)
  then have j: "j < length misses" by simp
  then have drop: "drop j misses = misses ! j # drop (Suc j) misses" by (simp add: Cons_nth_drop_Suc)
  have kv: "answers m (keys ! (misses ! j)) kv"
    and rest: "list_all2 (answers m) (map ((!) keys) (drop (Suc j) misses)) rs"
    using Cons.prems(2) by (simp_all add: drop)
  have in_range: "misses ! j < length results"
    using Cons.prems(4) by (simp add: partial_answers_def drop)
  from batchFill_cache [OF Cons.prems(1) kv] obtain cache1 where
    c1: "(case cache of
        Some lru \<Rightarrow> if kv_Found kv then map_option (Some \<circ> snd) (Cache_Put (clk j) (kv_Key kv) (kv_Value kv) ttl lru)
                    else Some (Some lru)
      | None \<Rightarrow> Some None) = Some cache1"
    "\<forall>lru. cache1 = Some lru \<longrightarrow> lru_inv lru \<and> coherent lru_view lru m" by blast
  have "partial_answers m keys (results[misses ! j := kv]) (drop (Suc j) misses) (length keys)"
    using Cons.prems(4) kv in_range by (auto simp: partial_answers_def drop nth_list_update)
  from Cons.IH [OF _ rest _ this, of cache1] c1 j in_range Cons.prems(3) show ?case by simp
qed

section \<open>The wrapper meets the contract of the engine it wraps\<close>

locale cached_engine = storage_engine SE sinv contents
  for SE :: "'s StorageEngine" and sinv :: "'s \<Rightarrow> bool" and contents :: "'s \<Rightarrow> bytes \<rightharpoonup> bytes"
begin

lemma CSE_Put_ok:
  assumes c: "cse_inv sinv contents c"
  shows "\<exists>e c'. CSE_Put SE clk k v c = Some (e, c') \<and> cse_inv sinv contents c' \<and>
    contents (cse_storage c') = (if e = None then (contents (cse_storage c))(k \<mapsto> content v) else contents (cse_storage c))"
proof -
  obtain e st where put: "se_Put SE clk k v (cse_storage c) = Some (e, st)" "sinv st"
    "contents st = (if e = None then (contents (cse_storage c))(k \<mapsto> content v) else contents (cse_storage c))"
    using put_law c unfolding cse_inv_def by blast
  show ?thesis
  proof (cases e)
    case (Some err)
    with put c show ?thesis by (simp add: CSE_Put_def cse_inv_def)
  next
    case None
    have "cache_ok (c\<lparr>cse_storage := st\<rparr>) (contents (cse_storage c))" using c by (simp add: cse_inv_def)
    from on_cache_ok [OF this cache_put_step] obtain c' where
      "on_cache (\<lambda>lru. map_option snd (Cache_Put (clk 0) k v (cse_ttl c) lru)) (c\<lparr>cse_storage := st\<rparr>) = Some c'"
      "cache_ok c' ((contents (cse_storage c))(k \<mapsto> content v))" "cse_storage c' = st" by force
    with put None show ?thesis by (simp add: CSE_Put_def cse_inv_def)
  qed
qed

lemma CSE_Get_ok:
  assumes c: "cse_inv sinv contents c"
  shows "\<exists>v e c'. CSE_Get SE clk k c = Some ((v, e), c') \<and> cse_inv sinv contents c' \<and>
    contents (cse_storage c') = contents (cse_storage c) \<and>
    (e = None \<longrightarrow> contents (cse_storage c) k = Some (content v)) \<and>
    (e = Some ErrKeyNotFound \<longrightarrow> contents (cse_storage c) k = None)"
proof -
  let ?m = "contents (cse_storage c)"
  obtain hit c1 where c1: "cse_lookup (clk 0) k c = Some (hit, c1)" "cache_ok c1 ?m"
    "cse_storage c1 = cse_storage c" "\<And>v. hit = Some v \<Longrightarrow> ?m k = Some (content v)"
    using cse_lookup_ok [of c ?m "clk 0" k] c unfolding cse_inv_def by blast
  obtain v e st where get: "se_Get SE clk k (cse_storage c) = Some ((v, e), st)" "sinv st" "contents st = ?m"
    "e = None \<Longrightarrow> ?m k = Some (content v)" "e = Some ErrKeyNotFound \<Longrightarrow> ?m k = None"
    using get_law c unfolding cse_inv_def by blast
  show ?thesis
  proof (cases hit)
    case (Some v')
    with c c1 show ?thesis by (simp add: CSE_Get_def cse_inv_def)
  next
    case hit: None
    show ?thesis
    proof (cases "e \<noteq> None \<or> v = None")
      case True
      with c c1 get hit show ?thesis by (cases e) (simp_all add: CSE_Get_def cse_inv_def Let_def)
    next
      case False
      then have m: "?m k = Some (content v)" using get(4) by simp
      have "cache_ok (c1\<lparr>cse_storage := st\<rparr>) ?m" using c1 by simp
      from on_cache_ok [OF this cache_fill_step [where m = ?m, OF m]] obtain c2 where
        "on_cache (\<lambda>lru. map_option snd (Cache_Put (clk 1) k v (cse_ttl c1) lru)) (c1\<lparr>cse_storage := st\<rparr>) = Some c2"
        "cache_ok c2 ?m" "cse_storage c2 = st" by force
      with False c1 get hit m show ?thesis by (simp add: CSE_Get_def cse_inv_def Let_def)
    qed
  qed
qed

lemma CSE_Delete_ok:
  assumes c: "cse_inv sinv contents c"
  shows "\<exists>e c'. CSE_Delete SE clk k c = Some (e, c') \<and> cse_inv sinv contents c' \<and>
    contents (cse_storage c') = (if e = None then (contents (cse_storage c))(k := None) else contents (cse_storage c))"
proof -
  obtain e st where del: "se_Delete SE clk k (cse_storage c) = Some (e, st)" "sinv st"
    "contents st = (if e = None then (contents (cse_storage c))(k := None) else contents (cse_storage c))"
    using delete_law c unfolding cse_inv_def by blast
  show ?thesis
  proof (cases e)
    case (Some err)
    with del c show ?thesis by (simp add: CSE_Delete_def cse_inv_def)
  next
    case None
    have "cache_ok (c\<lparr>cse_storage := st\<rparr>) (contents (cse_storage c))" using c by (simp add: cse_inv_def)
    from on_cache_ok [OF this cache_delete_step] obtain c' where
      "on_cache (\<lambda>lru. map_option snd (Cache_Delete k lru)) (c\<lparr>cse_storage := st\<rparr>) = Some c'"
      "cache_ok c' ((contents (cse_storage c))(k := None))" "cse_storage c' = st" by force
    with del None show ?thesis by (simp add: CSE_Delete_def cse_inv_def)
  qed
qed

lemma CSE_Exists_ok:
  assumes c: "cse_inv sinv contents c"
  shows "\<exists>b e c'. CSE_Exists SE clk k c = Some ((b, e), c') \<and> cse_inv sinv contents c' \<and>
    contents (cse_storage c') = contents (cse_storage c) \<and>
    (e = None \<longrightarrow> b = (contents (cse_storage c) k \<noteq> None))"
proof -
  let ?m = "contents (cse_storage c)"
  obtain hit c1 where c1: "cse_lookup (clk 0) k c = Some (hit, c1)" "cache_ok c1 ?m"
    "cse_storage c1 = cse_storage c" "\<And>v. hit = Some v \<Longrightarrow> ?m k = Some (content v)"
    using cse_lookup_ok [of c ?m "clk 0" k] c unfolding cse_inv_def by blast
  obtain b e st where "se_Exists SE clk k (cse_storage c) = Some ((b, e), st)" "sinv st" "contents st = ?m"
    "e = None \<longrightarrow> b = (?m k \<noteq> None)"
    using exists_law c unfolding cse_inv_def by blast
  with c c1 show ?thesis by (cases hit) (auto simp: CSE_Exists_def cse_inv_def)
qed

lemma CSE_BatchPut_ok:
  assumes c: "cse_inv sinv contents c"
  shows "\<exists>e c'. CSE_BatchPut SE clk items c = Some (e, c') \<and> cse_inv sinv contents c' \<and>
    contents (cse_storage c') = (if e = None then putAll items (contents (cse_storage c)) else contents (cse_storage c))"
proof -
  obtain e st where put: "se_BatchPut SE clk items (cse_storage c) = Some (e, st)" "sinv st"
    "contents st = (if e = None then putAll items (contents (cse_storage c)) else contents (cse_storage c))"
    using batch_put_law c unfolding cse_inv_def by blast
  show ?thesis
  proof (cases e)
    case (Some err)
    with put c show ?thesis by (simp add: CSE_BatchPut_def cse_inv_def)
  next
    case None
    have "cache_ok (c\<lparr>cse_storage := st\<rparr>) (contents (cse_storage c))" using c by (simp add: cse_inv_def)
    from on_cache_ok [OF this cachePutLoop_ok] obtain c' where
      "on_cache (cachePutLoop clk 0 (cse_ttl c) items) (c\<lparr>cse_storage := st\<rparr>) = Some c'"
      "cache_ok c' (putAll items (contents (cse_storage c)))" "cse_storage c' = st" by force
    with put None show ?thesis by (simp add: CSE_BatchPut_def cse_inv_def)
  qed
qed

lemma CSE_BatchDelete_ok:
  assumes c: "cse_inv sinv contents c"
  shows "\<exists>e c'. CSE_BatchDelete SE clk keys c = Some (e, c') \<and> cse_inv sinv contents c' \<and>
    contents (cse_storage c') = (if e = None then deleteAll keys (contents (cse_storage c)) else contents (cse_storage c))"
proof -
  obtain e st where del: "se_BatchDelete SE clk keys (cse_storage c) = Some (e, st)" "sinv st"
    "contents st = (if e = None then deleteAll keys (contents (cse_storage c)) else contents (cse_storage c))"
    using batch_delete_law c unfolding cse_inv_def by blast
  show ?thesis
  proof (cases e)
    case (Some err)
    with del c show ?thesis by (simp add: CSE_BatchDelete_def cse_inv_def)
  next
    case None
    have "cache_ok (c\<lparr>cse_storage := st\<rparr>) (contents (cse_storage c))" using c by (simp add: cse_inv_def)
    from on_cache_ok [OF this cacheDeleteLoop_ok] obtain c' where
      "on_cache (cacheDeleteLoop keys) (c\<lparr>cse_storage := st\<rparr>) = Some c'"
      "cache_ok c' (deleteAll keys (contents (cse_storage c)))" "cse_storage c' = st" by force
    with del None show ?thesis by (simp add: CSE_BatchDelete_def cse_inv_def)
  qed
qed

text \<open>The first loop of \<^verbatim>\<open>BatchGet\<close>, with the cache present or not.\<close>

lemma batch_lookup_ok:
  assumes c: "cse_inv sinv contents c"
  shows "\<exists>c' results misses. (case cse_cache c of
      Some lru \<Rightarrow> map_option (map_prod (\<lambda>lru. c\<lparr>cse_cache := Some lru\<rparr>) id)
        (batchLookup clk 0 keys lru (replicate (length keys) zero_KeyValue) [] [])
    | None \<Rightarrow> Some (c, replicate (length keys) zero_KeyValue, [0..<length keys], keys)) =
      Some (c', results, misses, map ((!) keys) misses) \<and>
    cse_storage c' = cse_storage c \<and> cse_config c' = cse_config c \<and> cache_ok c' (contents (cse_storage c)) \<and>
    partial_answers (contents (cse_storage c)) keys results misses (length keys)"
proof (cases "cse_cache c")
  case None
  then show ?thesis using c by (simp add: partial_answers_def cse_inv_def map_nth)
next
  case (Some lru)
  then have "lru_inv lru" "coherent lru_view lru (contents (cse_storage c))"
    using c by (simp_all add: cse_inv_def cache_ok_def)
  from batchLookup_ok [OF this, of "[]" keys "replicate (length keys) zero_KeyValue" "[]" "[]" clk]
  show ?thesis using Some by (auto simp: partial_answers_def cache_ok_def)
qed

lemma CSE_BatchGet_ok:
  assumes c: "cse_inv sinv contents c"
  shows "\<exists>kvs e c'. CSE_BatchGet SE clk keys c = Some ((kvs, e), c') \<and> cse_inv sinv contents c' \<and>
    contents (cse_storage c') = contents (cse_storage c) \<and>
    (e = None \<longrightarrow> list_all2 (answers (contents (cse_storage c))) keys kvs)"
proof -
  let ?m = "contents (cse_storage c)"
  from batch_lookup_ok [OF c, where clk = clk and keys = keys] obtain c1 results misses where
    look: "(case cse_cache c of
        Some lru \<Rightarrow> map_option (map_prod (\<lambda>lru. c\<lparr>cse_cache := Some lru\<rparr>) id)
          (batchLookup clk 0 keys lru (replicate (length keys) zero_KeyValue) [] [])
      | None \<Rightarrow> Some (c, replicate (length keys) zero_KeyValue, [0..<length keys], keys)) =
        Some (c1, results, misses, map ((!) keys) misses)"
    and c1: "cse_storage c1 = cse_storage c" "cse_config c1 = cse_config c" "cache_ok c1 ?m"
    and part: "partial_answers ?m keys results misses (length keys)" by (elim exE conjE)
  show ?thesis
  proof (cases "misses = []")
    case True
    then have "list_all2 (answers ?m) keys results"
      using part by (auto simp: partial_answers_def list_all2_conv_all_nth)
    with True c c1 show ?thesis by (simp add: CSE_BatchGet_def look cse_inv_def)
  next
    case False
    obtain rs e st where get: "se_BatchGet SE clk (map ((!) keys) misses) (cse_storage c) = Some ((rs, e), st)"
      "sinv st" "contents st = ?m" "e = None \<Longrightarrow> list_all2 (answers ?m) (map ((!) keys) misses) rs"
      using batch_get_law c unfolding cse_inv_def by blast
    show ?thesis
    proof (cases e)
      case (Some err)
      with False c1 get show ?thesis by (simp add: CSE_BatchGet_def look cse_inv_def)
    next
      case None
      have "\<exists>results' cache'. batchFill (\<lambda>j. clk (j + length keys)) 0 (cse_ttl c) rs misses results (cse_cache c1) =
            Some (results', cache') \<and> list_all2 (answers ?m) keys results' \<and>
          (\<forall>lru. cache' = Some lru \<longrightarrow> lru_inv lru \<and> coherent lru_view lru ?m)"
        using get(4) [OF None] part c1 list_all2_lengthD [OF get(4) [OF None]]
        by (intro batchFill_ok) (simp_all add: cache_ok_def)
      with None False c1 get show ?thesis by (auto simp: CSE_BatchGet_def look cse_inv_def cache_ok_def)
    qed
  qed
qed

end

sublocale cached_engine \<subseteq> cached: storage_engine "cached_SE SE" "cse_inv sinv contents"
  "\<lambda>c. contents (cse_storage c)"
proof
  fix p and c :: "'s CachedStorageEngine" assume c: "cse_inv sinv contents c"
  then obtain l e st where l: "se_List SE p (cse_storage c) = ((l, e), st)" "sinv st"
    "contents st = contents (cse_storage c)"
    "e = None \<longrightarrow> gm_ok l \<and> (\<forall>k. map_option content (gm_get l k) = (if prefix p k then contents (cse_storage c) k else None))"
    using list_law [of "cse_storage c" p] unfolding cse_inv_def by (elim exE conjE) blast
  then have "se_List (cached_SE SE) p c = ((l, e), c\<lparr>cse_storage := st\<rparr>)"
    "cse_inv sinv contents (c\<lparr>cse_storage := st\<rparr>)"
    using c by (simp_all add: cached_SE_def CSE_List_def cse_inv_def)
  with l show "\<exists>l e c'. se_List (cached_SE SE) p c = ((l, e), c') \<and> cse_inv sinv contents c' \<and>
      contents (cse_storage c') = contents (cse_storage c) \<and>
      (e = None \<longrightarrow> gm_ok l \<and> (\<forall>k. map_option content (gm_get l k) = (if prefix p k then contents (cse_storage c) k else None)))"
    by (intro exI [of _ l] exI [of _ e] exI [of _ "c\<lparr>cse_storage := st\<rparr>"] conjI) simp_all
qed (simp_all add: cached_SE_def CSE_Put_ok CSE_Get_ok CSE_Delete_ok CSE_Exists_ok CSE_BatchPut_ok
  CSE_BatchGet_ok CSE_BatchDelete_ok del: not_None_eq)

interpretation ceng: cached_engine "engine_SE B" "\<lambda>_. badger_ok B dabs tabs ival" dabs for B dabs tabs ival
  by unfold_locales

section \<open>Maintenance operations\<close>

lemma warmLoop_ok:
  assumes ok: "badger_ok B dabs tabs ival"
  shows "cse_inv (\<lambda>_. badger_ok B dabs tabs ival) dabs c \<Longrightarrow>
    \<exists>c'. warmLoop (engine_SE B) clk i keys c = Some c' \<and> cse_inv (\<lambda>_. badger_ok B dabs tabs ival) dabs c' \<and>
      cse_storage c' = cse_storage c"
proof (induction keys arbitrary: i c)
  case (Cons key keys)
  let ?inv = "cse_inv (\<lambda>_. badger_ok B dabs tabs ival) dabs" and ?m = "dabs (cse_storage c)"
  obtain v e where ve: "Engine_Get B key (cse_storage c) = (v, e)" by fastforce
  have "\<exists>c1. (if e \<noteq> None then Some c
        else on_cache (\<lambda>lru. map_option snd (Cache_Put (clk i) key v (cse_ttl c) lru)) c) = Some c1 \<and>
      ?inv c1 \<and> cse_storage c1 = cse_storage c"
  proof (cases e)
    case (Some err)
    with Cons.prems show ?thesis by simp
  next
    case None
    then have m: "?m key = Some (content v)" using Engine_Get_effect [OF ok ve] by simp
    have "cache_ok c ?m" using Cons.prems by (simp add: cse_inv_def)
    from on_cache_ok [OF this cache_fill_step [where m = ?m, OF m]] None ok show ?thesis
      by (force simp: cse_inv_def)
  qed
  then obtain c1 where c1: "(if e \<noteq> None then Some c
        else on_cache (\<lambda>lru. map_option snd (Cache_Put (clk i) key v (cse_ttl c) lru)) c) = Some c1"
    "?inv c1" "cse_storage c1 = cse_storage c" by blast
  have "warmLoop (engine_SE B) clk i (key # keys) c = warmLoop (engine_SE B) clk (Suc i) keys c1"
    using c1(1) by (simp add: engine_SE_def ve)
  with Cons.IH [OF c1(2)] c1(3) show ?case by simp
qed simp

lemma clear_step:
  "lru_inv lru \<Longrightarrow> coherent lru_view lru m \<Longrightarrow>
     \<exists>lru'. Cache_Clear lru = Some lru' \<and> lru_inv lru' \<and> coherent lru_view lru' m'"
  by (rule lru.coherent_clear [of lru m']) auto

lemma cleanup_step:
  "lru_inv lru \<Longrightarrow> coherent lru_view lru m \<Longrightarrow>
     \<exists>lru'. map_option snd (CleanupExpired now lru) = Some lru' \<and> lru_inv lru' \<and> coherent lru_view lru' m"
  by (rule lru.coherent_cleanup [of lru m now]) auto

lemma New_inv:
  "badger_ok B dabs tabs ival \<Longrightarrow>
   cse_inv (\<lambda>_. badger_ok B dabs tabs ival) dabs (NewCachedStorageEngine db config)"
  by (auto simp: cse_inv_def cache_ok_def NewCachedStorageEngine_def lru_inv_New coherent_def)

text \<open>The two halves of a \<^verbatim>\<open>Get\<close> that misses: no lock is held between them.\<close>

definition CSE_Get_read :: "'s StorageEngine \<Rightarrow> clock \<Rightarrow> bytes \<Rightarrow> 's CachedStorageEngine \<Rightarrow>
    (((slice \<times> serror option) + slice) \<times> 's CachedStorageEngine) option" where
  "CSE_Get_read SE clk key c = do {
     (hit, c) \<leftarrow> cse_lookup (clk 0) key c;
     case hit of
       Some val \<Rightarrow> Some (Inl (val, None), c)
     | None \<Rightarrow> do {
         ((val, err), st) \<leftarrow> se_Get SE clk key (cse_storage c);
         Some (if err \<noteq> None then Inl (None, err) else Inr val, c\<lparr>cse_storage := st\<rparr>)
       }
   }"

definition CSE_Get_fill :: "gtime \<Rightarrow> bytes \<Rightarrow> slice \<Rightarrow> 's CachedStorageEngine \<Rightarrow> 's CachedStorageEngine option" where
  "CSE_Get_fill now key val c =
     (if val \<noteq> None then on_cache (\<lambda>lru. map_option snd (Cache_Put now key val (cse_ttl c) lru)) c else Some c)"

lemma CSE_Get_phases:
  "CSE_Get SE clk key c = do {
     (r, c) \<leftarrow> CSE_Get_read SE clk key c;
     case r of Inl res \<Rightarrow> Some (res, c)
     | Inr val \<Rightarrow> map_option (\<lambda>c. ((val, None), c)) (CSE_Get_fill (clk 1) key val c)
   }"
  by (auto simp: CSE_Get_def CSE_Get_read_def CSE_Get_fill_def Let_def split: option.splits bind_splits prod.splits)

text \<open>
  C1. The cached storage engine is a map. On any BadgerDB that keeps its documented laws, with
  caching enabled or not, at any clock readings and cache size, every sequence of calls runs
  without a panic; every call that reports success returns what the map it stands for
  holds (batches and prefix listings included), a call that reports an error changes
  nothing, and the database ends up holding that map. The cache is invisible.
\<close>

theorem cached_engine_is_map:
  assumes "badger_ok B dabs tabs ival"
  shows "\<exists>rs c. exec_kvs (cached_SE (engine_SE B)) ps (NewCachedStorageEngine db config) = Some (rs, c) \<and>
    kv_run_right ps rs (dabs db) \<and> dabs (cse_storage c) = kv_run_next ps rs (dabs db)"
  using ceng.cached.exec_kvs_right [OF New_inv [OF assms]]
  by (fastforce simp: NewCachedStorageEngine_def)

theorem cached_engine_is_map_witness:
  "\<exists>rs c. exec_kvs (cached_SE (engine_SE mem_badger))
      [(\<lambda>_. 0, KPut ''a'' (Some ''1'')), (\<lambda>_. 5, KGet ''a''), (\<lambda>_. 6, KBatchGet [''b'', ''a''])]
      (NewCachedStorageEngine [] \<lparr>csc_CacheEnabled = True, csc_CacheSize = 1, csc_DefaultTTL = 3, csc_CleanupInterval = 0\<rparr>) =
        Some (rs, c) \<and>
     kv_run_right [(\<lambda>_. 0, KPut ''a'' (Some ''1'')), (\<lambda>_. 5, KGet ''a''), (\<lambda>_. 6, KBatchGet [''b'', ''a''])] rs Map.empty"
  using cached_engine_is_map [OF mem_badger_ok, where db = "[]" and
      ps = "[(\<lambda>_. 0, KPut ''a'' (Some ''1'')), (\<lambda>_. 5, KGet ''a''), (\<lambda>_. 6, KBatchGet [''b'', ''a''])]" and
      config = "\<lparr>csc_CacheEnabled = True, csc_CacheSize = 1, csc_DefaultTTL = 3, csc_CleanupInterval = 0\<rparr>"]
  by (simp only: map_of.simps) blast

text \<open>
  Warming the cache, clearing it, and the periodic sweep of expired entries never panic,
  keep every cached entry equal to what the storage holds, and leave the storage alone. After
  a successful restore the cache holds nothing the restored database does not hold.
\<close>

theorem cached_maintenance_coherent:
  assumes ok: "badger_ok B dabs tabs ival" and c: "cse_inv (\<lambda>_. badger_ok B dabs tabs ival) dabs c"
  shows "(\<exists>c'. CSE_WarmCache (engine_SE B) clk keys c = Some c' \<and>
            cse_inv (\<lambda>_. badger_ok B dabs tabs ival) dabs c' \<and> cse_storage c' = cse_storage c) \<and>
    (\<exists>c'. CSE_ClearCache c = Some c' \<and>
            cse_inv (\<lambda>_. badger_ok B dabs tabs ival) dabs c' \<and> cse_storage c' = cse_storage c) \<and>
    (\<exists>c'. CSE_cleanupTick now c = Some c' \<and>
            cse_inv (\<lambda>_. badger_ok B dabs tabs ival) dabs c' \<and> cse_storage c' = cse_storage c) \<and>
    (\<exists>e c'. CSE_Restore (engine_SE B) path fs c = Some (e, c') \<and>
            (e = None \<longrightarrow> cse_inv (\<lambda>_. badger_ok B dabs tabs ival) dabs c'))"
proof (intro conjI)
  have cok: "cache_ok c (dabs (cse_storage c))" using c by (simp add: cse_inv_def)
  show "\<exists>c'. CSE_WarmCache (engine_SE B) clk keys c = Some c' \<and>
      cse_inv (\<lambda>_. badger_ok B dabs tabs ival) dabs c' \<and> cse_storage c' = cse_storage c"
    using warmLoop_ok [OF ok c] c by (auto simp: CSE_WarmCache_def split: option.splits)
  show "\<exists>c'. CSE_ClearCache c = Some c' \<and> cse_inv (\<lambda>_. badger_ok B dabs tabs ival) dabs c' \<and> cse_storage c' = cse_storage c"
    using on_cache_ok [OF cok clear_step] ok by (force simp: CSE_ClearCache_def cse_inv_def)
  show "\<exists>c'. CSE_cleanupTick now c = Some c' \<and> cse_inv (\<lambda>_. badger_ok B dabs tabs ival) dabs c' \<and> cse_storage c' = cse_storage c"
    using on_cache_ok [OF cok cleanup_step] ok by (force simp: CSE_cleanupTick_def cse_inv_def)
  obtain e st where st: "Engine_Restore B path fs (cse_storage c) = (e, st)" by fastforce
  have "cache_ok (c\<lparr>cse_storage := st\<rparr>) (dabs (cse_storage c))" using cok by simp
  from on_cache_ok [where m' = "dabs st", OF this clear_step] obtain c' where
    "on_cache Cache_Clear (c\<lparr>cse_storage := st\<rparr>) = Some c'" "cache_ok c' (dabs st)" "cse_storage c' = st" by force
  then show "\<exists>e c'. CSE_Restore (engine_SE B) path fs c = Some (e, c') \<and>
      (e = None \<longrightarrow> cse_inv (\<lambda>_. badger_ok B dabs tabs ival) dabs c')"
    using st ok by (cases e) (simp_all add: CSE_Restore_def engine_SE_def cse_inv_def)
qed

theorem cached_maintenance_coherent_witness:
  "\<exists>c'. CSE_WarmCache (engine_SE mem_badger) (\<lambda>_. 0) [''a'']
     (NewCachedStorageEngine [(''a'', ''1'')] \<lparr>csc_CacheEnabled = True, csc_CacheSize = 1, csc_DefaultTTL = 3, csc_CleanupInterval = 0\<rparr>)
     = Some c' \<and> cse_inv (\<lambda>_. badger_ok mem_badger gm_get gm_get id) gm_get c'"
  using cached_maintenance_coherent [OF mem_badger_ok New_inv [OF mem_badger_ok]] by blast


text \<open>
  Writes are synced to disk exactly when \<^verbatim>\<open>SyncWrites\<close> is configured and not both the
  write-ahead log is enabled and an fsync threshold is set: a positive \<^verbatim>\<open>FSyncThreshold\<close>
  switches synchronous writes off, whatever \<^verbatim>\<open>SyncWrites\<close> says.
\<close>

theorem engine_sync_writes:
  "bo_SyncWrites (NewEngine_options config) =
     (cfg_SyncWrites config \<and> \<not> (cfg_WALEnabled config \<and> 0 < cfg_FSyncThreshold config))"
  by (rule NewEngine_sync)

end
