(* ===== verification/Json_Text.thy ===== *)
theory Json_Text
  imports Prelude
begin

text \<open>
  The part of Go's \<^verbatim>\<open>encoding/json\<close> the consensus code uses, at the level of strings: decimal
  numbers, UTF-8, and string literals with their escapes, each with its round trip. A Go
  string is a list of bytes; bytes that are not valid UTF-8 are replaced when a string is
  encoded, so the round trip of a string holds exactly for valid UTF-8.
\<close>

abbreviation byte :: "char \<Rightarrow> nat" where
  "byte c \<equiv> of_char c"

lemma byte_less [simp]: "byte c < 256"
  by simp

lemma byte_eq: "byte c = byte d \<longleftrightarrow> c = d"
  by simp

section \<open>Decimal numbers\<close>

definition digit :: "nat \<Rightarrow> char" where
  "digit d = char_of (48 + d)"

fun dec_nat :: "nat \<Rightarrow> string" where
  "dec_nat n = (if n < 10 then [digit n] else dec_nat (n div 10) @ [digit (n mod 10)])"

declare dec_nat.simps [simp del]

definition dec_int :: "int \<Rightarrow> string" where
  "dec_int i = (if i < 0 then CHR ''-'' # dec_nat (nat (- i)) else dec_nat (nat i))"

definition is_digit :: "char \<Rightarrow> bool" where
  "is_digit c = (48 \<le> byte c \<and> byte c \<le> 57)"

definition digit_val :: "char \<Rightarrow> nat" where
  "digit_val c = byte c - 48"

definition nat_of_dec :: "string \<Rightarrow> nat" where
  "nat_of_dec s = foldl (\<lambda>n c. 10 * n + digit_val c) 0 s"

lemma byte_digit: "d < 10 \<Longrightarrow> byte (digit d) = 48 + d"
  by (simp add: digit_def)

lemma is_digit_digit [simp]: "d < 10 \<Longrightarrow> is_digit (digit d)"
  by (simp add: is_digit_def byte_digit)

lemma digit_val_digit [simp]: "d < 10 \<Longrightarrow> digit_val (digit d) = d"
  by (simp add: digit_val_def byte_digit)

lemma dec_nat_digits: "list_all is_digit (dec_nat n)"
  by (induction n rule: dec_nat.induct) (subst dec_nat.simps, simp)

lemma dec_nat_ne [simp]: "dec_nat n \<noteq> []"
  by (subst dec_nat.simps) simp

lemma nat_of_dec_nat [simp]: "nat_of_dec (dec_nat n) = n"
proof (induction n rule: dec_nat.induct)
  case (1 n)
  then show ?case
    by (subst dec_nat.simps) (auto simp: nat_of_dec_def)
qed

lemma dec_nat_inj: "dec_nat m = dec_nat n \<longleftrightarrow> m = n"
  by (metis nat_of_dec_nat)

text \<open>No leading zero: a decimal number of more than one digit starts with another digit.\<close>

lemma dec_nat_hd: "dec_nat n = c # cs \<Longrightarrow> c = digit 0 \<Longrightarrow> cs = []"
proof (induction n arbitrary: c cs rule: dec_nat.induct)
  case (1 n)
  show ?case
  proof (cases "n < 10")
    case True
    then show ?thesis using 1(2) by (simp add: dec_nat.simps [of n])
  next
    case False
    then obtain cs' where cs': "dec_nat (n div 10) = c # cs'" "cs = cs' @ [digit (n mod 10)]"
      using 1(2) dec_nat_ne [of "n div 10"] unfolding dec_nat.simps [of n]
      by (cases "dec_nat (n div 10)") auto
    with 1(1) [OF False cs'(1) 1(3)] have "dec_nat (n div 10) = [digit 0]" using 1(3) by simp
    then have "n div 10 = 0" using nat_of_dec_nat [of "n div 10"] by (simp add: nat_of_dec_def)
    with False show ?thesis by simp
  qed
qed

text \<open>\<^verbatim>\<open>strconv.ParseInt(s, 10, 64)\<close> on a JSON number literal.\<close>

definition parse_int64 :: "string \<Rightarrow> int option" where
  "parse_int64 s =
     (let (neg, ds) = (case s of [] \<Rightarrow> (False, []) | c # cs \<Rightarrow> if c = CHR ''-'' then (True, cs) else (False, s));
          n = int (nat_of_dec ds); i = (if neg then - n else n)
      in if ds \<noteq> [] \<and> list_all is_digit ds \<and> - (2 ^ 63) \<le> i \<and> i < 2 ^ 63 then Some i else None)"

lemma not_digit_minus [simp]: "\<not> is_digit CHR ''-''"
  by (simp add: is_digit_def)

lemma parse_int64_dec: "- (2 ^ 63) \<le> i \<Longrightarrow> i < 2 ^ 63 \<Longrightarrow> parse_int64 (dec_int i) = Some i"
proof -
  obtain c cs where c: "dec_nat (nat i) = c # cs" by (cases "dec_nat (nat i)") auto
  then have "c \<noteq> CHR ''-''" using dec_nat_digits [of "nat i"] by auto
  then show "- (2 ^ 63) \<le> i \<Longrightarrow> i < 2 ^ 63 \<Longrightarrow> parse_int64 (dec_int i) = Some i"
    using c nat_of_dec_nat [of "nat i"] dec_nat_digits [of "nat i"] dec_nat_digits [of "nat (- i)"]
    by (cases "i < 0") (auto simp: parse_int64_def dec_int_def)
qed

section \<open>Hexadecimal digits\<close>

definition hex_digit :: "nat \<Rightarrow> char" where
  "hex_digit d = (if d < 10 then char_of (48 + d) else char_of (87 + d))"

definition hex_val :: "char \<Rightarrow> nat option" where
  "hex_val c =
     (if 48 \<le> byte c \<and> byte c \<le> 57 then Some (byte c - 48)
      else if 97 \<le> byte c \<and> byte c \<le> 102 then Some (byte c - 87)
      else if 65 \<le> byte c \<and> byte c \<le> 70 then Some (byte c - 55) else None)"

lemma hex_val_digit [simp]: "d < 16 \<Longrightarrow> hex_val (hex_digit d) = Some d"
  by (simp add: hex_val_def hex_digit_def)

text \<open>\<^verbatim>\<open>getu4\<close>: the four digits after \<^verbatim>\<open>\u\<close>.\<close>

definition getu4 :: "bytes \<Rightarrow> (nat \<times> bytes) option" where
  "getu4 s =
     (case s of a # b # c # d # rest \<Rightarrow> do {
        a \<leftarrow> hex_val a; b \<leftarrow> hex_val b; c \<leftarrow> hex_val c; d \<leftarrow> hex_val d;
        Some (4096 * a + 256 * b + 16 * c + d, rest)
      } | _ \<Rightarrow> None)"

definition u4 :: "nat \<Rightarrow> bytes" where
  "u4 r = CHR 0x5C # CHR ''u'' # map hex_digit [r div 4096 mod 16, r div 256 mod 16, r div 16 mod 16, r mod 16]"

lemma getu4_u4:
  assumes "r < 65536"
  shows "getu4 (drop 2 (u4 r) @ s) = Some (r, s)"
proof -
  have top: "r div 4096 mod 16 = r div 4096" using assms by simp
  have "16 * (r div 16) + r mod 16 = r" "16 * (r div 16 div 16) + r div 16 mod 16 = r div 16"
    "16 * (r div 256 div 16) + r div 256 mod 16 = r div 256"
    by (rule mult_div_mod_eq)+
  moreover have "r div 16 div 16 = r div 256" "r div 256 div 16 = r div 4096"
    by (simp_all flip: div_mult2_eq)
  ultimately have "4096 * (r div 4096) + 256 * (r div 256 mod 16) + 16 * (r div 16 mod 16) + r mod 16 = r"
    by linarith
  then show ?thesis using assms by (simp add: getu4_def u4_def top)
qed

section \<open>UTF-8\<close>

definition cont :: "char \<Rightarrow> bool" where
  "cont c = (128 \<le> byte c \<and> byte c \<le> 191)"

definition in_range :: "nat \<Rightarrow> nat \<Rightarrow> char \<Rightarrow> bool" where
  "in_range lo hi c = (lo \<le> byte c \<and> byte c \<le> hi)"

definition rune2 :: "char \<Rightarrow> char \<Rightarrow> bool" where
  "rune2 c0 c1 = (in_range 0xC2 0xDF c0 \<and> cont c1)"

definition rune3 :: "char \<Rightarrow> char \<Rightarrow> char \<Rightarrow> bool" where
  "rune3 c0 c1 c2 = (cont c2 \<and> (byte c0 = 0xE0 \<and> in_range 0xA0 0xBF c1 \<or> in_range 0xE1 0xEC c0 \<and> cont c1 \<or>
     byte c0 = 0xED \<and> in_range 0x80 0x9F c1 \<or> in_range 0xEE 0xEF c0 \<and> cont c1))"

definition rune4 :: "char \<Rightarrow> char \<Rightarrow> char \<Rightarrow> char \<Rightarrow> bool" where
  "rune4 c0 c1 c2 c3 = (cont c2 \<and> cont c3 \<and> (byte c0 = 0xF0 \<and> in_range 0x90 0xBF c1 \<or>
     in_range 0xF1 0xF3 c0 \<and> cont c1 \<or> byte c0 = 0xF4 \<and> in_range 0x80 0x8F c1))"

text \<open>The number of bytes of the valid encoding a string starts with, 0 if there is none.\<close>

fun utf8_len :: "bytes \<Rightarrow> nat" where
  "utf8_len (c0 # c1 # c2 # c3 # s) =
     (if byte c0 < 128 then 1 else if rune2 c0 c1 then 2 else if rune3 c0 c1 c2 then 3
      else if rune4 c0 c1 c2 c3 then 4 else 0)"
| "utf8_len [c0, c1, c2] = (if byte c0 < 128 then 1 else if rune2 c0 c1 then 2 else if rune3 c0 c1 c2 then 3 else 0)"
| "utf8_len [c0, c1] = (if byte c0 < 128 then 1 else if rune2 c0 c1 then 2 else 0)"
| "utf8_len [c0] = (if byte c0 < 128 then 1 else 0)"
| "utf8_len [] = 0"

lemma utf8_len_Cons: "byte c < 128 \<Longrightarrow> utf8_len (c # s) = 1"
  by (cases "c # s" rule: utf8_len.cases) auto

lemma utf8_len_2: "\<not> byte c0 < 128 \<Longrightarrow> rune2 c0 c1 \<Longrightarrow> utf8_len (c0 # c1 # s) = 2"
  by (cases "c0 # c1 # s" rule: utf8_len.cases) auto

lemma utf8_len_3: "\<not> byte c0 < 128 \<Longrightarrow> \<not> rune2 c0 c1 \<Longrightarrow> rune3 c0 c1 c2 \<Longrightarrow> utf8_len (c0 # c1 # c2 # s) = 3"
  by (cases "c0 # c1 # c2 # s" rule: utf8_len.cases) auto

lemma utf8_len_append:
  assumes "utf8_len s = n" and "0 < n"
  shows "utf8_len (take n s @ t) = n \<and> n \<le> length s"
proof (cases s rule: utf8_len.cases)
  case (1 c0 c1 c2 c3 s')
  then show ?thesis using assms by (auto simp: utf8_len_Cons utf8_len_2 utf8_len_3 split: if_splits)
next
  case (2 c0 c1 c2)
  then show ?thesis using assms by (auto simp: utf8_len_Cons utf8_len_2 utf8_len_3 split: if_splits)
next
  case (3 c0 c1)
  then show ?thesis using assms by (auto simp: utf8_len_Cons utf8_len_2 split: if_splits)
next
  case (4 c0)
  then show ?thesis using assms by (auto simp: utf8_len_Cons split: if_splits)
qed (use assms in simp)

function utf8_valid :: "bytes \<Rightarrow> bool" where
  "utf8_valid s =
     (if s = [] then True else if utf8_len s = 0 then False else utf8_valid (drop (utf8_len s) s))"
  by auto
termination
  by (relation "measure length") auto

declare utf8_valid.simps [simp del]

lemma utf8_valid_Nil [simp]: "utf8_valid []"
  by (simp add: utf8_valid.simps)

text \<open>\<^verbatim>\<open>utf8.AppendRune\<close> for a code point that is not a surrogate.\<close>

definition utf8_enc :: "nat \<Rightarrow> bytes" where
  "utf8_enc r =
     (if r < 0x80 then [char_of r]
      else if r < 0x800 then [char_of (0xC0 + r div 64), char_of (0x80 + r mod 64)]
      else if r < 0x10000 then
        [char_of (0xE0 + r div 4096), char_of (0x80 + r div 64 mod 64), char_of (0x80 + r mod 64)]
      else [char_of (0xF0 + r div 262144), char_of (0x80 + r div 4096 mod 64),
            char_of (0x80 + r div 64 mod 64), char_of (0x80 + r mod 64)])"

definition replacement :: bytes where
  "replacement = [CHR 0xEF, CHR 0xBF, CHR 0xBD]"

section \<open>String literals\<close>

text \<open>The escape of one ASCII character, as \<^verbatim>\<open>json.Marshal\<close> writes it (HTML characters included).\<close>

definition esc :: "char \<Rightarrow> bytes" where
  "esc c =
     (if byte c = 0x22 then [CHR 0x5C, CHR 0x22]
      else if byte c = 0x5C then [CHR 0x5C, CHR 0x5C]
      else if byte c = 8 then [CHR 0x5C, CHR ''b'']
      else if byte c = 12 then [CHR 0x5C, CHR ''f'']
      else if byte c = 10 then [CHR 0x5C, CHR ''n'']
      else if byte c = 13 then [CHR 0x5C, CHR ''r'']
      else if byte c = 9 then [CHR 0x5C, CHR ''t'']
      else if byte c < 32 \<or> c = CHR ''<'' \<or> c = CHR ''>'' \<or> c = CHR ''&'' then u4 (byte c)
      else [c])"

function enc_body :: "bytes \<Rightarrow> bytes" where
  "enc_body s =
     (case s of [] \<Rightarrow> []
      | c # cs \<Rightarrow>
          if byte c < 128 then esc c @ enc_body cs
          else if utf8_len s = 0 then u4 0xFFFD @ enc_body cs
          else if take 3 s = utf8_enc 0x2028 then u4 0x2028 @ enc_body (drop 3 s)
          else if take 3 s = utf8_enc 0x2029 then u4 0x2029 @ enc_body (drop 3 s)
          else take (utf8_len s) s @ enc_body (drop (utf8_len s) s))"
  by auto
termination
  by (relation "measure length") auto

declare enc_body.simps [simp del]

definition simple_unesc :: "char \<Rightarrow> char option" where
  "simple_unesc c =
     (if byte c = 0x22 \<or> byte c = 0x5C \<or> c = CHR ''/'' then Some c
      else if c = CHR ''b'' then Some (char_of (8 :: nat))
      else if c = CHR ''f'' then Some (char_of (12 :: nat))
      else if c = CHR ''n'' then Some (char_of (10 :: nat))
      else if c = CHR ''r'' then Some (char_of (13 :: nat))
      else if c = CHR ''t'' then Some (char_of (9 :: nat)) else None)"

text \<open>
  The code point after \<^verbatim>\<open>\u\<close>: a high and a low surrogate make one code point, a lone surrogate
  is replaced.
\<close>

definition rune_at :: "bytes \<Rightarrow> (bytes \<times> bytes) option" where
  "rune_at s = do {
     (r, s') \<leftarrow> getu4 s;
     if 0xD800 \<le> r \<and> r < 0xE000 then
       (case s' of
          c # d # s'' \<Rightarrow>
            if r < 0xDC00 \<and> byte c = 0x5C \<and> d = CHR ''u'' then
              (case getu4 s'' of
                 Some (r2, s3) \<Rightarrow>
                   if 0xDC00 \<le> r2 \<and> r2 < 0xE000
                   then Some (utf8_enc (0x10000 + (r - 0xD800) * 0x400 + (r2 - 0xDC00)), s3)
                   else Some (replacement, s')
               | None \<Rightarrow> Some (replacement, s'))
            else Some (replacement, s')
        | _ \<Rightarrow> Some (replacement, s'))
     else Some (utf8_enc r, s')
   }"

text \<open>The body of a string literal up to its closing quote: the string and what follows the quote.\<close>

definition prepend :: "bytes \<Rightarrow> (bytes \<times> bytes) option \<Rightarrow> (bytes \<times> bytes) option" where
  "prepend p r = map_option (map_prod ((@) p) id) r"

lemma getu4_shorter: "getu4 s = Some (r, s') \<Longrightarrow> length s' < length s"
  by (auto simp: getu4_def split: list.splits bind_splits)

lemma rune_at_shorter: "rune_at s = Some (p, s') \<Longrightarrow> length s' < length s"
  by (auto simp: rune_at_def split: bind_splits if_splits list.splits option.splits dest!: getu4_shorter)

function dec_body :: "bytes \<Rightarrow> (bytes \<times> bytes) option" where
  "dec_body s =
     (case s of [] \<Rightarrow> None
      | c # cs \<Rightarrow>
          if byte c = 0x22 then Some ([], cs)
          else if byte c = 0x5C then
            (case cs of [] \<Rightarrow> None
             | d # ds \<Rightarrow>
                 if d = CHR ''u'' then
                   (case rune_at ds of None \<Rightarrow> None | Some (p, ds') \<Rightarrow> prepend p (dec_body ds'))
                 else (case simple_unesc d of None \<Rightarrow> None | Some e \<Rightarrow> prepend [e] (dec_body ds)))
          else if byte c < 32 then None
          else if byte c < 128 then prepend [c] (dec_body cs)
          else if utf8_len s = 0 then prepend replacement (dec_body cs)
          else prepend (take (utf8_len s) s) (dec_body (drop (utf8_len s) s)))"
  by auto
termination
  by (relation "measure length") (auto dest!: rune_at_shorter)

declare dec_body.simps [simp del]

lemma byteD: "byte c = n \<Longrightarrow> c = char_of n"
  by auto

lemma char_quote: "char_of (34 :: nat) = CHR 0x22" and char_backslash: "char_of (92 :: nat) = CHR 0x5C"
  by code_simp+

lemma u4_unfold: "u4 r @ x = CHR 0x5C # CHR ''u'' # drop 2 (u4 r) @ x"
  by (simp add: u4_def)

lemma dec_body_u4:
  assumes "r < 65536" and "\<not> (0xD800 \<le> r \<and> r < 0xE000)"
  shows "dec_body (u4 r @ x) = prepend (utf8_enc r) (dec_body x)"
proof -
  have "rune_at (drop 2 (u4 r) @ x) = Some (utf8_enc r, x)"
    using assms(2) unfolding rune_at_def getu4_u4 [OF assms(1)] by auto
  then show ?thesis unfolding u4_unfold by (subst dec_body.simps) simp
qed

lemma dec_body_simple:
  "simple_unesc d = Some e \<Longrightarrow> dec_body (CHR 0x5C # d # x) = prepend [e] (dec_body x)"
  by (subst dec_body.simps) (auto simp: simple_unesc_def)

lemma dec_body_plain:
  "byte c \<noteq> 0x22 \<Longrightarrow> byte c \<noteq> 0x5C \<Longrightarrow> 32 \<le> byte c \<Longrightarrow> byte c < 128 \<Longrightarrow>
   dec_body (c # x) = prepend [c] (dec_body x)"
  by (subst dec_body.simps) simp

lemma dec_body_esc:
  assumes "byte c < 128"
  shows "dec_body (esc c @ x) = prepend [c] (dec_body x)"
proof -
  consider "byte c = 0x22" | "byte c = 0x5C" | "byte c = 8" | "byte c = 12" | "byte c = 10" | "byte c = 13"
    | "byte c = 9"
    | "byte c \<notin> {0x22, 0x5C, 8, 12, 10, 13, 9}" "byte c < 32 \<or> c = CHR ''<'' \<or> c = CHR ''>'' \<or> c = CHR ''&''"
    | "byte c \<notin> {0x22, 0x5C}" "32 \<le> byte c" "\<not> (c = CHR ''<'' \<or> c = CHR ''>'' \<or> c = CHR ''&'')"
    by auto linarith
  then show ?thesis
  proof cases
    case 8
    then have "esc c = u4 (byte c)" by (auto simp: esc_def)
    moreover have "utf8_enc (byte c) = [c]" using assms by (simp add: utf8_enc_def)
    ultimately show ?thesis using assms dec_body_u4 [of "byte c" x] by simp
  next
    case 9
    then have "esc c = [c]" by (auto simp: esc_def)
    then show ?thesis using 9 assms dec_body_plain [of c x] by simp
  qed (auto simp: esc_def simple_unesc_def char_quote char_backslash dest!: byteD intro!: dec_body_simple)
qed

lemma dec_body_rune:
  assumes "utf8_len s = n" and "0 < n" and "\<not> byte (hd s) < 128"
  shows "dec_body (take n s @ x) = prepend (take n s) (dec_body x)"
proof -
  obtain c cs where s: "s = c # cs" using assms by (cases s) auto
  have len: "utf8_len (take n s @ x) = n" "n \<le> length s" using utf8_len_append [OF assms(1,2)] by simp_all
  obtain k where n: "n = Suc k" using assms(2) by (cases n) auto
  have "dec_body (take n s @ x) = prepend (take n (take n s @ x)) (dec_body (drop n (take n s @ x)))"
    using len assms(3) by (subst dec_body.simps) (auto simp: s n)
  then show ?thesis using len(2) by simp
qed

lemma sep_bytes:
  "utf8_enc 0x2028 = [CHR 0xE2, CHR 0x80, CHR 0xA8]" "utf8_enc 0x2029 = [CHR 0xE2, CHR 0x80, CHR 0xA9]"
proof -
  have "char_of (226 :: nat) = CHR 0xE2" "char_of (128 :: nat) = CHR 0x80" "char_of (168 :: nat) = CHR 0xA8"
    "char_of (169 :: nat) = CHR 0xA9" by code_simp+
  then show "utf8_enc 0x2028 = [CHR 0xE2, CHR 0x80, CHR 0xA8]" "utf8_enc 0x2029 = [CHR 0xE2, CHR 0x80, CHR 0xA9]"
    by (simp_all add: utf8_enc_def)
qed

lemma utf8_len_sep: "take 3 s = utf8_enc 0x2028 \<or> take 3 s = utf8_enc 0x2029 \<Longrightarrow> utf8_len s = 3"
proof -
  assume *: "take 3 s = utf8_enc 0x2028 \<or> take 3 s = utf8_enc 0x2029"
  have "\<not> byte CHR 0xE2 < 128" "\<not> rune2 CHR 0xE2 CHR 0x80" "rune3 CHR 0xE2 CHR 0x80 CHR 0xA8"
    "rune3 CHR 0xE2 CHR 0x80 CHR 0xA9" by code_simp+
  note runes = utf8_len_3 [OF this(1,2,3)] utf8_len_3 [OF this(1,2,4)]
  from * have "\<exists>t. s = CHR 0xE2 # CHR 0x80 # CHR 0xA8 # t \<or> s = CHR 0xE2 # CHR 0x80 # CHR 0xA9 # t"
    unfolding sep_bytes by (cases s rule: utf8_len.cases) auto
  with runes show ?thesis by blast
qed

lemma string_body_round_trip:
  "utf8_valid s \<Longrightarrow> dec_body (enc_body s @ CHR 0x22 # x) = Some (s, x)"
proof (induction s rule: enc_body.induct)
  case (1 s)
  show ?case
  proof (cases s)
    case Nil
    then show ?thesis by (simp add: enc_body.simps dec_body.simps)
  next
    case (Cons c cs)
    note valid = 1(6) [unfolded utf8_valid.simps [of s]]
    show ?thesis
    proof (cases "byte c < 128")
      case True
      then have "utf8_valid cs" using valid Cons by (simp add: utf8_len_Cons)
      with 1(1) [OF Cons True] show ?thesis
        using True Cons by (subst enc_body.simps) (simp add: dec_body_esc prepend_def)
    next
      case False
      with valid Cons have pos: "0 < utf8_len s" "utf8_valid (drop (utf8_len s) s)" by (auto split: if_splits)
      consider "take 3 s = utf8_enc 0x2028" | "take 3 s = utf8_enc 0x2029"
        | "take 3 s \<noteq> utf8_enc 0x2028" "take 3 s \<noteq> utf8_enc 0x2029" by blast
      then show ?thesis
      proof cases
        case 1
        then have "utf8_len s = 3" by (simp add: utf8_len_sep)
        then have "dec_body (enc_body (drop 3 s) @ CHR 0x22 # x) = Some (drop 3 s, x)"
          using "1.IH"(3) [OF Cons False] 1 pos by simp
        moreover have "enc_body s = u4 0x2028 @ enc_body (drop 3 s)"
          using False pos 1 by (subst enc_body.simps) (simp add: Cons)
        ultimately show ?thesis
          using dec_body_u4 [of "0x2028" "enc_body (drop 3 s) @ CHR 0x22 # x"] by (simp add: prepend_def flip: 1)
      next
        case 2
        then have "utf8_len s = 3" by (simp add: utf8_len_sep)
        moreover from 2 have ne: "take 3 s \<noteq> utf8_enc 0x2028" by (simp add: utf8_enc_def)
        ultimately have "dec_body (enc_body (drop 3 s) @ CHR 0x22 # x) = Some (drop 3 s, x)"
          using "1.IH"(4) [OF Cons False] 2 pos by simp
        moreover have "enc_body s = u4 0x2029 @ enc_body (drop 3 s)"
          using False pos 2 ne by (subst enc_body.simps) (simp add: Cons)
        ultimately show ?thesis
          using dec_body_u4 [of "0x2029" "enc_body (drop 3 s) @ CHR 0x22 # x"] by (simp add: prepend_def flip: 2)
      next
        case 3
        then have "dec_body (enc_body (drop (utf8_len s) s) @ CHR 0x22 # x) = Some (drop (utf8_len s) s, x)"
          using "1.IH"(5) [OF Cons False] pos by simp
        moreover have "enc_body s = take (utf8_len s) s @ enc_body (drop (utf8_len s) s)"
          using False pos 3 by (subst enc_body.simps) (simp add: Cons)
        ultimately show ?thesis
          using dec_body_rune [OF refl pos(1), of "enc_body (drop (utf8_len s) s) @ CHR 0x22 # x"] False
          by (simp add: prepend_def Cons)
      qed
    qed
  qed
qed

end
