(* ===== verification/Go_Lib.thy ===== *)
theory Go_Lib
  imports Prelude Json_Text
begin

text \<open>
  The parts of the Go library that the client and security components use: \<^verbatim>\<open>time\<close> (the zero time,
  differences, the text of a duration), \<^verbatim>\<open>strings\<close>, integer division, and the conversion of a
  floating-point number to an integer. Floating-point numbers are rational numbers: rounding is not
  modelled. White space is that of ASCII.
\<close>

section \<open>Time\<close>

abbreviation second :: duration where
  "second \<equiv> 1000000000"

text \<open>The zero value of \<^verbatim>\<open>time.Time\<close>, the first of January of the year 1.\<close>

definition zeroTime :: gtime where
  "zeroTime = - 62135596800 * second"

text \<open>The difference of two times saturates at the largest and smallest duration.\<close>

definition timeSub :: "gtime \<Rightarrow> gtime \<Rightarrow> duration" where
  "timeSub t u = max (- (2 ^ 63)) (min max_i64 (t - u))"

lemma timeSub_pos: "0 < timeSub t u \<longleftrightarrow> u < t"
  by (auto simp: timeSub_def)

lemma timeSub_le: "u \<le> t \<Longrightarrow> timeSub t u \<le> t - u"
  by (auto simp: timeSub_def)

section \<open>Numbers\<close>

text \<open>Integer division truncates toward zero.\<close>

definition quot :: "int \<Rightarrow> int \<Rightarrow> int" where
  "quot a b = sgn a * sgn b * (\<bar>a\<bar> div \<bar>b\<bar>)"

definition trunc :: "rat \<Rightarrow> int" where
  "trunc x = (if 0 \<le> x then \<lfloor>x\<rfloor> else \<lceil>x\<rceil>)"

text \<open>A number out of range becomes the smallest integer, as on the amd64 targets; Go leaves it open.\<close>

definition i64_of_rat :: "rat \<Rightarrow> int" where
  "i64_of_rat x = (if - (2 ^ 63) \<le> trunc x \<and> trunc x < 2 ^ 63 then trunc x else - (2 ^ 63))"

definition secondsOf :: "duration \<Rightarrow> rat" where
  "secondsOf d = of_int d / of_int second"

text \<open>A quotient over zero is an infinity or not a number, and every comparison with the latter is false.\<close>

datatype float64 = Fin rat | PosInf | NegInf | NaN

definition float_div :: "int \<Rightarrow> rat \<Rightarrow> float64" where
  "float_div n d = (if d \<noteq> 0 then Fin (of_int n / d) else if 0 < n then PosInf else if n < 0 then NegInf else NaN)"

fun float_le :: "float64 \<Rightarrow> float64 \<Rightarrow> bool" where
  "float_le (Fin a) (Fin b) = (a \<le> b)"
| "float_le NegInf b = (b \<noteq> NaN)"
| "float_le a PosInf = (a \<noteq> NaN)"
| "float_le a b = False"

definition float_less :: "float64 \<Rightarrow> float64 \<Rightarrow> bool" where
  "float_less a b = (float_le a b \<and> a \<noteq> b)"

lemma i64_of_rat_le: "0 \<le> x \<Longrightarrow> of_int (i64_of_rat x) \<le> x"
  by (auto simp: i64_of_rat_def trunc_def)

lemma quot_half: "0 \<le> a \<Longrightarrow> 0 \<le> quot a 2 \<and> quot a 2 \<le> a"
  by (cases "a = 0") (auto simp: quot_def sgn_if)

section \<open>Strings\<close>

definition HasPrefix :: "string \<Rightarrow> string \<Rightarrow> bool" where
  "HasPrefix s p = (take (length p) s = p)"

definition HasSuffix :: "string \<Rightarrow> string \<Rightarrow> bool" where
  "HasSuffix s p = (length p \<le> length s \<and> drop (length s - length p) s = p)"

definition TrimSuffix :: "string \<Rightarrow> string \<Rightarrow> string" where
  "TrimSuffix s p = (if HasSuffix s p then take (length s - length p) s else s)"

definition Contains :: "string \<Rightarrow> string \<Rightarrow> bool" where
  "Contains s sub = list_ex (\<lambda>i. HasPrefix (drop i s) sub) [0..<Suc (length s)]"

text \<open>Splitting at a separator of one character.\<close>

fun splitAt :: "char \<Rightarrow> string \<Rightarrow> string list" where
  "splitAt c [] = [[]]"
| "splitAt c (x # xs) = (if x = c then [] # splitAt c xs else (case splitAt c xs of [] \<Rightarrow> [[x]] | w # ws \<Rightarrow> (x # w) # ws))"

fun joinWith :: "string \<Rightarrow> string list \<Rightarrow> string" where
  "joinWith sep [] = []"
| "joinWith sep [x] = x"
| "joinWith sep (x # xs) = x @ sep @ joinWith sep xs"

definition isSpace :: "char \<Rightarrow> bool" where
  "isSpace c = (c = CHR '' '' \<or> 9 \<le> byte c \<and> byte c \<le> 13)"

definition TrimSpace :: "string \<Rightarrow> string" where
  "TrimSpace s = rev (dropWhile isSpace (rev (dropWhile isSpace s)))"

lemma Contains_iff: "Contains s sub \<longleftrightarrow> (\<exists>xs ys. s = xs @ sub @ ys)"
proof
  assume "Contains s sub"
  then obtain i where "take (length sub) (drop i s) = sub" by (auto simp: Contains_def HasPrefix_def list_ex_iff)
  then have "s = take i s @ sub @ drop (length sub) (drop i s)" by (metis append_take_drop_id)
  then show "\<exists>xs ys. s = xs @ sub @ ys" by blast
next
  assume "\<exists>xs ys. s = xs @ sub @ ys"
  then obtain xs ys where s: "s = xs @ sub @ ys" by blast
  then have "HasPrefix (drop (length xs) s) sub" "length xs \<le> length s" by (simp_all add: HasPrefix_def)
  then show "Contains s sub" unfolding Contains_def list_ex_iff by (intro bexI [of _ "length xs"]) auto
qed

section \<open>The text of a duration\<close>

definition pad_left :: "nat \<Rightarrow> string \<Rightarrow> string" where
  "pad_left n s = replicate (n - length s) (CHR ''0'') @ s"

text \<open>The fraction after the point, without trailing zeros and without the point when there is none.\<close>

definition fracText :: "nat \<Rightarrow> nat \<Rightarrow> string" where
  "fracText prec v =
     (let ds = rev (dropWhile (\<lambda>c. c = CHR ''0'') (rev (pad_left prec (dec_nat (v mod 10 ^ prec)))))
      in if ds = [] then [] else CHR ''.'' # ds)"

definition unitText :: "nat \<Rightarrow> nat \<Rightarrow> string" where
  "unitText prec v = dec_nat (v div 10 ^ prec) @ fracText prec v"

definition DurationString :: "duration \<Rightarrow> string" where
  "DurationString d =
     (let u = nat \<bar>d\<bar>;
          s = (if u = 0 then ''0s''
               else if u < 1000 then dec_nat u @ ''ns''
               else if u < 1000000 then unitText 3 u @ [char_of (0xC2 :: nat), char_of (0xB5 :: nat), CHR ''s'']
               else if u < 1000000000 then unitText 6 u @ ''ms''
               else
                 (let secs = u div 1000000000; low = dec_nat (secs mod 60) @ fracText 9 u @ ''s''; mins = secs div 60
                  in if mins = 0 then low
                     else (let low = dec_nat (mins mod 60) @ ''m'' @ low; hours = mins div 60
                           in if hours = 0 then low else dec_nat hours @ ''h'' @ low)))
      in if d < 0 then CHR ''-'' # s else s)"

lemma DurationString_examples:
  "DurationString (1500 * 1000000) = ''1.5s''" "DurationString (90 * second) = ''1m30s''" "DurationString 250000000 = ''250ms''"
  "DurationString (3600 * second) = ''1h0m0s''"
  by (simp_all add: DurationString_def unitText_def fracText_def pad_left_def dec_nat.simps digit_def Let_def
      char_of_def bit_iff_odd_drop_bit drop_bit_eq_div flip: numeral_2_eq_2)

end
