(* ===== verification/GRPC_Server.thy ===== *)
theory GRPC_Server
  imports Storage_Interface Go_Lib "HOL-Library.Multiset"
begin

text \<open>
  The handlers of the gRPC service \<^verbatim>\<open>KVStore\<close>, \<^verbatim>\<open>src/internal/server/grpc_server.go\<close>, over any storage engine. A handler takes the fields of its
  request message, returns its response message (the structs of \<^verbatim>\<open>src/proto/kvstore\<close>) or a gRPC status, and the server with the storage
  changed. The transport, which calls the handlers, is not modelled. \<open>et\<close> gives the texts of errors of the database, \<open>perm\<close> the order in which a range over a map
  visits it. Inside the contract \<open>storage_engine\<close> every response is right for the map that the storage stands for.
\<close>

datatype grpc_code = InvalidArgument

type_synonym 'a reply = "(grpc_code \<times> string) + 'a"

record pb_PutResponse =
  ppr_Success :: bool
  ppr_Error :: string

record pb_GetResponse =
  pgr_Found :: bool
  pgr_Value :: slice
  pgr_Error :: string
  pgr_CreatedAt :: int
  pgr_ExpiresAt :: int

record pb_DeleteResponse =
  pdr_Success :: bool
  pdr_Existed :: bool
  pdr_Error :: string

record pb_ExistsResponse =
  per_Exists :: bool
  per_Error :: string

record pb_KeyValue =
  pkv_Key :: string
  pkv_Value :: slice
  pkv_CreatedAt :: int
  pkv_ExpiresAt :: int

record pb_ListResponse =
  plr_Items :: "pb_KeyValue list"
  plr_NextCursor :: string
  plr_HasMore :: bool
  plr_Error :: string

record pb_ListKeysResponse =
  pkr_Keys :: "string list"
  pkr_NextCursor :: string
  pkr_HasMore :: bool
  pkr_Error :: string

record PutItem =
  pi_Key :: string
  pi_Value :: slice
  pi_TtlSeconds :: int

record BatchError =
  be_Key :: string
  be_Error :: string

record pb_BatchResponse =
  pbr_SuccessCount :: int
  pbr_ErrorCount :: int
  pbr_Errors :: "BatchError list"

record GetResult =
  gr_Key :: string
  gr_Found :: bool
  gr_Value :: slice
  gr_CreatedAt :: int
  gr_ExpiresAt :: int

record pb_BatchGetResponse =
  pbg_Results :: "GetResult list"
  pbg_Error :: string

record pb_HealthResponse =
  phr_Healthy :: bool
  phr_Status :: string
  phr_UptimeSeconds :: int
  phr_Version :: string

record pb_StatsResponse =
  psr_TotalKeys :: int
  psr_TotalSize :: int
  psr_LsmSize :: int
  psr_VlogSize :: int
  psr_Details :: "(string, string) gomap"
  psr_Error :: string

record pb_BackupResponse =
  pbu_Success :: bool
  pbu_Path :: string
  pbu_Size :: int
  pbu_Error :: string

record pb_RestoreResponse =
  pre_Success :: bool
  pre_RestoredCount :: int
  pre_Error :: string

record pb_StatusResponse =
  pst_NodeId :: string
  pst_Role :: string
  pst_State :: string
  pst_Peers :: "string list"
  pst_LastApplied :: int
  pst_CommitIndex :: int
  pst_LeaderId :: string
  pst_Metadata :: "(string, string) gomap"

record 's GRPCServer =
  gs_storage :: 's
  gs_NodeID :: string
  gs_startTime :: gtime

definition NewGRPCServer :: "gtime \<Rightarrow> string \<Rightarrow> 's \<Rightarrow> 's GRPCServer" where
  "NewGRPCServer now nodeID storage = \<lparr>gs_storage = storage, gs_NodeID = nodeID, gs_startTime = now\<rparr>"

text \<open>The texts of the errors of the storage; those of BadgerDB are its own.\<close>

fun error_text :: "(berror \<Rightarrow> string) \<Rightarrow> serror \<Rightarrow> string" where
  "error_text et ErrKeyNotFound = ''key not found''"
| "error_text et (SBadger e) = et e"
| "error_text et (SCreateBackup e) = ''failed to create backup file: '' @ e"
| "error_text et (SOpenBackup e) = ''failed to open backup file: '' @ e"

text \<open>\<^verbatim>\<open>int32\<close> and seconds since 1970.\<close>

definition i32 :: "int \<Rightarrow> int" where
  "i32 n = (n + 2 ^ 31) mod 2 ^ 32 - 2 ^ 31"

definition unixOf :: "gtime \<Rightarrow> int" where
  "unixOf t = t div 1000000000"

section \<open>Handlers for one key\<close>

definition emptyKey :: "'a reply" where
  "emptyKey = Inl (InvalidArgument, ''key cannot be empty'')"

definition GS_Put :: "'s StorageEngine \<Rightarrow> (berror \<Rightarrow> string) \<Rightarrow> clock \<Rightarrow> string \<Rightarrow> slice \<Rightarrow> 's GRPCServer \<Rightarrow>
    (pb_PutResponse \<times> 's GRPCServer) option" where
  "GS_Put SE et clk key val gs =
     (if key = [] then Some (\<lparr>ppr_Success = False, ppr_Error = ''key cannot be empty''\<rparr>, gs)
      else do {
        (err, st) \<leftarrow> se_Put SE clk key val (gs_storage gs);
        Some (case err of
                Some e \<Rightarrow> \<lparr>ppr_Success = False, ppr_Error = error_text et e\<rparr>
              | None \<Rightarrow> \<lparr>ppr_Success = True, ppr_Error = []\<rparr>,
              gs\<lparr>gs_storage := st\<rparr>)
      })"

definition notFoundResponse :: "string \<Rightarrow> pb_GetResponse" where
  "notFoundResponse err = \<lparr>pgr_Found = False, pgr_Value = None, pgr_Error = err, pgr_CreatedAt = 0, pgr_ExpiresAt = 0\<rparr>"

definition GS_Get :: "'s StorageEngine \<Rightarrow> (berror \<Rightarrow> string) \<Rightarrow> clock \<Rightarrow> string \<Rightarrow> 's GRPCServer \<Rightarrow>
    (pb_GetResponse reply \<times> 's GRPCServer) option" where
  "GS_Get SE et clk key gs =
     (if key = [] then Some (emptyKey, gs)
      else do {
        ((val, err), st) \<leftarrow> se_Get SE clk key (gs_storage gs);
        Some (case err of
                Some ErrKeyNotFound \<Rightarrow> Inr (notFoundResponse [])
              | Some e \<Rightarrow> Inr (notFoundResponse (error_text et e))
              | None \<Rightarrow> Inr \<lparr>pgr_Found = True, pgr_Value = val, pgr_Error = [], pgr_CreatedAt = 0, pgr_ExpiresAt = 0\<rparr>,
              gs\<lparr>gs_storage := st\<rparr>)
      })"

definition GS_Delete :: "'s StorageEngine \<Rightarrow> (berror \<Rightarrow> string) \<Rightarrow> clock \<Rightarrow> clock \<Rightarrow> string \<Rightarrow> 's GRPCServer \<Rightarrow>
    (pb_DeleteResponse reply \<times> 's GRPCServer) option" where
  "GS_Delete SE et clk clk' key gs =
     (if key = [] then Some (emptyKey, gs)
      else do {
        ((existed, err), st) \<leftarrow> se_Exists SE clk key (gs_storage gs);
        case err of
          Some e \<Rightarrow> Some (Inr \<lparr>pdr_Success = False, pdr_Existed = False, pdr_Error = error_text et e\<rparr>, gs\<lparr>gs_storage := st\<rparr>)
        | None \<Rightarrow> do {
            (err, st) \<leftarrow> se_Delete SE clk' key st;
            Some (case err of
                    Some e \<Rightarrow> Inr \<lparr>pdr_Success = False, pdr_Existed = False, pdr_Error = error_text et e\<rparr>
                  | None \<Rightarrow> Inr \<lparr>pdr_Success = True, pdr_Existed = existed, pdr_Error = []\<rparr>,
                  gs\<lparr>gs_storage := st\<rparr>)
          }
      })"

definition GS_Exists :: "'s StorageEngine \<Rightarrow> (berror \<Rightarrow> string) \<Rightarrow> clock \<Rightarrow> string \<Rightarrow> 's GRPCServer \<Rightarrow>
    (pb_ExistsResponse reply \<times> 's GRPCServer) option" where
  "GS_Exists SE et clk key gs =
     (if key = [] then Some (emptyKey, gs)
      else do {
        ((exists, err), st) \<leftarrow> se_Exists SE clk key (gs_storage gs);
        Some (case err of
                Some e \<Rightarrow> Inr \<lparr>per_Exists = False, per_Error = error_text et e\<rparr>
              | None \<Rightarrow> Inr \<lparr>per_Exists = exists, per_Error = []\<rparr>,
              gs\<lparr>gs_storage := st\<rparr>)
      })"

section \<open>Listing\<close>

text \<open>The loop over the map stops at a positive limit.\<close>

fun takeLimit :: "int \<Rightarrow> int \<Rightarrow> 'a list \<Rightarrow> 'a list" where
  "takeLimit limit n [] = []"
| "takeLimit limit n (x # xs) = (if 0 < limit \<and> limit \<le> n then [] else x # takeLimit limit (n + 1) xs)"

definition hasMore :: "int \<Rightarrow> 'a list \<Rightarrow> bool" where
  "hasMore limit items \<longleftrightarrow> 0 < limit \<and> limit < int (length items)"

definition GS_List :: "'s StorageEngine \<Rightarrow> (berror \<Rightarrow> string) \<Rightarrow> ((bytes, slice) gomap \<Rightarrow> (bytes, slice) gomap) \<Rightarrow> clock \<Rightarrow> string \<Rightarrow> int \<Rightarrow>
    's GRPCServer \<Rightarrow> pb_ListResponse \<times> 's GRPCServer" where
  "GS_List SE et perm clk p limit gs =
     (let ((items, err), st) = se_List SE p (gs_storage gs)
      in (case err of
            Some e \<Rightarrow> \<lparr>plr_Items = [], plr_NextCursor = [], plr_HasMore = False, plr_Error = error_text et e\<rparr>
          | None \<Rightarrow>
              \<lparr>plr_Items = map (\<lambda>(i, key, val). \<lparr>pkv_Key = key, pkv_Value = val, pkv_CreatedAt = unixOf (clk i), pkv_ExpiresAt = 0\<rparr>)
                 (enumerate 0 (takeLimit limit 0 (perm items))),
               plr_NextCursor = [], plr_HasMore = hasMore limit items, plr_Error = []\<rparr>,
          gs\<lparr>gs_storage := st\<rparr>))"

definition GS_ListKeys :: "'s StorageEngine \<Rightarrow> (berror \<Rightarrow> string) \<Rightarrow> ((bytes, slice) gomap \<Rightarrow> (bytes, slice) gomap) \<Rightarrow> string \<Rightarrow> int \<Rightarrow>
    's GRPCServer \<Rightarrow> pb_ListKeysResponse \<times> 's GRPCServer" where
  "GS_ListKeys SE et perm p limit gs =
     (let ((items, err), st) = se_List SE p (gs_storage gs)
      in (case err of
            Some e \<Rightarrow> \<lparr>pkr_Keys = [], pkr_NextCursor = [], pkr_HasMore = False, pkr_Error = error_text et e\<rparr>
          | None \<Rightarrow> \<lparr>pkr_Keys = takeLimit limit 0 (map fst (perm items)), pkr_NextCursor = [], pkr_HasMore = hasMore limit items, pkr_Error = []\<rparr>,
          gs\<lparr>gs_storage := st\<rparr>))"

section \<open>Batches\<close>

text \<open>The loops carry the count of successes and the errors; every call of the storage has a clock of its own.\<close>

fun batchPutLoop :: "'s StorageEngine \<Rightarrow> (berror \<Rightarrow> string) \<Rightarrow> (nat \<Rightarrow> clock) \<Rightarrow> nat \<Rightarrow> PutItem list \<Rightarrow> int \<times> BatchError list \<Rightarrow> 's \<Rightarrow>
    ((int \<times> BatchError list) \<times> 's) option" where
  "batchPutLoop SE et clks i [] acc st = Some (acc, st)"
| "batchPutLoop SE et clks i (item # items) (successCount, errors) st =
     (if pi_Key item = [] then
        batchPutLoop SE et clks (Suc i) items (successCount, errors @ [\<lparr>be_Key = pi_Key item, be_Error = ''key cannot be empty''\<rparr>]) st
      else do {
        (err, st) \<leftarrow> se_Put SE (clks i) (pi_Key item) (pi_Value item) st;
        batchPutLoop SE et clks (Suc i) items
          (case err of Some e \<Rightarrow> (successCount, errors @ [\<lparr>be_Key = pi_Key item, be_Error = error_text et e\<rparr>]) | None \<Rightarrow> (i32 (successCount + 1), errors)) st
      })"

definition batchResponse :: "int \<times> BatchError list \<Rightarrow> pb_BatchResponse" where
  "batchResponse = (\<lambda>(successCount, errors). \<lparr>pbr_SuccessCount = successCount, pbr_ErrorCount = i32 (int (length errors)), pbr_Errors = errors\<rparr>)"

definition GS_BatchPut :: "'s StorageEngine \<Rightarrow> (berror \<Rightarrow> string) \<Rightarrow> (nat \<Rightarrow> clock) \<Rightarrow> PutItem list \<Rightarrow> 's GRPCServer \<Rightarrow>
    (pb_BatchResponse \<times> 's GRPCServer) option" where
  "GS_BatchPut SE et clks items gs = do {
     (acc, st) \<leftarrow> batchPutLoop SE et clks 0 items (0, []) (gs_storage gs);
     Some (batchResponse acc, gs\<lparr>gs_storage := st\<rparr>)
   }"

definition missResult :: "string \<Rightarrow> GetResult" where
  "missResult key = \<lparr>gr_Key = key, gr_Found = False, gr_Value = None, gr_CreatedAt = 0, gr_ExpiresAt = 0\<rparr>"

fun batchGetLoop :: "'s StorageEngine \<Rightarrow> (nat \<Rightarrow> clock) \<Rightarrow> clock \<Rightarrow> nat \<Rightarrow> string list \<Rightarrow> 's \<Rightarrow> (GetResult list \<times> 's) option" where
  "batchGetLoop SE clks now i [] st = Some ([], st)"
| "batchGetLoop SE clks now i (key # keys) st =
     (if key = [] then do {
        (results, st) \<leftarrow> batchGetLoop SE clks now (Suc i) keys st;
        Some (missResult key # results, st)
      }
      else do {
        ((val, err), st) \<leftarrow> se_Get SE (clks i) key st;
        (results, st) \<leftarrow> batchGetLoop SE clks now (Suc i) keys st;
        Some ((if err \<noteq> None then missResult key
               else \<lparr>gr_Key = key, gr_Found = True, gr_Value = val, gr_CreatedAt = unixOf (now i), gr_ExpiresAt = 0\<rparr>) # results, st)
      })"

definition GS_BatchGet :: "'s StorageEngine \<Rightarrow> (nat \<Rightarrow> clock) \<Rightarrow> clock \<Rightarrow> string list \<Rightarrow> 's GRPCServer \<Rightarrow>
    (pb_BatchGetResponse \<times> 's GRPCServer) option" where
  "GS_BatchGet SE clks now keys gs = do {
     (results, st) \<leftarrow> batchGetLoop SE clks now 0 keys (gs_storage gs);
     Some (\<lparr>pbg_Results = results, pbg_Error = []\<rparr>, gs\<lparr>gs_storage := st\<rparr>)
   }"

fun batchDeleteLoop :: "'s StorageEngine \<Rightarrow> (berror \<Rightarrow> string) \<Rightarrow> (nat \<Rightarrow> clock) \<Rightarrow> nat \<Rightarrow> string list \<Rightarrow> int \<times> BatchError list \<Rightarrow> 's \<Rightarrow>
    ((int \<times> BatchError list) \<times> 's) option" where
  "batchDeleteLoop SE et clks i [] acc st = Some (acc, st)"
| "batchDeleteLoop SE et clks i (key # keys) (successCount, errors) st =
     (if key = [] then batchDeleteLoop SE et clks (Suc i) keys (successCount, errors @ [\<lparr>be_Key = key, be_Error = ''key cannot be empty''\<rparr>]) st
      else do {
        (err, st) \<leftarrow> se_Delete SE (clks i) key st;
        batchDeleteLoop SE et clks (Suc i) keys
          (case err of Some e \<Rightarrow> (successCount, errors @ [\<lparr>be_Key = key, be_Error = error_text et e\<rparr>]) | None \<Rightarrow> (i32 (successCount + 1), errors)) st
      })"

definition GS_BatchDelete :: "'s StorageEngine \<Rightarrow> (berror \<Rightarrow> string) \<Rightarrow> (nat \<Rightarrow> clock) \<Rightarrow> string list \<Rightarrow> 's GRPCServer \<Rightarrow>
    (pb_BatchResponse \<times> 's GRPCServer) option" where
  "GS_BatchDelete SE et clks keys gs = do {
     (acc, st) \<leftarrow> batchDeleteLoop SE et clks 0 keys (0, []) (gs_storage gs);
     Some (batchResponse acc, gs\<lparr>gs_storage := st\<rparr>)
   }"

section \<open>Administration\<close>

definition GS_Health :: "gtime \<Rightarrow> 's GRPCServer \<Rightarrow> pb_HealthResponse" where
  "GS_Health now gs = \<lparr>phr_Healthy = True, phr_Status = ''healthy'',
     phr_UptimeSeconds = i64_of_rat (secondsOf (timeSub now (gs_startTime gs))), phr_Version = ''1.0.0''\<rparr>"

text \<open>A statistic that is missing or not an integer counts as zero; \<open>sprint\<close> is \<^verbatim>\<open>fmt.Sprintf("%v")\<close>.\<close>

definition intStat :: "string \<Rightarrow> (string, stat) gomap \<Rightarrow> int" where
  "intStat name stats = (case gm_get stats name of Some (StInt n) \<Rightarrow> n | _ \<Rightarrow> 0)"

definition GS_Stats :: "'s StorageEngine \<Rightarrow> (stat \<Rightarrow> string) \<Rightarrow> bool \<Rightarrow> 's GRPCServer \<Rightarrow> pb_StatsResponse" where
  "GS_Stats SE sprint includeDetails gs =
     (let stats = se_Stats SE (gs_storage gs)
      in \<lparr>psr_TotalKeys = 0, psr_TotalSize = intStat ''total_size'' stats, psr_LsmSize = intStat ''lsm_size'' stats, psr_VlogSize = intStat ''vlog_size'' stats,
          psr_Details = (if includeDetails then fold (\<lambda>(key, val). gm_put key (sprint val)) stats [] else []), psr_Error = []\<rparr>)"

definition GS_Backup :: "'s StorageEngine \<Rightarrow> (berror \<Rightarrow> string) \<Rightarrow> string option \<Rightarrow> string \<Rightarrow> files \<Rightarrow> 's GRPCServer \<Rightarrow>
    pb_BackupResponse \<times> files \<times> 's GRPCServer" where
  "GS_Backup SE et createErr path fs gs =
     (let ((err, fs), st) = se_Backup SE createErr path fs (gs_storage gs)
      in (case err of
            Some e \<Rightarrow> \<lparr>pbu_Success = False, pbu_Path = [], pbu_Size = 0, pbu_Error = error_text et e\<rparr>
          | None \<Rightarrow> \<lparr>pbu_Success = True, pbu_Path = path, pbu_Size = 0, pbu_Error = []\<rparr>,
          fs, gs\<lparr>gs_storage := st\<rparr>))"

definition GS_Restore :: "'s StorageEngine \<Rightarrow> (berror \<Rightarrow> string) \<Rightarrow> string \<Rightarrow> files \<Rightarrow> 's GRPCServer \<Rightarrow>
    (pb_RestoreResponse \<times> 's GRPCServer) option" where
  "GS_Restore SE et path fs gs = do {
     (err, st) \<leftarrow> se_Restore SE path fs (gs_storage gs);
     Some (case err of
             Some e \<Rightarrow> \<lparr>pre_Success = False, pre_RestoredCount = 0, pre_Error = error_text et e\<rparr>
           | None \<Rightarrow> \<lparr>pre_Success = True, pre_RestoredCount = 0, pre_Error = []\<rparr>,
           gs\<lparr>gs_storage := st\<rparr>)
   }"

definition GS_Status :: "'s GRPCServer \<Rightarrow> pb_StatusResponse" where
  "GS_Status gs = \<lparr>pst_NodeId = gs_NodeID gs, pst_Role = ''standalone'', pst_State = ''running'', pst_Peers = [],
     pst_LastApplied = 0, pst_CommitIndex = 0, pst_LeaderId = [], pst_Metadata = []\<rparr>"

section \<open>What a listing and a batch promise\<close>

definition matching :: "string \<Rightarrow> (bytes \<rightharpoonup> bytes) \<Rightarrow> string set" where
  "matching p m = {k. prefix p k \<and> m k \<noteq> None}"

text \<open>A listing names keys with the prefix, each once: as many as the limit allows, and all of them unless it says that there are more.\<close>

definition lists_right :: "string \<Rightarrow> int \<Rightarrow> (bytes \<rightharpoonup> bytes) \<Rightarrow> string list \<Rightarrow> bool \<Rightarrow> bool" where
  "lists_right p limit m keys further \<longleftrightarrow>
     distinct keys \<and> set keys \<subseteq> matching p m \<and> (further \<longleftrightarrow> 0 < limit \<and> limit < int (card (matching p m))) \<and>
     (if further then int (length keys) = limit else set keys = matching p m)"

lemma takeLimit_take: "takeLimit limit n xs = (if 0 < limit then take (nat (limit - n)) xs else xs)"
proof (induction xs arbitrary: n)
  case (Cons x xs)
  show ?case
  proof (cases "limit \<le> n")
    case False
    then have "nat (limit - n) = Suc (nat (limit - (n + 1)))" by simp
    then show ?thesis using Cons False by simp
  qed (use Cons in simp)
qed simp

lemma listing_right:
  assumes ok: "gm_ok l" and vals: "\<And>k. map_option content (gm_get l k) = (if prefix p k then m k else None)" and perm: "mset l' = mset l"
  shows "lists_right p limit m (map fst (takeLimit limit 0 l')) (hasMore limit l)"
    and "(k, v) \<in> set (takeLimit limit 0 l') \<Longrightarrow> m k = Some (content v)"
proof -
  have dist: "distinct (map fst l')" using ok perm unfolding gm_ok_def by (metis mset_eq_imp_distinct_iff mset_map)
  have "fst ` set l = dom (gm_get l)" by (simp add: dom_map_of_conv_image_fst)
  also have "\<dots> = {k. map_option content (gm_get l k) \<noteq> None}" by auto
  also have "\<dots> = matching p m" unfolding vals by (auto simp: matching_def)
  finally have dom: "fst ` set l' = matching p m" using perm mset_eq_setD by metis
  have len: "length l' = length l" using perm by (rule mset_eq_length)
  have card: "card (matching p m) = length l"
    using distinct_card [OF dist] by (simp add: dom len)
  have sub: "set (takeLimit limit 0 l') \<subseteq> set l'" by (auto simp: takeLimit_take dest: in_set_takeD)
  have "distinct (map fst (takeLimit limit 0 l'))" using dist by (auto simp: takeLimit_take take_map [symmetric])
  moreover have "set (map fst (takeLimit limit 0 l')) \<subseteq> matching p m" using sub dom by auto
  ultimately show "lists_right p limit m (map fst (takeLimit limit 0 l')) (hasMore limit l)"
    using card len dom by (auto simp: lists_right_def hasMore_def takeLimit_take)
  assume "(k, v) \<in> set (takeLimit limit 0 l')"
  then have "(k, v) \<in> set l" using sub perm mset_eq_setD by blast
  then have "gm_get l k = Some v" using gm_get_mem [OF ok] by simp
  then show "m k = Some (content v)" using vals [of k] by (auto split: if_splits)
qed

text \<open>A batch does some of its items; \<open>oks\<close> says which.\<close>

definition chosen :: "'a list \<Rightarrow> bool list \<Rightarrow> 'a list" where
  "chosen xs oks = map fst (filter snd (zip xs oks))"

lemma chosen_simps [simp]: "chosen [] oks = []" "chosen (x # xs) (b # oks) = (if b then x # chosen xs oks else chosen xs oks)"
  by (simp_all add: chosen_def)

definition putItem :: "PutItem \<Rightarrow> (bytes \<rightharpoonup> bytes) \<Rightarrow> (bytes \<rightharpoonup> bytes)" where
  "putItem item m = m(pi_Key item \<mapsto> content (pi_Value item))"

definition delKey :: "string \<Rightarrow> (bytes \<rightharpoonup> bytes) \<Rightarrow> (bytes \<rightharpoonup> bytes)" where
  "delKey k m = m(k := None)"

definition batch_right :: "('a \<Rightarrow> string) \<Rightarrow> ('a \<Rightarrow> (bytes \<rightharpoonup> bytes) \<Rightarrow> (bytes \<rightharpoonup> bytes)) \<Rightarrow> 'a list \<Rightarrow> pb_BatchResponse \<Rightarrow>
    (bytes \<rightharpoonup> bytes) \<Rightarrow> (bytes \<rightharpoonup> bytes) \<Rightarrow> bool" where
  "batch_right keyOf eff items resp m m' \<longleftrightarrow>
     (\<exists>oks. list_all2 (\<lambda>x ok. keyOf x = [] \<longrightarrow> \<not> ok) items oks \<and> m' = fold eff (chosen items oks) m \<and>
        pbr_SuccessCount resp = i32 (int (length (chosen items oks))) \<and> pbr_ErrorCount resp = i32 (int (length (pbr_Errors resp))) \<and>
        map be_Key (pbr_Errors resp) = map keyOf (chosen items (map Not oks)))"

section \<open>The service\<close>

datatype rpc = RPut string slice | RGet string | RDelete string | RExists string | RList string int | RListKeys string int |
  RBatchPut "PutItem list" | RBatchGet "string list" | RBatchDelete "string list"

datatype rpc_reply = PutR pb_PutResponse | GetR "pb_GetResponse reply" | DeleteR "pb_DeleteResponse reply" | ExistsR "pb_ExistsResponse reply" |
  ListR pb_ListResponse | KeysR pb_ListKeysResponse | BatchR pb_BatchResponse | BatchGetR pb_BatchGetResponse

text \<open>A request is served with the clock readings of its calls of the storage, its own readings, and the order of maps.\<close>

type_synonym serving = "(nat \<Rightarrow> clock) \<times> clock \<times> ((bytes, slice) gomap \<Rightarrow> (bytes, slice) gomap)"

fun serve_rpc :: "'s StorageEngine \<Rightarrow> (berror \<Rightarrow> string) \<Rightarrow> serving \<Rightarrow> rpc \<Rightarrow> 's GRPCServer \<Rightarrow> (rpc_reply \<times> 's GRPCServer) option" where
  "serve_rpc SE et (clks, now, perm) (RPut k v) gs = map_option (map_prod PutR id) (GS_Put SE et (clks 0) k v gs)"
| "serve_rpc SE et (clks, now, perm) (RGet k) gs = map_option (map_prod GetR id) (GS_Get SE et (clks 0) k gs)"
| "serve_rpc SE et (clks, now, perm) (RDelete k) gs = map_option (map_prod DeleteR id) (GS_Delete SE et (clks 0) (clks 1) k gs)"
| "serve_rpc SE et (clks, now, perm) (RExists k) gs = map_option (map_prod ExistsR id) (GS_Exists SE et (clks 0) k gs)"
| "serve_rpc SE et (clks, now, perm) (RList p limit) gs = Some (map_prod ListR id (GS_List SE et perm now p limit gs))"
| "serve_rpc SE et (clks, now, perm) (RListKeys p limit) gs = Some (map_prod KeysR id (GS_ListKeys SE et perm p limit gs))"
| "serve_rpc SE et (clks, now, perm) (RBatchPut items) gs = map_option (map_prod BatchR id) (GS_BatchPut SE et clks items gs)"
| "serve_rpc SE et (clks, now, perm) (RBatchGet keys) gs = map_option (map_prod BatchGetR id) (GS_BatchGet SE clks now keys gs)"
| "serve_rpc SE et (clks, now, perm) (RBatchDelete keys) gs = map_option (map_prod BatchR id) (GS_BatchDelete SE et clks keys gs)"

text \<open>What a reply promises of the maps before and after.\<close>

primrec rpc_right :: "rpc \<Rightarrow> rpc_reply \<Rightarrow> (bytes \<rightharpoonup> bytes) \<Rightarrow> (bytes \<rightharpoonup> bytes) \<Rightarrow> bool" where
  "rpc_right (RPut k v) reply m m' \<longleftrightarrow>
     (case reply of PutR r \<Rightarrow> m' = (if ppr_Success r then m(k \<mapsto> content v) else m) \<and> (k = [] \<longrightarrow> \<not> ppr_Success r) | _ \<Rightarrow> False)"
| "rpc_right (RGet k) reply m m' \<longleftrightarrow>
     (case reply of
        GetR (Inl e) \<Rightarrow> m' = m \<and> k = []
      | GetR (Inr r) \<Rightarrow> m' = m \<and> k \<noteq> [] \<and>
          (if pgr_Found r then m k = Some (content (pgr_Value r)) else pgr_Error r = [] \<longrightarrow> m k = None)
      | _ \<Rightarrow> False)"
| "rpc_right (RDelete k) reply m m' \<longleftrightarrow>
     (case reply of
        DeleteR (Inl e) \<Rightarrow> m' = m \<and> k = []
      | DeleteR (Inr r) \<Rightarrow> k \<noteq> [] \<and> m' = (if pdr_Success r then m(k := None) else m) \<and> (pdr_Success r \<longrightarrow> pdr_Existed r = (m k \<noteq> None))
      | _ \<Rightarrow> False)"
| "rpc_right (RExists k) reply m m' \<longleftrightarrow>
     (case reply of
        ExistsR (Inl e) \<Rightarrow> m' = m \<and> k = []
      | ExistsR (Inr r) \<Rightarrow> m' = m \<and> k \<noteq> [] \<and> (per_Error r = [] \<longrightarrow> per_Exists r = (m k \<noteq> None))
      | _ \<Rightarrow> False)"
| "rpc_right (RList p limit) reply m m' \<longleftrightarrow>
     (case reply of
        ListR r \<Rightarrow> m' = m \<and> (plr_Error r = [] \<longrightarrow> lists_right p limit m (map pkv_Key (plr_Items r)) (plr_HasMore r)) \<and>
          (\<forall>item \<in> set (plr_Items r). m (pkv_Key item) = Some (content (pkv_Value item)))
      | _ \<Rightarrow> False)"
| "rpc_right (RListKeys p limit) reply m m' \<longleftrightarrow>
     (case reply of KeysR r \<Rightarrow> m' = m \<and> (pkr_Error r = [] \<longrightarrow> lists_right p limit m (pkr_Keys r) (pkr_HasMore r)) | _ \<Rightarrow> False)"
| "rpc_right (RBatchPut items) reply m m' \<longleftrightarrow> (case reply of BatchR r \<Rightarrow> batch_right pi_Key putItem items r m m' | _ \<Rightarrow> False)"
| "rpc_right (RBatchDelete keys) reply m m' \<longleftrightarrow>
     (case reply of BatchR r \<Rightarrow> batch_right (\<lambda>k. k) delKey keys r m m' | _ \<Rightarrow> False)"
| "rpc_right (RBatchGet keys) reply m m' \<longleftrightarrow>
     (case reply of
        BatchGetR r \<Rightarrow> m' = m \<and>
          list_all2 (\<lambda>k g. gr_Key g = k \<and> (gr_Found g \<longrightarrow> m k = Some (content (gr_Value g)))) keys (pbg_Results r)
      | _ \<Rightarrow> False)"

text \<open>A session is a sequence of requests, each served with its own readings and orders.\<close>

fun serve_rpcs :: "'s StorageEngine \<Rightarrow> (berror \<Rightarrow> string) \<Rightarrow> (serving \<times> rpc) list \<Rightarrow> 's GRPCServer \<Rightarrow> (rpc_reply list \<times> 's GRPCServer) option" where
  "serve_rpcs SE et [] gs = Some ([], gs)"
| "serve_rpcs SE et ((sv, q) # qs) gs = do {
     (r, gs) \<leftarrow> serve_rpc SE et sv q gs;
     (rs, gs) \<leftarrow> serve_rpcs SE et qs gs;
     Some (r # rs, gs)
   }"

fun rpcs_right :: "(serving \<times> rpc) list \<Rightarrow> rpc_reply list \<Rightarrow> (bytes \<rightharpoonup> bytes) \<Rightarrow> (bytes \<rightharpoonup> bytes) \<Rightarrow> bool" where
  "rpcs_right [] [] m m' \<longleftrightarrow> m' = m"
| "rpcs_right ((sv, q) # qs) (r # rs) m m' \<longleftrightarrow> (\<exists>m1. rpc_right q r m m1 \<and> rpcs_right qs rs m1 m')"
| "rpcs_right _ _ m m' \<longleftrightarrow> False"

definition any_order :: "serving \<Rightarrow> bool" where
  "any_order sv \<longleftrightarrow> (\<forall>l. mset (snd (snd sv) l) = mset l)"

lemma i32_i32: "i32 (i32 n + k) = i32 (n + k)"
  unfolding i32_def by (simp add: mod_simps algebra_simps)

context storage_engine
begin

lemma batchPutLoop_right:
  "sinv st \<Longrightarrow> \<exists>oks errs st'. batchPutLoop SE et clks i items (i32 n, errors) st =
       Some ((i32 (n + int (length (chosen items oks))), errors @ errs), st') \<and> sinv st' \<and>
     list_all2 (\<lambda>x ok. pi_Key x = [] \<longrightarrow> \<not> ok) items oks \<and> contents st' = fold putItem (chosen items oks) (contents st) \<and>
     map be_Key errs = map pi_Key (chosen items (map Not oks))"
proof (induction items arbitrary: i n errors st)
  case (Cons item items)
  show ?case
  proof (cases "pi_Key item = []")
    case True
    from Cons.IH [OF Cons.prems, of "Suc i" n "errors @ [\<lparr>be_Key = pi_Key item, be_Error = ''key cannot be empty''\<rparr>]"]
    obtain oks errs st' where "batchPutLoop SE et clks (Suc i) items (i32 n, errors @ [\<lparr>be_Key = pi_Key item, be_Error = ''key cannot be empty''\<rparr>]) st =
       Some ((i32 (n + int (length (chosen items oks))), (errors @ [\<lparr>be_Key = pi_Key item, be_Error = ''key cannot be empty''\<rparr>]) @ errs), st')"
      "sinv st'" "list_all2 (\<lambda>x ok. pi_Key x = [] \<longrightarrow> \<not> ok) items oks" "contents st' = fold putItem (chosen items oks) (contents st)"
      "map be_Key errs = map pi_Key (chosen items (map Not oks))" by blast
    then show ?thesis using True
      by (intro exI [of _ "False # oks"] exI [of _ "\<lparr>be_Key = pi_Key item, be_Error = ''key cannot be empty''\<rparr> # errs"] exI [of _ st']) simp
  next
    case False
    obtain e st1 where put: "se_Put SE (clks i) (pi_Key item) (pi_Value item) st = Some (e, st1)" "sinv st1"
      "contents st1 = (if e = None then putItem item (contents st) else contents st)"
      using put_law [OF Cons.prems] unfolding putItem_def by blast
    define errors1 where "errors1 = (case e of None \<Rightarrow> [] | Some err \<Rightarrow> [\<lparr>be_Key = pi_Key item, be_Error = error_text et err\<rparr>])"
    define n1 where "n1 = (if e = None then n + 1 else n)"
    have acc: "(case e of Some e \<Rightarrow> (i32 n, errors @ [\<lparr>be_Key = pi_Key item, be_Error = error_text et e\<rparr>]) | None \<Rightarrow> (i32 (i32 n + 1), errors)) =
        (i32 n1, errors @ errors1)" by (cases e) (simp_all add: n1_def errors1_def i32_i32)
    obtain oks errs st' where "batchPutLoop SE et clks (Suc i) items (i32 n1, errors @ errors1) st1 =
       Some ((i32 (n1 + int (length (chosen items oks))), (errors @ errors1) @ errs), st')"
      "sinv st'" "list_all2 (\<lambda>x ok. pi_Key x = [] \<longrightarrow> \<not> ok) items oks" "contents st' = fold putItem (chosen items oks) (contents st1)"
      "map be_Key errs = map pi_Key (chosen items (map Not oks))" using Cons.IH [OF put(2)] by blast
    then show ?thesis using False put acc
      by (intro exI [of _ "(e = None) # oks"] exI [of _ "errors1 @ errs"] exI [of _ st'])
        (cases e; simp add: n1_def errors1_def algebra_simps)
  qed
qed simp

lemma batchDeleteLoop_right:
  "sinv st \<Longrightarrow> \<exists>oks errs st'. batchDeleteLoop SE et clks i keys (i32 n, errors) st =
       Some ((i32 (n + int (length (chosen keys oks))), errors @ errs), st') \<and> sinv st' \<and>
     list_all2 (\<lambda>x ok. x = [] \<longrightarrow> \<not> ok) keys oks \<and> contents st' = fold delKey (chosen keys oks) (contents st) \<and>
     map be_Key errs = chosen keys (map Not oks)"
proof (induction keys arbitrary: i n errors st)
  case (Cons key keys)
  show ?case
  proof (cases "key = []")
    case True
    from Cons.IH [OF Cons.prems, of "Suc i" n "errors @ [\<lparr>be_Key = key, be_Error = ''key cannot be empty''\<rparr>]"]
    obtain oks errs st' where "batchDeleteLoop SE et clks (Suc i) keys (i32 n, errors @ [\<lparr>be_Key = key, be_Error = ''key cannot be empty''\<rparr>]) st =
       Some ((i32 (n + int (length (chosen keys oks))), (errors @ [\<lparr>be_Key = key, be_Error = ''key cannot be empty''\<rparr>]) @ errs), st')"
      "sinv st'" "list_all2 (\<lambda>x ok. x = [] \<longrightarrow> \<not> ok) keys oks" "contents st' = fold delKey (chosen keys oks) (contents st)"
      "map be_Key errs = chosen keys (map Not oks)" by blast
    then show ?thesis using True
      by (intro exI [of _ "False # oks"] exI [of _ "\<lparr>be_Key = key, be_Error = ''key cannot be empty''\<rparr> # errs"] exI [of _ st']) simp
  next
    case False
    obtain e st1 where del: "se_Delete SE (clks i) key st = Some (e, st1)" "sinv st1"
      "contents st1 = (if e = None then delKey key (contents st) else contents st)"
      using delete_law [OF Cons.prems] unfolding delKey_def by blast
    define errors1 where "errors1 = (case e of None \<Rightarrow> [] | Some err \<Rightarrow> [\<lparr>be_Key = key, be_Error = error_text et err\<rparr>])"
    define n1 where "n1 = (if e = None then n + 1 else n)"
    have acc: "(case e of Some e \<Rightarrow> (i32 n, errors @ [\<lparr>be_Key = key, be_Error = error_text et e\<rparr>]) | None \<Rightarrow> (i32 (i32 n + 1), errors)) =
        (i32 n1, errors @ errors1)" by (cases e) (simp_all add: n1_def errors1_def i32_i32)
    obtain oks errs st' where "batchDeleteLoop SE et clks (Suc i) keys (i32 n1, errors @ errors1) st1 =
       Some ((i32 (n1 + int (length (chosen keys oks))), (errors @ errors1) @ errs), st')"
      "sinv st'" "list_all2 (\<lambda>x ok. x = [] \<longrightarrow> \<not> ok) keys oks" "contents st' = fold delKey (chosen keys oks) (contents st1)"
      "map be_Key errs = chosen keys (map Not oks)" using Cons.IH [OF del(2)] by blast
    then show ?thesis using False del acc
      by (intro exI [of _ "(e = None) # oks"] exI [of _ "errors1 @ errs"] exI [of _ st'])
        (cases e; simp add: n1_def errors1_def algebra_simps)
  qed
qed simp

lemma batchGetLoop_right:
  "sinv st \<Longrightarrow> \<exists>results st'. batchGetLoop SE clks now i keys st = Some (results, st') \<and> sinv st' \<and> contents st' = contents st \<and>
     list_all2 (\<lambda>k g. gr_Key g = k \<and> (gr_Found g \<longrightarrow> contents st k = Some (content (gr_Value g)))) keys results"
proof (induction keys arbitrary: i st)
  case (Cons key keys)
  show ?case
  proof (cases "key = []")
    case True
    with Cons.IH [OF Cons.prems, of "Suc i"] show ?thesis by (auto simp: missResult_def)
  next
    case False
    obtain v e st1 where get: "se_Get SE (clks i) key st = Some ((v, e), st1)" "sinv st1" "contents st1 = contents st"
      "e = None \<longrightarrow> contents st key = Some (content v)" using get_law [OF Cons.prems] by blast
    with Cons.IH [OF get(2), of "Suc i"] False show ?thesis by (auto simp: missResult_def)
  qed
qed simp

lemma GS_Put_right:
  assumes "sinv (gs_storage gs)"
  shows "\<exists>r gs'. GS_Put SE et clk k v gs = Some (r, gs') \<and> sinv (gs_storage gs') \<and>
    rpc_right (RPut k v) (PutR r) (contents (gs_storage gs)) (contents (gs_storage gs'))"
proof (cases "k = []")
  case False
  obtain e st where "se_Put SE clk k v (gs_storage gs) = Some (e, st)" "sinv st"
    "contents st = (if e = None then (contents (gs_storage gs))(k \<mapsto> content v) else contents (gs_storage gs))" using put_law [OF assms] by blast
  then show ?thesis using False by (cases e) (simp_all add: GS_Put_def)
qed (use assms in \<open>simp add: GS_Put_def\<close>)

lemma GS_Get_right:
  assumes "sinv (gs_storage gs)" and texts: "\<And>e. et e \<noteq> []"
  shows "\<exists>r gs'. GS_Get SE et clk k gs = Some (r, gs') \<and> sinv (gs_storage gs') \<and>
    rpc_right (RGet k) (GetR r) (contents (gs_storage gs)) (contents (gs_storage gs'))"
proof (cases "k = []")
  case False
  obtain v e st where g: "se_Get SE clk k (gs_storage gs) = Some ((v, e), st)" "sinv st" "contents st = contents (gs_storage gs)"
    "e = None \<longrightarrow> contents (gs_storage gs) k = Some (content v)" "e = Some ErrKeyNotFound \<longrightarrow> contents (gs_storage gs) k = None"
    using get_law [OF assms(1)] by blast
  show ?thesis
  proof (cases e)
    case (Some err)
    then show ?thesis using False g texts by (cases err) (simp_all add: GS_Get_def notFoundResponse_def)
  qed (use False g in \<open>simp add: GS_Get_def\<close>)
qed (use assms in \<open>simp add: GS_Get_def emptyKey_def\<close>)

lemma GS_Delete_right:
  assumes "sinv (gs_storage gs)"
  shows "\<exists>r gs'. GS_Delete SE et clk clk' k gs = Some (r, gs') \<and> sinv (gs_storage gs') \<and>
    rpc_right (RDelete k) (DeleteR r) (contents (gs_storage gs)) (contents (gs_storage gs'))"
proof (cases "k = []")
  case False
  obtain b e st where x: "se_Exists SE clk k (gs_storage gs) = Some ((b, e), st)" "sinv st" "contents st = contents (gs_storage gs)"
    "e = None \<longrightarrow> b = (contents (gs_storage gs) k \<noteq> None)" using exists_law [OF assms] by blast
  obtain e' st' where d: "se_Delete SE clk' k st = Some (e', st')" "sinv st'"
    "contents st' = (if e' = None then (contents st)(k := None) else contents st)" using delete_law [OF x(2)] by blast
  show ?thesis using False x d by (cases e; cases e') (simp_all add: GS_Delete_def)
qed (use assms in \<open>simp add: GS_Delete_def emptyKey_def\<close>)

lemma error_text_nonempty: "(\<And>e. et e \<noteq> []) \<Longrightarrow> error_text et e \<noteq> []"
  by (cases e) simp_all

lemma GS_Exists_right:
  assumes "sinv (gs_storage gs)" and texts: "\<And>e. et e \<noteq> []"
  shows "\<exists>r gs'. GS_Exists SE et clk k gs = Some (r, gs') \<and> sinv (gs_storage gs') \<and>
    rpc_right (RExists k) (ExistsR r) (contents (gs_storage gs)) (contents (gs_storage gs'))"
proof (cases "k = []")
  case False
  obtain b e st where x: "se_Exists SE clk k (gs_storage gs) = Some ((b, e), st)" "sinv st" "contents st = contents (gs_storage gs)"
    "e = None \<longrightarrow> b = (contents (gs_storage gs) k \<noteq> None)" using exists_law [OF assms(1)] by blast
  show ?thesis using False x by (cases e) (simp_all add: GS_Exists_def error_text_nonempty [OF texts])
qed (use assms in \<open>simp add: GS_Exists_def emptyKey_def\<close>)

lemma GS_List_right:
  assumes "sinv (gs_storage gs)" and texts: "\<And>e. et e \<noteq> []" and perm: "\<And>l. mset (perm l) = mset l"
  shows "\<exists>r gs'. GS_List SE et perm clk p limit gs = (r, gs') \<and> sinv (gs_storage gs') \<and>
    rpc_right (RList p limit) (ListR r) (contents (gs_storage gs)) (contents (gs_storage gs'))"
proof -
  obtain l e st where l: "se_List SE p (gs_storage gs) = ((l, e), st)" "sinv st" "contents st = contents (gs_storage gs)"
    "e = None \<longrightarrow> gm_ok l \<and> (\<forall>k. map_option content (gm_get l k) = (if prefix p k then contents (gs_storage gs) k else None))"
    using list_law [OF assms(1)] by blast
  let ?it = "\<lambda>(i, key, val). \<lparr>pkv_Key = key, pkv_Value = val, pkv_CreatedAt = unixOf (clk i), pkv_ExpiresAt = 0\<rparr>"
  show ?thesis
  proof (cases e)
    case None
    let ?xs = "takeLimit limit 0 (perm l)"
    have r: "lists_right p limit (contents (gs_storage gs)) (map fst ?xs) (hasMore limit l)"
      and v: "\<And>k v. (k, v) \<in> set ?xs \<Longrightarrow> contents (gs_storage gs) k = Some (content v)"
      using listing_right [OF _ _ perm] l(4) None by blast+
    have "map pkv_Key (map ?it (enumerate 0 ?xs)) = map (fst \<circ> snd) (enumerate 0 ?xs)" by (simp add: case_prod_beta)
    also have "\<dots> = map fst ?xs" by (metis map_map map_snd_enumerate)
    finally have keys: "map pkv_Key (map ?it (enumerate 0 ?xs)) = map fst ?xs" .
    have "contents (gs_storage gs) (pkv_Key item) = Some (content (pkv_Value item))" if item: "item \<in> set (map ?it (enumerate 0 ?xs))" for item
    proof -
      obtain x where x: "x \<in> set (enumerate 0 ?xs)" "item = ?it x" using item unfolding set_map by (rule imageE)
      then have "snd x \<in> set ?xs" by (metis imageI map_snd_enumerate set_map)
      then show ?thesis using v [of "fst (snd x)" "snd (snd x)"] x(2) by (simp add: case_prod_beta)
    qed
    then show ?thesis using l None r by (simp add: GS_List_def keys del: map_map list.map_comp)
  qed (use l in \<open>simp add: GS_List_def error_text_nonempty [OF texts]\<close>)
qed

lemma GS_ListKeys_right:
  assumes "sinv (gs_storage gs)" and texts: "\<And>e. et e \<noteq> []" and perm: "\<And>l. mset (perm l) = mset l"
  shows "\<exists>r gs'. GS_ListKeys SE et perm p limit gs = (r, gs') \<and> sinv (gs_storage gs') \<and>
    rpc_right (RListKeys p limit) (KeysR r) (contents (gs_storage gs)) (contents (gs_storage gs'))"
proof -
  obtain l e st where l: "se_List SE p (gs_storage gs) = ((l, e), st)" "sinv st" "contents st = contents (gs_storage gs)"
    "e = None \<longrightarrow> gm_ok l \<and> (\<forall>k. map_option content (gm_get l k) = (if prefix p k then contents (gs_storage gs) k else None))"
    using list_law [OF assms(1)] by blast
  show ?thesis
  proof (cases e)
    case None
    have "lists_right p limit (contents (gs_storage gs)) (map fst (takeLimit limit 0 (perm l))) (hasMore limit l)"
      using listing_right(1) [OF _ _ perm] l(4) None by blast
    moreover have "map fst (takeLimit limit 0 (perm l)) = takeLimit limit 0 (map fst (perm l))" by (simp add: takeLimit_take take_map)
    ultimately show ?thesis using l None by (simp add: GS_ListKeys_def)
  qed (use l in \<open>simp add: GS_ListKeys_def error_text_nonempty [OF texts]\<close>)
qed

lemma GS_BatchPut_right:
  assumes "sinv (gs_storage gs)"
  shows "\<exists>r gs'. GS_BatchPut SE et clks items gs = Some (r, gs') \<and> sinv (gs_storage gs') \<and>
    rpc_right (RBatchPut items) (BatchR r) (contents (gs_storage gs)) (contents (gs_storage gs'))"
proof -
  have "i32 0 = 0" by (simp add: i32_def)
  with batchPutLoop_right [OF assms, of et clks 0 items 0 "[]"] obtain oks errs st' where
    "batchPutLoop SE et clks 0 items (0, []) (gs_storage gs) = Some ((i32 (int (length (chosen items oks))), errs), st')" "sinv st'"
    "list_all2 (\<lambda>x ok. pi_Key x = [] \<longrightarrow> \<not> ok) items oks" "contents st' = fold putItem (chosen items oks) (contents (gs_storage gs))"
    "map be_Key errs = map pi_Key (chosen items (map Not oks))" by auto
  then show ?thesis by (auto simp: GS_BatchPut_def batchResponse_def batch_right_def)
qed

lemma GS_BatchDelete_right:
  assumes "sinv (gs_storage gs)"
  shows "\<exists>r gs'. GS_BatchDelete SE et clks keys gs = Some (r, gs') \<and> sinv (gs_storage gs') \<and>
    rpc_right (RBatchDelete keys) (BatchR r) (contents (gs_storage gs)) (contents (gs_storage gs'))"
proof -
  have "i32 0 = 0" by (simp add: i32_def)
  with batchDeleteLoop_right [OF assms, of et clks 0 keys 0 "[]"] obtain oks errs st' where
    "batchDeleteLoop SE et clks 0 keys (0, []) (gs_storage gs) = Some ((i32 (int (length (chosen keys oks))), errs), st')" "sinv st'"
    "list_all2 (\<lambda>x ok. x = [] \<longrightarrow> \<not> ok) keys oks" "contents st' = fold delKey (chosen keys oks) (contents (gs_storage gs))"
    "map be_Key errs = chosen keys (map Not oks)" by auto
  then show ?thesis by (auto simp: GS_BatchDelete_def batchResponse_def batch_right_def)
qed

lemma GS_BatchGet_right:
  assumes "sinv (gs_storage gs)"
  shows "\<exists>r gs'. GS_BatchGet SE clks now keys gs = Some (r, gs') \<and> sinv (gs_storage gs') \<and>
    rpc_right (RBatchGet keys) (BatchGetR r) (contents (gs_storage gs)) (contents (gs_storage gs'))"
proof -
  obtain results st' where "batchGetLoop SE clks now 0 keys (gs_storage gs) = Some (results, st')" "sinv st'" "contents st' = contents (gs_storage gs)"
    "list_all2 (\<lambda>k g. gr_Key g = k \<and> (gr_Found g \<longrightarrow> contents (gs_storage gs) k = Some (content (gr_Value g)))) keys results"
    using batchGetLoop_right [OF assms] by blast
  then show ?thesis by (simp add: GS_BatchGet_def)
qed

lemma serve_rpc_right:
  assumes s: "sinv (gs_storage gs)" and texts: "\<And>e. et e \<noteq> []" and perm: "\<And>l. mset (perm l) = mset l"
  shows "\<exists>r gs'. serve_rpc SE et (clks, now, perm) q gs = Some (r, gs') \<and> sinv (gs_storage gs') \<and>
    rpc_right q r (contents (gs_storage gs)) (contents (gs_storage gs'))"
proof (cases q)
  case (RPut k v)
  then show ?thesis using GS_Put_right [OF s, of et "clks 0" k v] by (auto simp del: rpc_right.simps)
next
  case (RGet k)
  then show ?thesis using GS_Get_right [OF s, where et = et and clk = "clks 0" and k = k] texts by (auto simp del: rpc_right.simps)
next
  case (RDelete k)
  then show ?thesis using GS_Delete_right [OF s, of et "clks 0" "clks 1" k] by (auto simp del: rpc_right.simps)
next
  case (RExists k)
  then show ?thesis using GS_Exists_right [OF s, where et = et and clk = "clks 0" and k = k] texts by (auto simp del: rpc_right.simps)
next
  case (RList p limit)
  then show ?thesis using GS_List_right [OF s, where et = et and perm = perm and clk = now and p = p and limit = limit] texts perm by (auto simp del: rpc_right.simps)
next
  case (RListKeys p limit)
  then show ?thesis using GS_ListKeys_right [OF s, where et = et and perm = perm and p = p and limit = limit] texts perm by (auto simp del: rpc_right.simps)
next
  case (RBatchPut items)
  then show ?thesis using GS_BatchPut_right [OF s, of et clks items] by (auto simp del: rpc_right.simps)
next
  case (RBatchGet keys)
  then show ?thesis using GS_BatchGet_right [OF s, of clks now keys] by (auto simp del: rpc_right.simps)
next
  case (RBatchDelete keys)
  then show ?thesis using GS_BatchDelete_right [OF s, of et clks keys] by (auto simp del: rpc_right.simps)
qed

lemma serve_rpcs_right:
  assumes texts: "\<And>e. et e \<noteq> []"
  shows "sinv (gs_storage gs) \<Longrightarrow> (\<And>q. q \<in> set qs \<Longrightarrow> any_order (fst q)) \<Longrightarrow>
    \<exists>rs gs'. serve_rpcs SE et qs gs = Some (rs, gs') \<and> sinv (gs_storage gs') \<and>
      rpcs_right qs rs (contents (gs_storage gs)) (contents (gs_storage gs'))"
proof (induction qs arbitrary: gs)
  case (Cons x qs)
  obtain clks now perm q where x: "x = ((clks, now, perm), q)" by (metis surj_pair)
  have perm: "mset (perm l) = mset l" for l using Cons.prems(2) [of x] by (simp add: any_order_def x)
  obtain r gs1 where r: "serve_rpc SE et (clks, now, perm) q gs = Some (r, gs1)" "sinv (gs_storage gs1)"
    "rpc_right q r (contents (gs_storage gs)) (contents (gs_storage gs1))"
    using serve_rpc_right [of gs et perm clks now q, OF Cons.prems(1)] texts perm by blast
  obtain rs gs' where "serve_rpcs SE et qs gs1 = Some (rs, gs')" "sinv (gs_storage gs')"
    "rpcs_right qs rs (contents (gs_storage gs1)) (contents (gs_storage gs'))"
    using Cons.IH [OF r(2)] Cons.prems(2) by auto
  with r show ?case by (intro exI [of _ "r # rs"] exI [of _ gs'] conjI) (auto simp: x simp del: serve_rpc.simps)
qed simp

end

end
