(* ===== verification/KV_Service.thy ===== *)
theory KV_Service
  imports Cached_Storage GRPC_Server
begin

text \<open>
  The service as it is deployed: the gRPC handlers (\<open>GRPC_Server\<close>) over the cached storage engine (\<open>Cached_Storage\<close>) over BadgerDB. The
  contract of a storage engine, which the cached engine meets, carries the lemmas about the handlers over.
\<close>

lemmas cached_rpcs_right = storage_engine.serve_rpcs_right [OF ceng.cached.storage_engine_axioms]


definition sampleQuery :: "(serving \<times> rpc) list" where
  "sampleQuery = map (Pair (\<lambda>i j. 0, \<lambda>i. 0, rev))
     [RPut ''ab'' (Some ''1''), RBatchPut [\<lparr>pi_Key = ''ac'', pi_Value = Some ''2'', pi_TtlSeconds = 0\<rparr>, \<lparr>pi_Key = [], pi_Value = None, pi_TtlSeconds = 0\<rparr>],
      RListKeys ''a'' 1, RDelete ''ab'', RGet ''ab'']"


end
