(* ===== verification/Json.thy ===== *)
theory Json
  imports Json_Text
begin

text \<open>
  JSON documents as Go's \<^verbatim>\<open>encoding/json\<close> writes and reads them: the compact form of
  \<^verbatim>\<open>json.Marshal\<close> and the two-space form of \<^verbatim>\<open>json.MarshalIndent\<close>, a lexer and a parser, and
  the theorem that parsing either form gives the document back. A number is kept as its
  literal, as the Go decoder does until it knows the type of the field. The depth limit of
  the Go decoder (10,000) is not modelled.
\<close>

datatype json = JNull | JBool bool | JNum string | JStr string | JArr "json list" | JObj "(string \<times> json) list"

datatype token = TLBrace | TRBrace | TLBrack | TRBrack | TColon | TComma | TNull | TTrue | TFalse
  | TNum string | TStr string

section \<open>Lexing\<close>

definition is_ws :: "char \<Rightarrow> bool" where
  "is_ws c = (byte c = 32 \<or> byte c = 9 \<or> byte c = 10 \<or> byte c = 13)"

definition is_numch :: "char \<Rightarrow> bool" where
  "is_numch c = (is_digit c \<or> c = CHR ''-'' \<or> c = CHR ''+'' \<or> c = CHR ''.'' \<or> c = CHR ''e'' \<or> c = CHR ''E'')"

text \<open>One or more digits at the front, dropped.\<close>

definition skip_digits :: "string \<Rightarrow> string option" where
  "skip_digits s = (case s of c # cs \<Rightarrow> if is_digit c then Some (dropWhile is_digit cs) else None | [] \<Rightarrow> None)"

definition skip_int :: "string \<Rightarrow> string option" where
  "skip_int s = (case s of c # cs \<Rightarrow> if c = digit 0 then Some cs else skip_digits s | [] \<Rightarrow> None)"

definition skip_frac :: "string \<Rightarrow> string option" where
  "skip_frac s = (case s of c # cs \<Rightarrow> if c = CHR ''.'' then skip_digits cs else Some s | [] \<Rightarrow> Some [])"

definition skip_exp :: "string \<Rightarrow> string option" where
  "skip_exp s =
     (case s of c # cs \<Rightarrow>
        if c = CHR ''e'' \<or> c = CHR ''E''
        then skip_digits (case cs of d # ds \<Rightarrow> if d = CHR ''+'' \<or> d = CHR ''-'' then ds else cs | [] \<Rightarrow> [])
        else Some s
      | [] \<Rightarrow> Some [])"

definition is_number :: "string \<Rightarrow> bool" where
  "is_number s =
     ((let s = (case s of c # cs \<Rightarrow> if c = CHR ''-'' then cs else s | [] \<Rightarrow> [])
       in skip_int s \<bind> skip_frac \<bind> skip_exp) = Some [])"

definition punct :: "char \<Rightarrow> token option" where
  "punct c =
     (if byte c = 0x7B then Some TLBrace else if byte c = 0x7D then Some TRBrace
      else if byte c = 0x5B then Some TLBrack else if byte c = 0x5D then Some TRBrack
      else if byte c = 0x3A then Some TColon else if byte c = 0x2C then Some TComma else None)"

definition keyword :: "bytes \<Rightarrow> (token \<times> nat) option" where
  "keyword s =
     (if take 4 s = ''null'' then Some (TNull, 4) else if take 4 s = ''true'' then Some (TTrue, 4)
      else if take 5 s = ''false'' then Some (TFalse, 5) else None)"

lemma prepend_Some: "prepend p r = Some (t, s') \<Longrightarrow> \<exists>t'. r = Some (t', s')"
  by (auto simp: prepend_def)

lemma dec_body_shorter: "dec_body s = Some (t, s') \<Longrightarrow> length s' < length s"
proof (induction s arbitrary: t rule: dec_body.induct)
  case (1 s)
  show ?case
  proof (cases s)
    case Nil
    then show ?thesis using "1.prems" by (simp add: dec_body.simps)
  next
    case (Cons c cs)
    show ?thesis
      using "1.prems" "1.IH" [OF Cons] unfolding dec_body.simps [of s]
      by (fastforce simp: Cons split: if_splits list.splits option.splits
        dest!: prepend_Some dest: rune_at_shorter)
  qed
qed

function lex :: "bytes \<Rightarrow> token list option" where
  "lex s =
     (case s of [] \<Rightarrow> Some []
      | c # cs \<Rightarrow>
          if is_ws c then lex cs
          else case punct c of
            Some t \<Rightarrow> map_option (Cons t) (lex cs)
          | None \<Rightarrow>
              if byte c = 0x22 then
                (case dec_body cs of None \<Rightarrow> None | Some (t, cs') \<Rightarrow> map_option (Cons (TStr t)) (lex cs'))
              else if c = CHR ''-'' \<or> is_digit c then
                (if is_number (takeWhile is_numch s)
                 then map_option (Cons (TNum (takeWhile is_numch s))) (lex (dropWhile is_numch cs)) else None)
              else case keyword s of
                None \<Rightarrow> None
              | Some (t, n) \<Rightarrow> map_option (Cons t) (lex (drop n s)))"
  by auto
termination
  by (relation "measure length")
    (auto simp: keyword_def le_imp_less_Suc length_dropWhile_le split: if_splits dest!: dec_body_shorter)

declare lex.simps [simp del]

section \<open>Parsing\<close>

text \<open>
  Recursive descent over the tokens, with the number of tokens as fuel: every level of
  nesting costs two steps and has an opening and a closing token, so the fuel never runs out
  on a document (theorem \<open>parse_toks\<close> below shows it for every document).
\<close>

fun parseV :: "nat \<Rightarrow> token list \<Rightarrow> (json \<times> token list) option"
  and parseElems :: "nat \<Rightarrow> token list \<Rightarrow> (json list \<times> token list) option"
  and parseMembers :: "nat \<Rightarrow> token list \<Rightarrow> ((string \<times> json) list \<times> token list) option" where
  "parseV 0 ts = None"
| "parseV (Suc n) ts =
     (case ts of
        TNull # ts \<Rightarrow> Some (JNull, ts)
      | TTrue # ts \<Rightarrow> Some (JBool True, ts)
      | TFalse # ts \<Rightarrow> Some (JBool False, ts)
      | TNum l # ts \<Rightarrow> Some (JNum l, ts)
      | TStr s # ts \<Rightarrow> Some (JStr s, ts)
      | TLBrack # TRBrack # ts \<Rightarrow> Some (JArr [], ts)
      | TLBrack # ts \<Rightarrow> map_option (map_prod JArr id) (parseElems n ts)
      | TLBrace # TRBrace # ts \<Rightarrow> Some (JObj [], ts)
      | TLBrace # ts \<Rightarrow> map_option (map_prod JObj id) (parseMembers n ts)
      | _ \<Rightarrow> None)"
| "parseElems 0 ts = None"
| "parseElems (Suc n) ts =
     (case parseV n ts of
        Some (v, TComma # ts) \<Rightarrow> map_option (map_prod (Cons v) id) (parseElems n ts)
      | Some (v, TRBrack # ts) \<Rightarrow> Some ([v], ts)
      | _ \<Rightarrow> None)"
| "parseMembers 0 ts = None"
| "parseMembers (Suc n) ts =
     (case ts of
        TStr k # TColon # ts \<Rightarrow>
          (case parseV n ts of
             Some (v, TComma # ts) \<Rightarrow> map_option (map_prod (Cons (k, v)) id) (parseMembers n ts)
           | Some (v, TRBrace # ts) \<Rightarrow> Some ([(k, v)], ts)
           | _ \<Rightarrow> None)
      | _ \<Rightarrow> None)"

definition json_parse :: "bytes \<Rightarrow> json option" where
  "json_parse s =
     (case lex s of None \<Rightarrow> None
      | Some ts \<Rightarrow> (case parseV (length ts) ts of Some (j, []) \<Rightarrow> Some j | _ \<Rightarrow> None))"

section \<open>Printing\<close>

definition quote :: "string \<Rightarrow> bytes" where
  "quote s = CHR 0x22 # enc_body s @ [CHR 0x22]"

definition nl :: "bool \<Rightarrow> nat \<Rightarrow> bytes" where
  "nl ind l = (if ind then CHR 0x0A # replicate (2 * l) CHR 0x20 else [])"

definition colon :: "bool \<Rightarrow> bytes" where
  "colon ind = (if ind then [CHR '':'', CHR 0x20] else [CHR '':''])"

fun render :: "bool \<Rightarrow> nat \<Rightarrow> json \<Rightarrow> bytes"
  and renderElems :: "bool \<Rightarrow> nat \<Rightarrow> json list \<Rightarrow> bytes"
  and renderMembers :: "bool \<Rightarrow> nat \<Rightarrow> (string \<times> json) list \<Rightarrow> bytes" where
  "render ind l JNull = ''null''"
| "render ind l (JBool b) = (if b then ''true'' else ''false'')"
| "render ind l (JNum n) = n"
| "render ind l (JStr s) = quote s"
| "render ind l (JArr []) = ''[]''"
| "render ind l (JArr (v # vs)) =
     CHR ''['' # nl ind (Suc l) @ render ind (Suc l) v @ renderElems ind (Suc l) vs @ nl ind l @ [CHR '']'']"
| "render ind l (JObj []) = [CHR 0x7B, CHR 0x7D]"
| "render ind l (JObj ((k, v) # ms)) =
     CHR 0x7B # nl ind (Suc l) @ quote k @ colon ind @ render ind (Suc l) v @ renderMembers ind (Suc l) ms @
     nl ind l @ [CHR 0x7D]"
| "renderElems ind l [] = []"
| "renderElems ind l (v # vs) = CHR '','' # nl ind l @ render ind l v @ renderElems ind l vs"
| "renderMembers ind l [] = []"
| "renderMembers ind l ((k, v) # ms) =
     CHR '','' # nl ind l @ quote k @ colon ind @ render ind l v @ renderMembers ind l ms"

definition marshal :: "json \<Rightarrow> bytes" where
  "marshal j = render False 0 j"

definition marshalIndent :: "json \<Rightarrow> bytes" where
  "marshalIndent j = render True 0 j"

section \<open>The round trip\<close>

fun toks :: "json \<Rightarrow> token list"
  and toksElems :: "json list \<Rightarrow> token list"
  and toksMembers :: "(string \<times> json) list \<Rightarrow> token list" where
  "toks JNull = [TNull]"
| "toks (JBool b) = [if b then TTrue else TFalse]"
| "toks (JNum n) = [TNum n]"
| "toks (JStr s) = [TStr s]"
| "toks (JArr []) = [TLBrack, TRBrack]"
| "toks (JArr (v # vs)) = TLBrack # toks v @ toksElems vs @ [TRBrack]"
| "toks (JObj []) = [TLBrace, TRBrace]"
| "toks (JObj ((k, v) # ms)) = TLBrace # TStr k # TColon # toks v @ toksMembers ms @ [TRBrace]"
| "toksElems [] = []"
| "toksElems (v # vs) = TComma # toks v @ toksElems vs"
| "toksMembers [] = []"
| "toksMembers ((k, v) # ms) = TComma # TStr k # TColon # toks v @ toksMembers ms"

fun json_ok :: "json \<Rightarrow> bool"
  and elems_ok :: "json list \<Rightarrow> bool"
  and members_ok :: "(string \<times> json) list \<Rightarrow> bool" where
  "json_ok (JNum n) = (is_number n \<and> list_all is_numch n)"
| "json_ok (JStr s) = utf8_valid s"
| "json_ok (JArr vs) = elems_ok vs"
| "json_ok (JObj ms) = members_ok ms"
| "json_ok _ = True"
| "elems_ok [] = True"
| "elems_ok (v # vs) = (json_ok v \<and> elems_ok vs)"
| "members_ok [] = True"
| "members_ok ((k, v) # ms) = (utf8_valid k \<and> json_ok v \<and> members_ok ms)"

lemma parseV_arr: "parseV (Suc n) (TLBrack # toks v @ ts) = map_option (map_prod JArr id) (parseElems n (toks v @ ts))"
  by (cases v rule: toks.cases) auto

lemma parse_toks:
  "length (toks j) \<le> n \<Longrightarrow> parseV n (toks j @ ts) = Some (j, ts)"
  "(\<And>n ts. length (toks v) \<le> n \<Longrightarrow> parseV n (toks v @ ts) = Some (v, ts)) \<Longrightarrow>
   length (toks v) + length (toksElems vs) < n \<Longrightarrow>
   parseElems n (toks v @ toksElems vs @ TRBrack # ts) = Some (v # vs, ts)"
  "(\<And>n ts. length (toks v) \<le> n \<Longrightarrow> parseV n (toks v @ ts) = Some (v, ts)) \<Longrightarrow>
   length (toks v) + length (toksMembers ms) < n \<Longrightarrow>
   parseMembers n (TStr k # TColon # toks v @ toksMembers ms @ TRBrace # ts) = Some ((k, v) # ms, ts)"
proof (induction j and vs and ms arbitrary: n ts and v n ts and k v n ts
    rule: toks_toksElems_toksMembers.induct)
  case (6 v vs)
  then obtain m where n: "n = Suc m" by (cases n) auto
  have "parseElems m (toks v @ toksElems vs @ TRBrack # ts) = Some (v # vs, ts)"
    using 6 n by simp
  then show ?case
    using parseV_arr [of m v "toksElems vs @ TRBrack # ts"] by (simp add: n del: parseV.simps)
next
  case (8 k v ms)
  then obtain m where n: "n = Suc m" by (cases n) auto
  have "parseMembers m (TStr k # TColon # toks v @ toksMembers ms @ TRBrace # ts) = Some ((k, v) # ms, ts)"
    using 8 n by simp
  then show ?case by (simp add: n)
next
  case 9
  then obtain m where n: "n = Suc m" by (cases n) auto
  then show ?case using 9(1) [of m "TRBrack # ts"] 9(2) by simp
next
  case (10 v' vs)
  then obtain m where n: "n = Suc m" by (cases n) auto
  have "parseElems m (toks v' @ toksElems vs @ TRBrack # ts) = Some (v' # vs, ts)"
    using 10 n by simp
  then show ?case using 10(3) [of m "TComma # toks v' @ toksElems vs @ TRBrack # ts"] 10(4) n by simp
next
  case 11
  then obtain m where n: "n = Suc m" by (cases n) auto
  then show ?case using 11(1) [of m "TRBrace # ts"] 11(2) by simp
next
  case (12 k' v' ms)
  then obtain m where n: "n = Suc m" by (cases n) auto
  have "parseMembers m (TStr k' # TColon # toks v' @ toksMembers ms @ TRBrace # ts) = Some ((k', v') # ms, ts)"
    using 12 n by simp
  then show ?case
    using 12(3) [of m "TComma # TStr k' # TColon # toks v' @ toksMembers ms @ TRBrace # ts"] 12(4) n by simp
next
  case 1
  then show ?case by (cases n) simp_all
next
  case (2 b)
  then show ?case by (cases n) simp_all
next
  case (3 l)
  then show ?case by (cases n) simp_all
next
  case (4 t)
  then show ?case by (cases n) simp_all
next
  case 5
  then show ?case by (cases n) simp_all
next
  case 7
  then show ?case by (cases n) simp_all
qed

text \<open>Lexing what was printed.\<close>

lemma lex_ws: "is_ws c \<Longrightarrow> lex (c # s) = lex s"
  by (subst lex.simps) simp

lemma lex_nl [simp]: "lex (nl ind l @ s) = lex s"
proof -
  have "lex (replicate n CHR 0x20 @ s) = lex s" for n
    by (induction n) (simp_all add: lex_ws is_ws_def)
  then show ?thesis by (simp add: nl_def lex_ws is_ws_def)
qed

lemma lex_punct: "punct c = Some t \<Longrightarrow> lex (c # s) = map_option (Cons t) (lex s)"
  by (subst lex.simps) (auto simp: punct_def is_ws_def split: if_splits)

lemma lex_colon [simp]: "lex (colon ind @ s) = map_option (Cons TColon) (lex s)"
  by (simp add: colon_def lex_punct punct_def lex_ws is_ws_def)

lemma lex_quote: "utf8_valid k \<Longrightarrow> lex (quote k @ s) = map_option (Cons (TStr k)) (lex s)"
  unfolding quote_def by (subst lex.simps) (simp add: punct_def is_ws_def string_body_round_trip)

lemma is_number_hd: "is_number n \<Longrightarrow> \<exists>c cs. n = c # cs \<and> (c = CHR ''-'' \<or> is_digit c)"
  by (cases n) (auto simp: is_number_def skip_int_def skip_digits_def split: if_splits)

lemma punct_digit: "c = CHR ''-'' \<or> is_digit c \<Longrightarrow> punct c = None \<and> \<not> is_ws c \<and> byte c \<noteq> 0x22"
proof -
  assume "c = CHR ''-'' \<or> is_digit c"
  then have "byte c = 45 \<or> 48 \<le> byte c \<and> byte c \<le> 57" by (auto simp: is_digit_def)
  then have "byte c \<notin> {123, 125, 91, 93, 58, 44, 32, 9, 10, 13, 34}" by auto
  then show ?thesis by (simp add: punct_def is_ws_def)
qed

lemma lex_num:
  assumes "is_number n" "list_all is_numch n" "s = [] \<or> \<not> is_numch (hd s)"
  shows "lex (n @ s) = map_option (Cons (TNum n)) (lex s)"
proof -
  obtain c cs where n: "n = c # cs" "c = CHR ''-'' \<or> is_digit c" using is_number_hd [OF assms(1)] by blast
  have all: "\<And>x. x \<in> set n \<Longrightarrow> is_numch x" using assms(2) by (simp add: list_all_iff)
  have tw: "takeWhile is_numch (n @ s) = n" "dropWhile is_numch (cs @ s) = s"
    using assms(3) all n by (cases s; simp add: takeWhile_append dropWhile_append)+
  show ?thesis
    unfolding n(1) append_Cons
    by (subst lex.simps) (use n punct_digit [OF n(2)] tw assms(1) in simp)
qed

lemma lex_keyword:
  "lex (''null'' @ s) = map_option (Cons TNull) (lex s)"
  "lex (''true'' @ s) = map_option (Cons TTrue) (lex s)"
  "lex (''false'' @ s) = map_option (Cons TFalse) (lex s)"
  by (subst lex.simps, simp add: keyword_def punct_def is_ws_def is_digit_def)+

lemmas lex_kw = lex_keyword [simplified]

definition sep :: "bytes \<Rightarrow> bool" where
  "sep s = (s = [] \<or> \<not> is_numch (hd s))"

lemma sep_simps [simp]:
  "sep []" "sep (CHR '','' # s)" "sep (CHR '']'' # s)" "sep (CHR 0x7D # s)"
  by (simp_all add: sep_def is_numch_def is_digit_def)

lemma sep_nl: "sep s \<Longrightarrow> sep (nl ind l @ s)"
  by (simp add: sep_def nl_def is_numch_def is_digit_def)

lemma sep_elems: "sep s \<Longrightarrow> sep (renderElems ind l vs @ s)"
  by (cases vs) simp_all

lemma sep_members: "sep s \<Longrightarrow> sep (renderMembers ind l ms @ s)"
  by (cases ms) auto

lemmas lex_punct_simps [simp] =
  lex_punct [of "CHR '',''" TComma] lex_punct [of "CHR ''[''" TLBrack] lex_punct [of "CHR '']''" TRBrack]
  lex_punct [of "CHR 0x7B" TLBrace] lex_punct [of "CHR 0x7D" TRBrace]

lemma punct_simps [simp]:
  "punct CHR '','' = Some TComma" "punct CHR ''['' = Some TLBrack" "punct CHR '']'' = Some TRBrack"
  "punct CHR 0x7B = Some TLBrace" "punct CHR 0x7D = Some TRBrace"
  by (simp_all add: punct_def)

lemma append_fun: "(@) [] = (\<lambda>r. r)" "(@) (x # xs) = (\<lambda>r. x # xs @ r)" "(@) (xs @ ys) = (\<lambda>r. xs @ ys @ r)"
  by auto

lemma lex_render:
  "json_ok j \<Longrightarrow> sep s \<Longrightarrow> lex (render ind l j @ s) = map_option (\<lambda>r. toks j @ r) (lex s)"
  "elems_ok vs \<Longrightarrow> sep s \<Longrightarrow> lex (renderElems ind l vs @ s) = map_option (\<lambda>r. toksElems vs @ r) (lex s)"
  "members_ok ms \<Longrightarrow> sep s \<Longrightarrow> lex (renderMembers ind l ms @ s) = map_option (\<lambda>r. toksMembers ms @ r) (lex s)"
proof (induction ind l j and ind l vs and ind l ms arbitrary: s and s and s
    rule: render_renderElems_renderMembers.induct)
  case (3 ind l n)
  then show ?case by (simp add: append_fun lex_num sep_def option.map_comp comp_def)
qed (simp_all add: append_fun lex_quote lex_kw sep_nl sep_elems sep_members option.map_comp comp_def option.map_ident)

lemma json_parse_render:
  assumes "json_ok j"
  shows "json_parse (render ind l j) = Some j"
proof -
  have "lex (render ind l j) = Some (toks j)"
    using lex_render(1) [OF assms, of "[]" ind l] by (simp add: lex.simps [of "[]"])
  then show ?thesis using parse_toks(1) [of j "length (toks j)" "[]"] by (simp add: json_parse_def)
qed

theorem json_round_trip:
  assumes "json_ok j"
  shows "json_parse (marshal j) = Some j \<and> json_parse (marshalIndent j) = Some j"
  by (simp add: marshal_def marshalIndent_def json_parse_render [OF assms])

end
