(* ===== verification/Consensus_Codec.thy ===== *)
theory Consensus_Codec
  imports Json
begin

text \<open>
  The structs of \<^verbatim>\<open>src/internal/consensus\<close> and \<^verbatim>\<open>src/proto/cluster\<close> that cross a JSON boundary,
  and their \<^verbatim>\<open>encoding/json\<close> codecs by the struct tags: operations in log entries, the
  persisted term and vote, the log's metadata file and the log entries themselves (with
  their payload in base64). Each codec comes with its round trip; a string field survives it
  exactly when it is valid UTF-8.
\<close>

record LogEntry =
  le_Index :: int
  le_Term :: int
  le_Type :: string
  le_Data :: bytes
  le_Timestamp :: int

record Operation =
  op_Type :: string
  op_Key :: string
  op_Value :: string
  op_Timestamp :: int

record PersistentStateData =
  pd_CurrentTerm :: int
  pd_VotedFor :: string

record LogMetadata =
  lm_FirstIndex :: int
  lm_LastIndex :: int
  lm_CompactTo :: int

section \<open>Base64\<close>

definition b64_char :: "nat \<Rightarrow> char" where
  "b64_char k =
     (if k < 26 then char_of (65 + k) else if k < 52 then char_of (71 + k)
      else if k < 62 then char_of (k - 4) else if k = 62 then CHR ''+'' else CHR ''/'')"

definition b64_val :: "char \<Rightarrow> nat option" where
  "b64_val c =
     (if 65 \<le> byte c \<and> byte c \<le> 90 then Some (byte c - 65)
      else if 97 \<le> byte c \<and> byte c \<le> 122 then Some (byte c - 71)
      else if 48 \<le> byte c \<and> byte c \<le> 57 then Some (byte c + 4)
      else if byte c = 43 then Some 62 else if byte c = 47 then Some 63 else None)"

fun b64_enc :: "bytes \<Rightarrow> string" where
  "b64_enc (a # b # c # s) =
     b64_char (byte a div 4) # b64_char (byte a mod 4 * 16 + byte b div 16) #
     b64_char (byte b mod 16 * 4 + byte c div 64) # b64_char (byte c mod 64) # b64_enc s"
| "b64_enc [a, b] = [b64_char (byte a div 4), b64_char (byte a mod 4 * 16 + byte b div 16),
     b64_char (byte b mod 16 * 4), CHR ''='']"
| "b64_enc [a] = [b64_char (byte a div 4), b64_char (byte a mod 4 * 16), CHR ''='', CHR ''='']"
| "b64_enc [] = []"

text \<open>Decoding skips line breaks; padding is only accepted at the end.\<close>

fun b64_groups :: "string \<Rightarrow> bytes option" where
  "b64_groups [] = Some []"
| "b64_groups (p # q # r # t # s) =
     (if s = [] \<and> t = CHR ''='' then
        (if r = CHR ''='' then do {
           p \<leftarrow> b64_val p; q \<leftarrow> b64_val q;
           Some [char_of (p * 4 + q div 16)]
         } else do {
           p \<leftarrow> b64_val p; q \<leftarrow> b64_val q; r \<leftarrow> b64_val r;
           Some [char_of (p * 4 + q div 16), char_of (q mod 16 * 16 + r div 4)]
         })
      else do {
        p \<leftarrow> b64_val p; q \<leftarrow> b64_val q; r \<leftarrow> b64_val r; t \<leftarrow> b64_val t;
        rest \<leftarrow> b64_groups s;
        Some (char_of (p * 4 + q div 16) # char_of (q mod 16 * 16 + r div 4) # char_of (r mod 4 * 64 + t) # rest)
      })"
| "b64_groups _ = None"

definition b64_dec :: "string \<Rightarrow> bytes option" where
  "b64_dec s = b64_groups (filter (\<lambda>c. byte c \<noteq> 10 \<and> byte c \<noteq> 13) s)"

lemma byte_b64_char:
  "k < 64 \<Longrightarrow> byte (b64_char k) =
     (if k < 26 then 65 + k else if k < 52 then 71 + k else if k < 62 then k - 4 else if k = 62 then 43 else 47)"
  by (simp add: b64_char_def)

lemma b64_val_char [simp]:
  assumes "k < 64"
  shows "b64_val (b64_char k) = Some k"
proof -
  consider "k < 26" | "26 \<le> k" "k < 52" | "52 \<le> k" "k < 62" | "k = 62" | "k = 63" using assms by linarith
  then show ?thesis
  proof cases
    case 3
    then have "byte (b64_char k) = k - 4" "48 \<le> k - 4" "k - 4 \<le> 57" by (auto simp: byte_b64_char)
    with 3 show ?thesis by (simp add: b64_val_def)
  qed (simp_all add: b64_val_def byte_b64_char)
qed

lemma b64_char_ne:
  assumes "k < 64"
  shows "b64_char k \<noteq> CHR ''=''" "byte (b64_char k) \<noteq> 10" "byte (b64_char k) \<noteq> 13"
proof -
  have "byte (b64_char k) \<noteq> 61" "byte (b64_char k) \<noteq> 10" "byte (b64_char k) \<noteq> 13"
    using assms byte_b64_char [OF assms] by (auto split: if_splits)
  moreover have "byte CHR ''='' = 61" by simp
  ultimately show "b64_char k \<noteq> CHR ''=''" "byte (b64_char k) \<noteq> 10" "byte (b64_char k) \<noteq> 13" by metis+
qed

lemma sextets:
  fixes a b c :: nat
  assumes "a < 256" "b < 256" "c < 256"
  shows "a div 4 < 64" "a mod 4 * 16 + b div 16 < 64" "b mod 16 * 4 + c div 64 < 64" "c mod 64 < 64"
    "a div 4 * 4 + (a mod 4 * 16 + b div 16) div 16 = a"
    "(a mod 4 * 16 + b div 16) mod 16 * 16 + (b mod 16 * 4 + c div 64) div 4 = b"
    "(b mod 16 * 4 + c div 64) mod 4 * 64 + c mod 64 = c"
proof -
  have b: "b div 16 < 16" and c: "c div 64 < 4" using assms by auto
  have "a mod 4 < 4" "b mod 16 < 16" by simp_all
  with b c show "a mod 4 * 16 + b div 16 < 64" "b mod 16 * 4 + c div 64 < 64" by linarith+
  show "a div 4 < 64" "c mod 64 < 64" using assms by auto
  have "(a mod 4 * 16 + b div 16) div 16 = a mod 4" "(a mod 4 * 16 + b div 16) mod 16 = b div 16"
    "(b mod 16 * 4 + c div 64) div 4 = b mod 16" "(b mod 16 * 4 + c div 64) mod 4 = c div 64"
    using b c by auto
  then show "a div 4 * 4 + (a mod 4 * 16 + b div 16) div 16 = a"
    "(a mod 4 * 16 + b div 16) mod 16 * 16 + (b mod 16 * 4 + c div 64) div 4 = b"
    "(b mod 16 * 4 + c div 64) mod 4 * 64 + c mod 64 = c"
    by simp_all
qed

lemma b64_filter: "filter (\<lambda>c. byte c \<noteq> 10 \<and> byte c \<noteq> 13) (b64_enc s) = b64_enc s"
proof (induction s rule: b64_enc.induct)
  case (1 a b c s)
  then show ?case using sextets [of "byte a" "byte b" "byte c"] by (simp add: b64_char_ne)
next
  case (2 a b)
  show ?case using sextets [of "byte a" "byte b" 0] by (simp add: b64_char_ne)
next
  case (3 a)
  show ?case using sextets [of "byte a" 0 0] by (simp add: b64_char_ne)
qed simp

lemma b64_group:
  obtains p q r t where "p < 64" "q < 64" "r < 64" "t < 64"
    "\<And>s. b64_enc (a # b # c # s) = b64_char p # b64_char q # b64_char r # b64_char t # b64_enc s"
    "char_of (p * 4 + q div 16) = a" "char_of (q mod 16 * 16 + r div 4) = b" "char_of (r mod 4 * 64 + t) = c"
proof -
  note sx = sextets [OF byte_less [of a] byte_less [of b] byte_less [of c]]
  have "char_of (byte a div 4 * 4 + (byte a mod 4 * 16 + byte b div 16) div 16) = a"
    "char_of ((byte a mod 4 * 16 + byte b div 16) mod 16 * 16 + (byte b mod 16 * 4 + byte c div 64) div 4) = b"
    "char_of ((byte b mod 16 * 4 + byte c div 64) mod 4 * 64 + byte c mod 64) = c"
    unfolding sx by simp_all
  then show ?thesis by (rule that [OF sx(1-4) b64_enc.simps(1)])
qed

lemma b64_round_trip: "b64_dec (b64_enc s) = Some s"
proof -
  have "b64_groups (b64_enc s) = Some s"
  proof (induction s rule: b64_enc.induct)
    case (1 a b c s)
    obtain p q r t where "p < 64" "q < 64" "r < 64" "t < 64"
      "b64_enc (a # b # c # s) = b64_char p # b64_char q # b64_char r # b64_char t # b64_enc s"
      "char_of (p * 4 + q div 16) = a" "char_of (q mod 16 * 16 + r div 4) = b" "char_of (r mod 4 * 64 + t) = c"
      by (rule b64_group [of a b c]) blast
    with 1 show ?case by (simp add: b64_char_ne)
  next
    case (2 a b)
    have "char_of (byte a div 4 * 4 + (byte a mod 4 * 16 + byte b div 16) div 16) = a"
      "char_of ((byte a mod 4 * 16 + byte b div 16) mod 16 * 16 + byte b mod 16 * 4 div 4) = b"
      using sextets(5,6) [OF byte_less [of a] byte_less [of b], of 0] by (simp_all only: zero_less_numeral) simp_all
    then show ?case using sextets(1-4) [of "byte a" "byte b" 0]
      by (simp add: b64_char_ne del: mod_mult_self1 mod_mult_self2 mod_mult_self3 mod_mult_self4)
  next
    case (3 a)
    have "char_of (byte a div 4 * 4 + byte a mod 4 * 16 div 16) = a" by simp
    then show ?case using sextets(1-4) [of "byte a" 0 0] by (simp add: b64_char_ne)
  qed simp
  then show ?thesis by (simp add: b64_dec_def b64_filter)
qed

section \<open>Decoding into struct fields\<close>

text \<open>
  Object members are matched to fields case-insensitively, by \<^verbatim>\<open>foldName\<close>: ASCII letters, and
  the two other code points that fold to an ASCII letter (Kelvin sign and long s).
\<close>

fun foldName :: "string \<Rightarrow> string" where
  "foldName [] = []"
| "foldName (c # cs) =
     (if byte c = 0xE2 \<and> take 2 cs = [CHR 0x84, CHR 0xAA] then CHR ''k'' # foldName (drop 2 cs)
      else if byte c = 0xC5 \<and> take 1 cs = [CHR 0xBF] then CHR ''s'' # foldName (drop 1 cs)
      else (if 65 \<le> byte c \<and> byte c \<le> 90 then char_of (byte c + 32) else c) # foldName cs)"

definition json_error :: "string" where
  "json_error = ''invalid JSON for the target type''"

definition get_int :: "json \<Rightarrow> int \<Rightarrow> string + int" where
  "get_int j old =
     (case j of
        JNull \<Rightarrow> Inr old
      | JNum l \<Rightarrow> (case parse_int64 l of None \<Rightarrow> Inl json_error | Some i \<Rightarrow> Inr i)
      | _ \<Rightarrow> Inl json_error)"

definition get_string :: "json \<Rightarrow> string \<Rightarrow> string + string" where
  "get_string j old = (case j of JNull \<Rightarrow> Inr old | JStr s \<Rightarrow> Inr s | _ \<Rightarrow> Inl json_error)"

text \<open>A byte slice is a base64 string, \<^verbatim>\<open>null\<close>, or an array of numbers below 256.\<close>

fun get_byte_list :: "json list \<Rightarrow> string + bytes" where
  "get_byte_list [] = Inr []"
| "get_byte_list (j # js) =
     (case get_int j 0 of
        Inl e \<Rightarrow> Inl e
      | Inr i \<Rightarrow> if i < 0 \<or> 256 \<le> i then Inl json_error
          else (case get_byte_list js of Inl e \<Rightarrow> Inl e | Inr bs \<Rightarrow> Inr (char_of (nat i) # bs)))"

definition get_bytes :: "json \<Rightarrow> bytes \<Rightarrow> string + bytes" where
  "get_bytes j old =
     (case j of
        JNull \<Rightarrow> Inr []
      | JStr s \<Rightarrow> (case b64_dec s of None \<Rightarrow> Inl json_error | Some bs \<Rightarrow> Inr bs)
      | JArr js \<Rightarrow> get_byte_list js
      | _ \<Rightarrow> Inl json_error)"

text \<open>The members of an object are decoded in order into the struct; an unknown name is skipped.\<close>

type_synonym 'a member_decoder = "string \<Rightarrow> json \<Rightarrow> 'a \<Rightarrow> string + 'a"

fun decode_members :: "'a member_decoder \<Rightarrow> (string \<times> json) list \<Rightarrow> 'a \<Rightarrow> string + 'a" where
  "decode_members f [] x = Inr x"
| "decode_members f ((k, v) # ms) x =
     (case f (foldName k) v x of Inl e \<Rightarrow> Inl e | Inr x \<Rightarrow> decode_members f ms x)"

definition decode_struct :: "'a member_decoder \<Rightarrow> json \<Rightarrow> 'a \<Rightarrow> string + 'a" where
  "decode_struct f j x =
     (case j of JNull \<Rightarrow> Inr x | JObj ms \<Rightarrow> decode_members f ms x | _ \<Rightarrow> Inl json_error)"

definition map_sum_r :: "('a \<Rightarrow> 'b) \<Rightarrow> string + 'a \<Rightarrow> string + 'b" where
  "map_sum_r f r = (case r of Inl e \<Rightarrow> Inl e | Inr a \<Rightarrow> Inr (f a))"

definition unmarshal :: "(json \<Rightarrow> string + 'a) \<Rightarrow> bytes \<Rightarrow> string + 'a" where
  "unmarshal f data = (case json_parse data of None \<Rightarrow> Inl ''invalid JSON syntax'' | Some j \<Rightarrow> f j)"

lemma unmarshal_render: "json_ok j \<Longrightarrow> unmarshal f (render ind l j) = f j"
  by (simp add: unmarshal_def json_parse_render)

lemma unmarshal_marshal:
  "json_ok j \<Longrightarrow> unmarshal f (marshal j) = f j" "json_ok j \<Longrightarrow> unmarshal f (marshalIndent j) = f j"
  by (simp_all add: marshal_def marshalIndent_def unmarshal_render)

text \<open>Integers as JSON numbers.\<close>

definition int64 :: "int \<Rightarrow> bool" where
  "int64 i = (- (2 ^ 63) \<le> i \<and> i < 2 ^ 63)"

lemma dropWhile_digits: "list_all is_digit s \<Longrightarrow> dropWhile is_digit s = []"
  by (simp add: list_all_iff)

lemma is_number_dec_nat: "skip_int (dec_nat n) = Some []"
proof -
  obtain c cs where c: "dec_nat n = c # cs" by (cases "dec_nat n") auto
  have all: "is_digit c" "list_all is_digit cs" using dec_nat_digits [of n] c by simp_all
  show ?thesis
    using c all dec_nat_hd [OF c] by (simp add: skip_int_def skip_digits_def dropWhile_digits)
qed

lemma json_ok_int [simp]: "json_ok (JNum (dec_int i))"
proof -
  have "list_all is_numch (dec_nat n)" for n
    using dec_nat_digits [of n] by (auto simp: list_all_iff is_numch_def)
  moreover have "is_number (dec_nat n)" for n
  proof -
    obtain c cs where c: "dec_nat n = c # cs" by (cases "dec_nat n") auto
    then have "c \<noteq> CHR ''-''" using dec_nat_digits [of n] by auto
    then show ?thesis using is_number_dec_nat [of n] c
      by (simp add: is_number_def skip_frac_def skip_exp_def)
  qed
  moreover have "is_number (CHR ''-'' # dec_nat n)" for n
    using is_number_dec_nat [of n] by (simp add: is_number_def skip_frac_def skip_exp_def)
  ultimately show ?thesis by (simp add: dec_int_def is_numch_def)
qed

lemma get_int_dec [simp]: "int64 i \<Longrightarrow> get_int (JNum (dec_int i)) old = Inr i"
  by (simp add: get_int_def int64_def parse_int64_dec)

lemma get_string_simps [simp]: "get_string (JStr s) old = Inr s"
  by (simp add: get_string_def)

lemma get_bytes_b64 [simp]: "get_bytes (JStr (b64_enc bs)) old = Inr bs"
  by (simp add: get_bytes_def b64_round_trip)

text \<open>Field names and base64 text are plain ASCII.\<close>

definition ascii :: "string \<Rightarrow> bool" where
  "ascii s = list_all (\<lambda>c. byte c < 128) s"

lemma utf8_valid_ascii: "ascii s \<Longrightarrow> utf8_valid s"
proof (induction s)
  case (Cons c s)
  then show ?case by (subst utf8_valid.simps) (simp add: ascii_def utf8_len_Cons)
qed simp

lemma b64_ascii: "ascii (b64_enc s)"
proof -
  have "byte (b64_char k) < 128" if "k < 64" for k
    using that byte_b64_char [OF that] by (auto split: if_splits)
  then show ?thesis unfolding ascii_def
  proof (induction s rule: b64_enc.induct)
    case (1 a b c s)
    then show ?case using sextets [of "byte a" "byte b" "byte c"] by simp
  next
    case (2 a b)
    then show ?case using sextets [of "byte a" "byte b" 0] by simp
  next
    case (3 a)
    then show ?case using sextets [of "byte a" 0 0] by simp
  qed simp
qed

section \<open>The codecs\<close>

definition Operation_json :: "Operation \<Rightarrow> json" where
  "Operation_json op = JObj [(''type'', JStr (op_Type op)), (''key'', JStr (op_Key op)),
     (''value'', JStr (op_Value op)), (''timestamp'', JNum (dec_int (op_Timestamp op)))]"

definition Operation_member :: "Operation member_decoder" where
  "Operation_member k j op =
     (if k = ''type'' then map_sum_r (\<lambda>v. op\<lparr>op_Type := v\<rparr>) (get_string j (op_Type op))
      else if k = ''key'' then map_sum_r (\<lambda>v. op\<lparr>op_Key := v\<rparr>) (get_string j (op_Key op))
      else if k = ''value'' then map_sum_r (\<lambda>v. op\<lparr>op_Value := v\<rparr>) (get_string j (op_Value op))
      else if k = ''timestamp'' then map_sum_r (\<lambda>v. op\<lparr>op_Timestamp := v\<rparr>) (get_int j (op_Timestamp op))
      else Inr op)"

definition zero_Operation :: Operation where
  "zero_Operation = \<lparr>op_Type = [], op_Key = [], op_Value = [], op_Timestamp = 0\<rparr>"

definition marshal_Operation :: "Operation \<Rightarrow> bytes" where
  "marshal_Operation op = marshal (Operation_json op)"

definition unmarshal_Operation :: "bytes \<Rightarrow> string + Operation" where
  "unmarshal_Operation data = unmarshal (\<lambda>j. decode_struct Operation_member j zero_Operation) data"

definition Operation_ok :: "Operation \<Rightarrow> bool" where
  "Operation_ok op = (utf8_valid (op_Type op) \<and> utf8_valid (op_Key op) \<and> utf8_valid (op_Value op) \<and>
     int64 (op_Timestamp op))"

definition State_json :: "PersistentStateData \<Rightarrow> json" where
  "State_json pd = JObj [(''current_term'', JNum (dec_int (pd_CurrentTerm pd))), (''voted_for'', JStr (pd_VotedFor pd))]"

definition State_member :: "PersistentStateData member_decoder" where
  "State_member k j pd =
     (if k = ''current_term'' then map_sum_r (\<lambda>v. pd\<lparr>pd_CurrentTerm := v\<rparr>) (get_int j (pd_CurrentTerm pd))
      else if k = ''voted_for'' then map_sum_r (\<lambda>v. pd\<lparr>pd_VotedFor := v\<rparr>) (get_string j (pd_VotedFor pd))
      else Inr pd)"

definition marshal_State :: "PersistentStateData \<Rightarrow> bytes" where
  "marshal_State pd = marshalIndent (State_json pd)"

definition unmarshal_State :: "bytes \<Rightarrow> PersistentStateData \<Rightarrow> string + PersistentStateData" where
  "unmarshal_State data pd = unmarshal (\<lambda>j. decode_struct State_member j pd) data"

definition State_ok :: "PersistentStateData \<Rightarrow> bool" where
  "State_ok pd = (int64 (pd_CurrentTerm pd) \<and> utf8_valid (pd_VotedFor pd))"

definition Metadata_json :: "LogMetadata \<Rightarrow> json" where
  "Metadata_json m = JObj [(''first_index'', JNum (dec_int (lm_FirstIndex m))),
     (''last_index'', JNum (dec_int (lm_LastIndex m))), (''compact_to'', JNum (dec_int (lm_CompactTo m)))]"

definition Metadata_member :: "LogMetadata member_decoder" where
  "Metadata_member k j m =
     (if k = ''first_index'' then map_sum_r (\<lambda>v. m\<lparr>lm_FirstIndex := v\<rparr>) (get_int j (lm_FirstIndex m))
      else if k = ''last_index'' then map_sum_r (\<lambda>v. m\<lparr>lm_LastIndex := v\<rparr>) (get_int j (lm_LastIndex m))
      else if k = ''compact_to'' then map_sum_r (\<lambda>v. m\<lparr>lm_CompactTo := v\<rparr>) (get_int j (lm_CompactTo m))
      else Inr m)"

definition marshal_Metadata :: "LogMetadata \<Rightarrow> bytes" where
  "marshal_Metadata m = marshalIndent (Metadata_json m)"

definition unmarshal_Metadata :: "bytes \<Rightarrow> string + LogMetadata" where
  "unmarshal_Metadata data =
     unmarshal (\<lambda>j. decode_struct Metadata_member j \<lparr>lm_FirstIndex = 0, lm_LastIndex = 0, lm_CompactTo = 0\<rparr>) data"

definition Metadata_ok :: "LogMetadata \<Rightarrow> bool" where
  "Metadata_ok m = (int64 (lm_FirstIndex m) \<and> int64 (lm_LastIndex m) \<and> int64 (lm_CompactTo m))"

text \<open>The generated struct \<^verbatim>\<open>LogEntry\<close>: every field has the option \<^verbatim>\<open>omitempty\<close>.\<close>

definition opt_int :: "string \<Rightarrow> int \<Rightarrow> (string \<times> json) list" where
  "opt_int k i = (if i = 0 then [] else [(k, JNum (dec_int i))])"

definition opt_string :: "string \<Rightarrow> string \<Rightarrow> (string \<times> json) list" where
  "opt_string k s = (if s = [] then [] else [(k, JStr s)])"

definition LogEntry_json :: "LogEntry \<Rightarrow> json" where
  "LogEntry_json e = JObj (opt_int ''index'' (le_Index e) @ opt_int ''term'' (le_Term e) @
     opt_string ''type'' (le_Type e) @ opt_string ''data'' (b64_enc (le_Data e)) @ opt_int ''timestamp'' (le_Timestamp e))"

definition LogEntry_member :: "LogEntry member_decoder" where
  "LogEntry_member k j e =
     (if k = ''index'' then map_sum_r (\<lambda>v. e\<lparr>le_Index := v\<rparr>) (get_int j (le_Index e))
      else if k = ''term'' then map_sum_r (\<lambda>v. e\<lparr>le_Term := v\<rparr>) (get_int j (le_Term e))
      else if k = ''type'' then map_sum_r (\<lambda>v. e\<lparr>le_Type := v\<rparr>) (get_string j (le_Type e))
      else if k = ''data'' then map_sum_r (\<lambda>v. e\<lparr>le_Data := v\<rparr>) (get_bytes j (le_Data e))
      else if k = ''timestamp'' then map_sum_r (\<lambda>v. e\<lparr>le_Timestamp := v\<rparr>) (get_int j (le_Timestamp e))
      else Inr e)"

definition zero_LogEntry :: LogEntry where
  "zero_LogEntry = \<lparr>le_Index = 0, le_Term = 0, le_Type = [], le_Data = [], le_Timestamp = 0\<rparr>"

text \<open>A \<^verbatim>\<open>null\<close> element, a nil entry pointer in Go, is refused here.\<close>

fun decode_entries :: "json list \<Rightarrow> string + LogEntry list" where
  "decode_entries [] = Inr []"
| "decode_entries (j # js) =
     (if j = JNull then Inl ''nil log entry''
      else case decode_struct LogEntry_member j zero_LogEntry of
        Inl e \<Rightarrow> Inl e
      | Inr x \<Rightarrow> (case decode_entries js of Inl e \<Rightarrow> Inl e | Inr xs \<Rightarrow> Inr (x # xs)))"

definition marshal_Entries :: "LogEntry list \<Rightarrow> bytes" where
  "marshal_Entries es = marshalIndent (JArr (map LogEntry_json es))"

definition unmarshal_Entries :: "bytes \<Rightarrow> string + LogEntry list" where
  "unmarshal_Entries data =
     unmarshal (\<lambda>j. case j of JNull \<Rightarrow> Inr [] | JArr js \<Rightarrow> decode_entries js | _ \<Rightarrow> Inl json_error) data"

definition LogEntry_ok :: "LogEntry \<Rightarrow> bool" where
  "LogEntry_ok e = (int64 (le_Index e) \<and> int64 (le_Term e) \<and> utf8_valid (le_Type e) \<and> int64 (le_Timestamp e))"

section \<open>Round trips\<close>

named_theorems codec_simps "unfolding and evaluating the codecs"

lemmas [codec_simps] = decode_struct_def map_sum_r_def

lemma ascii_names [codec_simps]:
  "utf8_valid ''type''" "utf8_valid ''key''" "utf8_valid ''value''" "utf8_valid ''timestamp''"
  "utf8_valid ''current_term''" "utf8_valid ''voted_for''" "utf8_valid ''first_index''"
  "utf8_valid ''last_index''" "utf8_valid ''compact_to''" "utf8_valid ''index''" "utf8_valid ''term''"
  "utf8_valid ''data''"
  by (simp_all add: utf8_valid_ascii ascii_def)

lemma foldName_names [codec_simps]:
  "foldName ''type'' = ''type''" "foldName ''key'' = ''key''" "foldName ''value'' = ''value''"
  "foldName ''timestamp'' = ''timestamp''" "foldName ''current_term'' = ''current_term''"
  "foldName ''voted_for'' = ''voted_for''" "foldName ''first_index'' = ''first_index''"
  "foldName ''last_index'' = ''last_index''" "foldName ''compact_to'' = ''compact_to''"
  "foldName ''index'' = ''index''" "foldName ''term'' = ''term''" "foldName ''data'' = ''data''"
  by simp_all

lemma Operation_round_trip:
  assumes "Operation_ok op"
  shows "unmarshal_Operation (marshal_Operation op) = Inr op"
proof -
  have "json_ok (Operation_json op)" using assms by (simp add: Operation_json_def Operation_ok_def codec_simps del: json_ok.simps(1))
  then show ?thesis
    using assms
    by (simp add: unmarshal_Operation_def marshal_Operation_def unmarshal_marshal Operation_json_def
      Operation_member_def Operation_ok_def zero_Operation_def codec_simps del: foldName.simps)
qed

lemma State_round_trip:
  assumes "State_ok pd"
  shows "unmarshal_State (marshal_State pd) old = Inr pd"
proof -
  have "json_ok (State_json pd)" using assms by (simp add: State_json_def State_ok_def codec_simps del: json_ok.simps(1))
  then show ?thesis
    using assms
    by (simp add: unmarshal_State_def marshal_State_def unmarshal_marshal State_json_def
      State_member_def State_ok_def codec_simps del: foldName.simps)
qed

lemma Metadata_round_trip:
  assumes "Metadata_ok m"
  shows "unmarshal_Metadata (marshal_Metadata m) = Inr m"
proof -
  have "json_ok (Metadata_json m)" by (simp add: Metadata_json_def codec_simps del: json_ok.simps(1))
  then show ?thesis
    using assms
    by (simp add: unmarshal_Metadata_def marshal_Metadata_def unmarshal_marshal Metadata_json_def
      Metadata_member_def Metadata_ok_def codec_simps del: foldName.simps)
qed

lemma decode_members_append:
  "decode_members f (ms @ ns) x =
     (case decode_members f ms x of Inl e \<Rightarrow> Inl e | Inr x \<Rightarrow> decode_members f ns x)"
  by (induction ms arbitrary: x) (auto split: sum.splits)

lemma decode_LogEntry_fields:
  "le_Index e = 0 \<Longrightarrow> int64 i \<Longrightarrow> decode_members LogEntry_member (opt_int ''index'' i) e = Inr (e\<lparr>le_Index := i\<rparr>)"
  "le_Term e = 0 \<Longrightarrow> int64 i \<Longrightarrow> decode_members LogEntry_member (opt_int ''term'' i) e = Inr (e\<lparr>le_Term := i\<rparr>)"
  "le_Type e = [] \<Longrightarrow> decode_members LogEntry_member (opt_string ''type'' t) e = Inr (e\<lparr>le_Type := t\<rparr>)"
  "le_Data e = [] \<Longrightarrow> decode_members LogEntry_member (opt_string ''data'' (b64_enc d)) e = Inr (e\<lparr>le_Data := d\<rparr>)"
  "le_Timestamp e = 0 \<Longrightarrow> int64 i \<Longrightarrow>
     decode_members LogEntry_member (opt_int ''timestamp'' i) e = Inr (e\<lparr>le_Timestamp := i\<rparr>)"
proof -
  have nil: "b64_enc d = [] \<longleftrightarrow> d = []" by (cases d rule: b64_enc.cases) auto
  show "le_Index e = 0 \<Longrightarrow> int64 i \<Longrightarrow> decode_members LogEntry_member (opt_int ''index'' i) e = Inr (e\<lparr>le_Index := i\<rparr>)"
    "le_Term e = 0 \<Longrightarrow> int64 i \<Longrightarrow> decode_members LogEntry_member (opt_int ''term'' i) e = Inr (e\<lparr>le_Term := i\<rparr>)"
    "le_Type e = [] \<Longrightarrow> decode_members LogEntry_member (opt_string ''type'' t) e = Inr (e\<lparr>le_Type := t\<rparr>)"
    "le_Data e = [] \<Longrightarrow> decode_members LogEntry_member (opt_string ''data'' (b64_enc d)) e = Inr (e\<lparr>le_Data := d\<rparr>)"
    "le_Timestamp e = 0 \<Longrightarrow> int64 i \<Longrightarrow>
       decode_members LogEntry_member (opt_int ''timestamp'' i) e = Inr (e\<lparr>le_Timestamp := i\<rparr>)"
    by (simp_all add: opt_int_def opt_string_def LogEntry_member_def codec_simps nil del: foldName.simps)
qed

lemma decode_LogEntry: "LogEntry_ok e \<Longrightarrow> decode_struct LogEntry_member (LogEntry_json e) zero_LogEntry = Inr e"
  by (simp add: decode_struct_def LogEntry_json_def decode_members_append decode_LogEntry_fields
    LogEntry_ok_def zero_LogEntry_def)

lemma members_ok_append [simp]: "members_ok (ms @ ns) = (members_ok ms \<and> members_ok ns)"
  by (induction ms) auto

lemma json_ok_LogEntry: "LogEntry_ok e \<Longrightarrow> json_ok (LogEntry_json e)"
  by (simp add: LogEntry_json_def LogEntry_ok_def opt_int_def opt_string_def codec_simps b64_ascii
    utf8_valid_ascii del: json_ok.simps(1))

lemma Entries_round_trip:
  assumes "list_all LogEntry_ok es"
  shows "unmarshal_Entries (marshal_Entries es) = Inr es"
proof -
  have "elems_ok (map LogEntry_json es)" using assms by (induction es) (auto simp: json_ok_LogEntry)
  then have "json_ok (JArr (map LogEntry_json es))" by simp
  moreover have "LogEntry_json e \<noteq> JNull" for e by (simp add: LogEntry_json_def)
  then have "decode_entries (map LogEntry_json es) = Inr es"
    using assms by (induction es) (auto simp: decode_LogEntry)
  ultimately show ?thesis by (simp add: unmarshal_Entries_def marshal_Entries_def unmarshal_marshal)
qed

end
