(* ===== verification/KV_State_Machine.thy ===== *)
theory KV_State_Machine
  imports Consensus_Codec
begin

text \<open>
  The replicated state machine of \<^verbatim>\<open>src/internal/consensus/state_machine.go\<close>: a key-value map
  with per-key metadata, changed by applying log entries whose payload is an operation in
  JSON. The clock reading of a call is an argument. The codec of snapshots is an argument
  too (their timestamps are in the calendar format of package \<^verbatim>\<open>time\<close>). The locale
  \<open>replicated_machine\<close> is what the Raft node relies on: the part of the state a replica
  exposes changes as a function of the entry alone.
\<close>

record EntryMetadata =
  md_CreatedAt :: gtime
  md_UpdatedAt :: gtime
  md_Version :: int

datatype result_metadata = NoMetadata | EntryMeta EntryMetadata | ExistedMeta bool | NoopMeta int

record OperationResult =
  or_Success :: bool
  or_Value :: string
  or_PrevValue :: string
  or_Error :: string
  or_Metadata :: result_metadata

record StateMachineSnapshot =
  ss_Data :: "(string, string) gomap"
  ss_Metadata :: "(string, EntryMetadata) gomap"
  ss_Version :: int

record KVStateMachine =
  sm_data :: "(string, string) gomap"
  sm_metadata :: "(string, EntryMetadata) gomap"

record StateMachineStats =
  sms_EntryCount :: int
  sms_DataSize :: int

section \<open>The operations\<close>

definition NewKVStateMachine :: KVStateMachine where
  "NewKVStateMachine = \<lparr>sm_data = [], sm_metadata = []\<rparr>"

definition failure :: "string \<Rightarrow> OperationResult" where
  "failure err = \<lparr>or_Success = False, or_Value = [], or_PrevValue = [], or_Error = err, or_Metadata = NoMetadata\<rparr>"

definition applyPut :: "gtime \<Rightarrow> Operation \<Rightarrow> KVStateMachine \<Rightarrow> OperationResult \<times> KVStateMachine" where
  "applyPut now op sm =
     (let prev = gm_get (sm_data sm) (op_Key op);
          metadata = (case gm_get (sm_metadata sm) (op_Key op) of
             Some m \<Rightarrow> m\<lparr>md_UpdatedAt := now, md_Version := i64 (md_Version m + 1)\<rparr>
           | None \<Rightarrow> \<lparr>md_CreatedAt = now, md_UpdatedAt = now, md_Version = 1\<rparr>)
      in (\<lparr>or_Success = True, or_Value = op_Value op,
           or_PrevValue = (case prev of Some v \<Rightarrow> v | None \<Rightarrow> []),
           or_Error = [], or_Metadata = EntryMeta metadata\<rparr>,
          sm\<lparr>sm_data := gm_put (op_Key op) (op_Value op) (sm_data sm),
             sm_metadata := gm_put (op_Key op) metadata (sm_metadata sm)\<rparr>))"

definition applyDelete :: "Operation \<Rightarrow> KVStateMachine \<Rightarrow> OperationResult \<times> KVStateMachine" where
  "applyDelete op sm =
     (let prev = gm_get (sm_data sm) (op_Key op)
      in (\<lparr>or_Success = True, or_Value = [],
           or_PrevValue = (case prev of Some v \<Rightarrow> v | None \<Rightarrow> []),
           or_Error = [], or_Metadata = ExistedMeta (prev \<noteq> None)\<rparr>,
          if prev \<noteq> None
          then sm\<lparr>sm_data := gm_del (op_Key op) (sm_data sm), sm_metadata := gm_del (op_Key op) (sm_metadata sm)\<rparr>
          else sm))"

definition applyNoop :: "Operation \<Rightarrow> OperationResult" where
  "applyNoop op = \<lparr>or_Success = True, or_Value = [], or_PrevValue = [], or_Error = [],
     or_Metadata = NoopMeta (op_Timestamp op)\<rparr>"

definition Apply :: "gtime \<Rightarrow> LogEntry \<Rightarrow> KVStateMachine \<Rightarrow> OperationResult \<times> KVStateMachine" where
  "Apply now entry sm =
     (case unmarshal_Operation (le_Data entry) of
        Inl err \<Rightarrow> (failure (''invalid operation format: '' @ err), sm)
      | Inr op \<Rightarrow>
          if op_Type op = ''PUT'' then applyPut now op sm
          else if op_Type op = ''DELETE'' then applyDelete op sm
          else if op_Type op = ''NOOP'' then (applyNoop op, sm)
          else (failure (''unknown operation type: '' @ op_Type op), sm))"

definition SM_Get :: "string \<Rightarrow> KVStateMachine \<Rightarrow> string \<times> bool" where
  "SM_Get key sm = (case gm_get (sm_data sm) key of Some v \<Rightarrow> (v, True) | None \<Rightarrow> ([], False))"

definition zero_metadata :: EntryMetadata where
  "zero_metadata = \<lparr>md_CreatedAt = 0, md_UpdatedAt = 0, md_Version = 0\<rparr>"

definition SM_GetWithMetadata :: "string \<Rightarrow> KVStateMachine \<Rightarrow> string \<times> EntryMetadata \<times> bool" where
  "SM_GetWithMetadata key sm =
     (let metadata = (case gm_get (sm_metadata sm) key of Some m \<Rightarrow> m | None \<Rightarrow> zero_metadata) in
      case gm_get (sm_data sm) key of Some v \<Rightarrow> (v, metadata, True) | None \<Rightarrow> ([], metadata, False))"

text \<open>Copying a map with a \<^verbatim>\<open>range\<close> loop.\<close>

definition copyMap :: "('k, 'v) gomap \<Rightarrow> ('k, 'v) gomap" where
  "copyMap m = fold (\<lambda>(k, v) r. gm_put k v r) m []"

definition SM_List :: "KVStateMachine \<Rightarrow> (string, string) gomap" where
  "SM_List sm = copyMap (sm_data sm)"

definition SM_Size :: "KVStateMachine \<Rightarrow> nat" where
  "SM_Size sm = length (sm_data sm)"

definition SM_Snapshot :: "(StateMachineSnapshot \<Rightarrow> string + bytes) \<Rightarrow> int \<Rightarrow> KVStateMachine \<Rightarrow> string + bytes" where
  "SM_Snapshot enc unixNow sm =
     (case enc \<lparr>ss_Data = copyMap (sm_data sm), ss_Metadata = copyMap (sm_metadata sm), ss_Version = unixNow\<rparr> of
        Inl err \<Rightarrow> Inl (''failed to marshal snapshot: '' @ err)
      | Inr data \<Rightarrow> Inr data)"

definition SM_Restore :: "(bytes \<Rightarrow> string + StateMachineSnapshot) \<Rightarrow> bytes \<Rightarrow> KVStateMachine \<Rightarrow>
    string option \<times> KVStateMachine" where
  "SM_Restore decS data sm =
     (case decS data of
        Inl err \<Rightarrow> (Some (''failed to unmarshal snapshot: '' @ err), sm)
      | Inr snapshot \<Rightarrow> (None, \<lparr>sm_data = copyMap (ss_Data snapshot), sm_metadata = copyMap (ss_Metadata snapshot)\<rparr>))"

definition CreatePutOperation :: "int \<Rightarrow> string \<Rightarrow> string \<Rightarrow> bytes" where
  "CreatePutOperation unixNow key val =
     marshal_Operation \<lparr>op_Type = ''PUT'', op_Key = key, op_Value = val, op_Timestamp = unixNow\<rparr>"

definition CreateDeleteOperation :: "int \<Rightarrow> string \<Rightarrow> bytes" where
  "CreateDeleteOperation unixNow key =
     marshal_Operation \<lparr>op_Type = ''DELETE'', op_Key = key, op_Value = [], op_Timestamp = unixNow\<rparr>"

definition CreateNoopOperation :: "int \<Rightarrow> bytes" where
  "CreateNoopOperation unixNow =
     marshal_Operation \<lparr>op_Type = ''NOOP'', op_Key = [], op_Value = [], op_Timestamp = unixNow\<rparr>"

definition ValidateOperation :: "bytes \<Rightarrow> string option" where
  "ValidateOperation data =
     (case unmarshal_Operation data of
        Inl err \<Rightarrow> Some (''invalid operation format: '' @ err)
      | Inr op \<Rightarrow>
          if op_Type op = ''PUT'' then
            (if op_Key op = [] then Some ''PUT operation requires a key'' else None)
          else if op_Type op = ''DELETE'' then
            (if op_Key op = [] then Some ''DELETE operation requires a key'' else None)
          else if op_Type op = ''NOOP'' then None
          else Some (''unknown operation type: '' @ op_Type op))"

definition SM_GetStats :: "KVStateMachine \<Rightarrow> StateMachineStats" where
  "SM_GetStats sm =
     \<lparr>sms_EntryCount = int (length (sm_data sm)),
      sms_DataSize = fold (\<lambda>(k, v) n. i64 (n + int (length k + length v))) (sm_data sm) 0\<rparr>"

section \<open>The contract the Raft node relies on\<close>

locale replicated_machine =
  fixes apply_entry :: "gtime \<Rightarrow> 'e \<Rightarrow> 's \<Rightarrow> 'r \<times> 's"
    and sview :: "'s \<Rightarrow> 'v"
    and vstep :: "'e \<Rightarrow> 'v \<Rightarrow> 'v"
  assumes view_step: "sview (snd (apply_entry now e s)) = vstep e (sview s)"
begin

lemma view_run:
  "sview (fold (\<lambda>(now, e) s. snd (apply_entry now e s)) es s) = fold (\<lambda>(now, e). vstep e) es (sview s)"
  by (induction es arbitrary: s) (auto simp: view_step)

lemma view_clock_independent:
  assumes "map snd es = map snd es'" and "sview s = sview s'"
  shows "sview (fold (\<lambda>(now, e) s. snd (apply_entry now e s)) es s) =
    sview (fold (\<lambda>(now, e) s. snd (apply_entry now e s)) es' s')"
proof -
  have "fold (\<lambda>(now, e). vstep e) xs v = fold vstep (map snd xs) v" for xs :: "(gtime \<times> 'e) list" and v
    by (induction xs arbitrary: v) auto
  then show ?thesis using assms by (simp add: view_run)
qed

end

section \<open>The state machine meets it\<close>

text \<open>What a replica exposes of a key: its value and its version, but not its timestamps.\<close>

type_synonym sm_view = "string \<Rightarrow> string option \<times> int option"

definition kv_view :: "KVStateMachine \<Rightarrow> sm_view" where
  "kv_view sm k = (gm_get (sm_data sm) k, map_option md_Version (gm_get (sm_metadata sm) k))"

definition op_step :: "Operation \<Rightarrow> sm_view \<Rightarrow> sm_view" where
  "op_step op v =
     (if op_Type op = ''PUT''
      then v(op_Key op := (Some (op_Value op),
             Some (case snd (v (op_Key op)) of None \<Rightarrow> 1 | Some n \<Rightarrow> i64 (n + 1))))
      else if op_Type op = ''DELETE'' \<and> fst (v (op_Key op)) \<noteq> None then v(op_Key op := (None, None))
      else v)"

definition entry_step :: "LogEntry \<Rightarrow> sm_view \<Rightarrow> sm_view" where
  "entry_step e v = (case unmarshal_Operation (le_Data e) of Inl err \<Rightarrow> v | Inr op \<Rightarrow> op_step op v)"

interpretation kvsm: replicated_machine Apply kv_view entry_step
proof
  fix now e sm
  show "kv_view (snd (Apply now e sm)) = entry_step e (kv_view sm)"
    by (auto simp: Apply_def entry_step_def op_step_def applyPut_def applyDelete_def kv_view_def
      fun_eq_iff Let_def split: sum.splits option.splits)
qed

section \<open>Invariant\<close>

text \<open>Data and metadata describe the same keys; versions are positive; no entry is updated before it is created.\<close>

definition sm_ok :: "gtime \<Rightarrow> KVStateMachine \<Rightarrow> bool" where
  "sm_ok now sm = (gm_ok (sm_data sm) \<and> gm_ok (sm_metadata sm) \<and>
     (\<forall>k. (gm_get (sm_data sm) k = None) = (gm_get (sm_metadata sm) k = None)) \<and>
     (\<forall>k m. gm_get (sm_metadata sm) k = Some m \<longrightarrow>
        md_CreatedAt m \<le> md_UpdatedAt m \<and> md_UpdatedAt m \<le> now))"

lemma sm_ok_New: "sm_ok now NewKVStateMachine"
  by (simp add: sm_ok_def NewKVStateMachine_def)

lemma sm_ok_Apply:
  assumes "sm_ok t sm" and "t \<le> now"
  shows "sm_ok now (snd (Apply now e sm))"
proof -
  have "sm_ok now sm" using assms unfolding sm_ok_def by force
  moreover have "sm_ok now (snd (applyPut now op sm))" if "sm_ok now sm" for op
    using that by (auto simp: sm_ok_def applyPut_def Let_def split: option.splits if_splits) force+
  moreover have "sm_ok now (snd (applyDelete op sm))" if "sm_ok now sm" for op
    using that by (auto simp: sm_ok_def applyDelete_def Let_def split: if_splits)
  ultimately show ?thesis by (auto simp: Apply_def split: sum.splits)
qed

lemma copyMap_get: "gm_ok m \<Longrightarrow> gm_get (copyMap m) k = gm_get m k"
proof -
  have "gm_ok m \<Longrightarrow> gm_get (fold (\<lambda>(k, v) r. gm_put k v r) m r) k =
      (case gm_get m k of Some v \<Rightarrow> Some v | None \<Rightarrow> gm_get r k)" for r
    by (induction m arbitrary: r) (auto split: option.splits)
  from this [of "[]"] show "gm_ok m \<Longrightarrow> gm_get (copyMap m) k = gm_get m k"
    by (auto simp: copyMap_def split: option.splits)
qed

lemma copyMap_ok: "gm_ok (copyMap m)"
proof -
  have "gm_ok r \<Longrightarrow> gm_ok (fold (\<lambda>(k, v) r. gm_put k v r) m r)" for r
    by (induction m arbitrary: r) auto
  then show ?thesis by (simp add: copyMap_def)
qed

section \<open>Properties\<close>

text \<open>A replica: entries applied in order, each with the clock reading of its application.\<close>

definition apply_all :: "(gtime \<times> LogEntry) list \<Rightarrow> KVStateMachine \<Rightarrow> KVStateMachine" where
  "apply_all es sm = fold (\<lambda>(now, e) s. snd (Apply now e s)) es sm"

lemma apply_all_simps [simp]:
  "apply_all [] sm = sm" "apply_all ((now, e) # es) sm = apply_all es (snd (Apply now e sm))"
  by (simp_all add: apply_all_def)

lemma sm_ok_apply_all:
  assumes "sm_ok t sm" and "sorted (t # map fst es)"
  shows "sm_ok (last (t # map fst es)) (apply_all es sm)"
  using assms
proof (induction es arbitrary: t sm)
  case (Cons a es)
  then show ?case using sm_ok_Apply [OF Cons.prems(1), of "fst a" "snd a"] by (cases a) auto
qed simp

text \<open>
  C12. Replicas that apply the same entries agree on every key's value and version and on the
  absence of keys, whatever their clocks read and whatever malformed or unknown operations the
  entries hold.
\<close>

theorem replicas_agree:
  assumes "map snd es = map snd es'"
  shows "SM_Get k (apply_all es NewKVStateMachine) = SM_Get k (apply_all es' NewKVStateMachine) \<and>
    map_option md_Version (gm_get (sm_metadata (apply_all es NewKVStateMachine)) k) =
    map_option md_Version (gm_get (sm_metadata (apply_all es' NewKVStateMachine)) k)"
proof -
  have "kv_view (apply_all es NewKVStateMachine) = kv_view (apply_all es' NewKVStateMachine)"
    unfolding apply_all_def by (rule kvsm.view_clock_independent) (simp_all add: assms)
  then have "kv_view (apply_all es NewKVStateMachine) k = kv_view (apply_all es' NewKVStateMachine) k" by simp
  then show ?thesis by (simp add: kv_view_def SM_Get_def)
qed

definition put_entry :: "int \<Rightarrow> string \<Rightarrow> string \<Rightarrow> LogEntry" where
  "put_entry i k v = \<lparr>le_Index = i, le_Term = 1, le_Type = ''PUT'', le_Data = CreatePutOperation 0 k v, le_Timestamp = 0\<rparr>"

lemma Apply_put:
  assumes "utf8_valid k" and "utf8_valid v" and "le_Data e = CreatePutOperation ts k v" and "int64 ts"
  shows "Apply now e sm = applyPut now \<lparr>op_Type = ''PUT'', op_Key = k, op_Value = v, op_Timestamp = ts\<rparr> sm"
proof -
  have "Operation_ok \<lparr>op_Type = ''PUT'', op_Key = k, op_Value = v, op_Timestamp = ts\<rparr>"
    using assms by (simp add: Operation_ok_def utf8_valid_ascii ascii_def)
  from Operation_round_trip [OF this] show ?thesis using assms by (simp add: Apply_def CreatePutOperation_def)
qed

lemma Apply_delete:
  assumes "utf8_valid k" and "le_Data e = CreateDeleteOperation ts k" and "int64 ts"
  shows "Apply now e sm = applyDelete \<lparr>op_Type = ''DELETE'', op_Key = k, op_Value = [], op_Timestamp = ts\<rparr> sm"
proof -
  have "Operation_ok \<lparr>op_Type = ''DELETE'', op_Key = k, op_Value = [], op_Timestamp = ts\<rparr>"
    using assms by (simp add: Operation_ok_def utf8_valid_ascii ascii_def)
  from Operation_round_trip [OF this] show ?thesis using assms by (simp add: Apply_def CreateDeleteOperation_def)
qed

theorem replicas_agree_witness:
  "SM_Get ''k'' (apply_all [(10, put_entry 1 ''k'' ''v'')] NewKVStateMachine) =
   SM_Get ''k'' (apply_all [(99, put_entry 1 ''k'' ''v'')] NewKVStateMachine)"
  using replicas_agree [of "[(10, put_entry 1 ''k'' ''v'')]" "[(99, put_entry 1 ''k'' ''v'')]" "''k''"] by simp

text \<open>
  The creation and update times in the metadata are read from the replica's own clock when
  an entry is applied, not from the timestamp inside the operation: two replicas that apply the
  same single entry at different times answer \<^verbatim>\<open>GetWithMetadata\<close> differently.
\<close>

theorem replica_timestamps_differ:
  "SM_GetWithMetadata ''k'' (apply_all [(t, put_entry 1 ''k'' ''v'')] NewKVStateMachine) =
   (''v'', \<lparr>md_CreatedAt = t, md_UpdatedAt = t, md_Version = 1\<rparr>, True)"
proof -
  have "Apply t (put_entry 1 ''k'' ''v'') NewKVStateMachine =
      applyPut t \<lparr>op_Type = ''PUT'', op_Key = ''k'', op_Value = ''v'', op_Timestamp = 0\<rparr> NewKVStateMachine"
    by (rule Apply_put) (simp_all add: utf8_valid_ascii ascii_def put_entry_def int64_def)
  then show ?thesis by (simp add: SM_GetWithMetadata_def applyPut_def NewKVStateMachine_def Let_def)
qed

text \<open>
  An operation built by the constructors, applied as the payload of a log entry, has its
  effect: a put makes its key answer the value, a delete makes it absent, and no other key
  changes. Keys and values must be valid UTF-8, which JSON requires.
\<close>

theorem operations_take_effect:
  assumes "utf8_valid k" and "utf8_valid v" and "int64 ts"
    and "le_Data p = CreatePutOperation ts k v" and "le_Data q = CreateDeleteOperation ts k"
  shows "SM_Get k' (snd (Apply now p sm)) = (if k' = k then (v, True) else SM_Get k' sm) \<and>
    SM_Get k' (snd (Apply now q sm)) = (if k' = k then ([], False) else SM_Get k' sm) \<and>
    ValidateOperation (le_Data p) = (if k = [] then Some ''PUT operation requires a key'' else None)"
proof -
  have "Operation_ok \<lparr>op_Type = ''PUT'', op_Key = k, op_Value = v, op_Timestamp = ts\<rparr>"
    using assms by (simp add: Operation_ok_def utf8_valid_ascii ascii_def)
  from Operation_round_trip [OF this]
  have "ValidateOperation (le_Data p) = (if k = [] then Some ''PUT operation requires a key'' else None)"
    using assms(4) by (simp add: ValidateOperation_def CreatePutOperation_def)
  then show ?thesis
    using Apply_put [OF assms(1,2,4,3)] Apply_delete [OF assms(1,5,3)]
    by (auto simp: applyPut_def applyDelete_def SM_Get_def Let_def split: option.splits)
qed

theorem operations_take_effect_witness:
  "SM_Get ''a'' (snd (Apply 5 (put_entry 1 ''a'' ''b'') NewKVStateMachine)) = (''b'', True)"
  using operations_take_effect [of "''a''" "''b''" 0 "put_entry 1 ''a'' ''b''"
    "(put_entry 1 ''a'' ''b'')\<lparr>le_Data := CreateDeleteOperation 0 ''a''\<rparr>" "''a''" 5 NewKVStateMachine]
  by (simp add: utf8_valid_ascii ascii_def int64_def put_entry_def)



text \<open>
  From the empty machine, applying entries at times that do not run backwards keeps data and
  metadata about exactly the same keys, and no entry is updated before it was created or
  after the present.
\<close>

theorem state_machine_invariant:
  assumes "sorted (t # map fst es)"
  shows "sm_ok (last (t # map fst es)) (apply_all es NewKVStateMachine)"
  using assms by (intro sm_ok_apply_all sm_ok_New)

theorem state_machine_invariant_witness:
  "sm_ok 20 (apply_all [(10, put_entry 1 ''k'' ''v''), (20, put_entry 2 ''k'' ''w'')] NewKVStateMachine)"
  using state_machine_invariant [of 0 "[(10, put_entry 1 ''k'' ''v''), (20, put_entry 2 ''k'' ''w'')]"] by simp

end
