(* ===== verification/Persistence.thy ===== *)
theory Persistence
  imports KV_State_Machine
begin

text \<open>
  What a Raft node keeps on disk: the term and vote of
  \<^verbatim>\<open>src/internal/consensus/persistent_state.go\<close> and the log of \<^verbatim>\<open>log_storage.go\<close>. The disk is a
  map from paths to file contents. A system call that may fail takes its outcome as an
  argument, so a statement covers every pattern of failures.
  The states the disk passes through during a save are listed, which is what a crash leaves.
\<close>

type_synonym disk = "string \<rightharpoonup> bytes"

section \<open>Paths\<close>

text \<open>
  \<^verbatim>\<open>filepath.Join\<close> and \<^verbatim>\<open>filepath.Clean\<close> with the separator of Unix: the components are
  read from left to right onto a stack, empty and dot components are dropped, and a dot-dot
  component removes the component before it.
\<close>

fun splitSlash :: "string \<Rightarrow> string list" where
  "splitSlash [] = [[]]"
| "splitSlash (c # s) =
     (if c = CHR ''/'' then [] # splitSlash s
      else case splitSlash s of [] \<Rightarrow> [[c]] | x # xs \<Rightarrow> (c # x) # xs)"

fun joinSlash :: "string list \<Rightarrow> string" where
  "joinSlash [] = []"
| "joinSlash [x] = x"
| "joinSlash (x # xs) = x @ ''/'' @ joinSlash xs"

fun cleanComps :: "bool \<Rightarrow> string list \<Rightarrow> string list \<Rightarrow> string list" where
  "cleanComps rooted out [] = rev out"
| "cleanComps rooted out (x # xs) =
     cleanComps rooted
       (if x = [] \<or> x = ''.'' then out
        else if x = ''..'' then
          (case out of
             [] \<Rightarrow> (if rooted then [] else [''..''])
           | y # ys \<Rightarrow> (if y = ''..'' then x # out else ys))
        else x # out) xs"

definition filepathClean :: "string \<Rightarrow> string" where
  "filepathClean p =
     (let rooted = (take 1 p = ''/''); comps = cleanComps rooted [] (splitSlash p)
      in if rooted then ''/'' @ joinSlash comps else if comps = [] then ''.'' else joinSlash comps)"

definition filepathJoin :: "string list \<Rightarrow> string" where
  "filepathJoin elems =
     (case dropWhile (\<lambda>e. e = []) elems of [] \<Rightarrow> [] | es \<Rightarrow> filepathClean (joinSlash es))"

text \<open>
  \<^verbatim>\<open>os.WriteFile\<close> truncates the file and writes it: it succeeds, fails leaving some content
  behind, or fails before the file is opened.
\<close>

datatype write_out = WriteOk | WriteErr string bytes | OpenErr string

fun WriteFile :: "write_out \<Rightarrow> string \<Rightarrow> bytes \<Rightarrow> disk \<Rightarrow> string option \<times> disk" where
  "WriteFile WriteOk path data d = (None, d(path \<mapsto> data))"
| "WriteFile (WriteErr err part) path data d = (Some err, d(path \<mapsto> part))"
| "WriteFile (OpenErr err) path data d = (Some err, d)"

fun Rename :: "string option \<Rightarrow> string \<Rightarrow> string \<Rightarrow> disk \<Rightarrow> string option \<times> disk" where
  "Rename None old new d = (None, d(old := None, new := d old))"
| "Rename (Some err) old new d = (Some err, d)"

section \<open>Term and vote\<close>

record PersistentState =
  ps_nodeID :: string
  ps_filePath :: string
  ps_data :: PersistentStateData

record ps_io =
  io_psWrite :: write_out
  io_psRename :: "string option"

definition ps_save :: "ps_io \<Rightarrow> PersistentState \<Rightarrow> disk \<Rightarrow> string option \<times> disk" where
  "ps_save io ps d =
     (let tempFile = ps_filePath ps @ ''.tmp'';
          data = marshal_State (ps_data ps)
      in case WriteFile (io_psWrite io) tempFile data d of
           (Some err, d) \<Rightarrow> (Some (''failed to write temp file: '' @ err), d)
         | (None, d) \<Rightarrow>
             (case Rename (io_psRename io) tempFile (ps_filePath ps) d of
                (Some err, d) \<Rightarrow> (Some (''failed to rename temp file: '' @ err), d(tempFile := None))
              | (None, d) \<Rightarrow> (None, d)))"

text \<open>Loading fails on a missing file (\<^term>\<open>Inl None\<close>), on a read error, or on content that does not decode.\<close>

definition ps_load :: "string option \<Rightarrow> PersistentState \<Rightarrow> disk \<Rightarrow> string option + PersistentState" where
  "ps_load readErr ps d =
     (if readErr \<noteq> None then Inl readErr
      else case d (ps_filePath ps) of
        None \<Rightarrow> Inl None
      | Some data \<Rightarrow> (case unmarshal_State data (ps_data ps) of Inl err \<Rightarrow> Inl (Some err) | Inr pd \<Rightarrow> Inr (ps\<lparr>ps_data := pd\<rparr>)))"

definition initial_state :: PersistentStateData where
  "initial_state = \<lparr>pd_CurrentTerm = 0, pd_VotedFor = []\<rparr>"

definition NewPersistentState :: "string option \<Rightarrow> string option \<Rightarrow> ps_io \<Rightarrow> string \<Rightarrow> disk \<Rightarrow>
    (string + PersistentState) \<times> disk" where
  "NewPersistentState mkdirErr readErr io nodeID d =
     (case mkdirErr of
        Some err \<Rightarrow> (Inl (''failed to create data directory: '' @ err), d)
      | None \<Rightarrow>
          (let ps = \<lparr>ps_nodeID = nodeID, ps_filePath = filepathJoin [filepathJoin [''data'', ''raft'', nodeID], ''state.json''], ps_data = initial_state\<rparr>
           in case ps_load readErr ps d of
                Inr ps \<Rightarrow> (Inr ps, d)
              | Inl (Some err) \<Rightarrow> (Inl (''failed to load persistent state: '' @ err), d)
              | Inl None \<Rightarrow>
                  (case ps_save io ps d of
                     (Some err, d) \<Rightarrow> (Inl (''failed to save initial state: '' @ err), d)
                   | (None, d) \<Rightarrow> (Inr ps, d))))"

definition PS_Load :: "PersistentState \<Rightarrow> PersistentStateData" where
  "PS_Load ps = \<lparr>pd_CurrentTerm = pd_CurrentTerm (ps_data ps), pd_VotedFor = pd_VotedFor (ps_data ps)\<rparr>"

definition PS_Save :: "ps_io \<Rightarrow> PersistentStateData \<Rightarrow> PersistentState \<Rightarrow> disk \<Rightarrow>
    string option \<times> PersistentState \<times> disk" where
  "PS_Save io data ps d =
     (let ps = ps\<lparr>ps_data := \<lparr>pd_CurrentTerm = pd_CurrentTerm data, pd_VotedFor = pd_VotedFor data\<rparr>\<rparr>;
          (err, d) = ps_save io ps d
      in (err, ps, d))"

definition PS_UpdateTerm :: "ps_io \<Rightarrow> int \<Rightarrow> PersistentState \<Rightarrow> disk \<Rightarrow>
    string option \<times> PersistentState \<times> disk" where
  "PS_UpdateTerm io t ps d =
     (if pd_CurrentTerm (ps_data ps) < t
      then (let ps = ps\<lparr>ps_data := (ps_data ps)\<lparr>pd_CurrentTerm := t, pd_VotedFor := []\<rparr>\<rparr>;
                (err, d) = ps_save io ps d
            in (err, ps, d))
      else (None, ps, d))"

definition PS_UpdateVote :: "ps_io \<Rightarrow> int \<Rightarrow> string \<Rightarrow> PersistentState \<Rightarrow> disk \<Rightarrow>
    string option \<times> PersistentState \<times> disk" where
  "PS_UpdateVote io t candidateID ps d =
     (if t = pd_CurrentTerm (ps_data ps)
      then (let ps = ps\<lparr>ps_data := (ps_data ps)\<lparr>pd_VotedFor := candidateID\<rparr>\<rparr>;
                (err, d) = ps_save io ps d
            in (err, ps, d))
      else (Some (''cannot vote for term '' @ dec_int t @ '', current term is '' @ dec_int (pd_CurrentTerm (ps_data ps))), ps, d))"

definition PS_GetCurrentTerm :: "PersistentState \<Rightarrow> int" where
  "PS_GetCurrentTerm ps = pd_CurrentTerm (ps_data ps)"

definition PS_GetVotedFor :: "PersistentState \<Rightarrow> string" where
  "PS_GetVotedFor ps = pd_VotedFor (ps_data ps)"

definition PS_Reset :: "ps_io \<Rightarrow> PersistentState \<Rightarrow> disk \<Rightarrow> string option \<times> PersistentState \<times> disk" where
  "PS_Reset io ps d =
     (let ps = ps\<lparr>ps_data := initial_state\<rparr>;
          (err, d) = ps_save io ps d
      in (err, ps, d))"

text \<open>
  The disk states a save passes through: before it, with any partial temporary file, with the
  complete one, and after the rename.
\<close>

definition ps_save_states :: "PersistentState \<Rightarrow> disk \<Rightarrow> bytes list \<Rightarrow> disk list" where
  "ps_save_states ps d parts =
     (let tempFile = ps_filePath ps @ ''.tmp''; data = marshal_State (ps_data ps) in
      d # map (\<lambda>part. d(tempFile \<mapsto> part)) parts @
      [d(tempFile \<mapsto> data), d(tempFile := None, ps_filePath ps \<mapsto> data)])"

section \<open>The log on disk\<close>

record LogStorage =
  ls_nodeID :: string
  ls_baseDir :: string
  ls_logFile :: string
  ls_entries :: "LogEntry list"
  ls_lastIndex :: int
  ls_compactTo :: int

record LogSnapshot =
  sn_LastIndex :: int
  sn_LastTerm :: int
  sn_CompactTo :: int
  sn_EntryCount :: int

record LogStats =
  lst_EntryCount :: int
  lst_FirstIndex :: int
  lst_LastIndex :: int
  lst_CompactedUpTo :: int
  lst_StorageSizeKB :: int

record log_io =
  io_metaWrite :: write_out
  io_logWrite :: write_out
  io_logRename :: "string option"

definition metadataFile :: "LogStorage \<Rightarrow> string" where
  "metadataFile ls = filepathJoin [ls_baseDir ls, ''metadata.json'']"

definition log_metadata :: "LogStorage \<Rightarrow> LogMetadata" where
  "log_metadata ls = \<lparr>lm_FirstIndex = i64 (ls_compactTo ls + 1), lm_LastIndex = ls_lastIndex ls,
     lm_CompactTo = ls_compactTo ls\<rparr>"

definition persist :: "log_io \<Rightarrow> LogStorage \<Rightarrow> disk \<Rightarrow> string option \<times> disk" where
  "persist io ls d =
     (case WriteFile (io_metaWrite io) (metadataFile ls) (marshal_Metadata (log_metadata ls)) d of
        (Some err, d) \<Rightarrow> (Some (''failed to write metadata: '' @ err), d)
      | (None, d) \<Rightarrow>
          (let tempFile = ls_logFile ls @ ''.tmp'' in
           case WriteFile (io_logWrite io) tempFile (marshal_Entries (ls_entries ls)) d of
             (Some err, d) \<Rightarrow> (Some (''failed to write temp log file: '' @ err), d)
           | (None, d) \<Rightarrow>
               (case Rename (io_logRename io) tempFile (ls_logFile ls) d of
                  (Some err, d) \<Rightarrow> (Some (''failed to rename temp log file: '' @ err), d(tempFile := None))
                | (None, d) \<Rightarrow> (None, d))))"

definition loadLog :: "bool \<Rightarrow> string option \<Rightarrow> LogStorage \<Rightarrow> disk \<Rightarrow> string + LogStorage" where
  "loadLog metaErr readErr ls d =
     (let ls = (case (if metaErr then None else d (metadataFile ls)) of
                  None \<Rightarrow> ls
                | Some data \<Rightarrow>
                    (case unmarshal_Metadata data of
                       Inl err \<Rightarrow> ls
                     | Inr m \<Rightarrow> ls\<lparr>ls_lastIndex := lm_LastIndex m, ls_compactTo := lm_CompactTo m\<rparr>))
      in case readErr of
           Some err \<Rightarrow> Inl (''failed to read log file: '' @ err)
         | None \<Rightarrow>
             (case d (ls_logFile ls) of
                None \<Rightarrow> Inr ls
              | Some data \<Rightarrow>
                  (case unmarshal_Entries data of
                     Inl err \<Rightarrow> Inl (''failed to unmarshal log entries: '' @ err)
                   | Inr es \<Rightarrow> Inr (ls\<lparr>ls_entries := es\<rparr>))))"

definition empty_LogStorage :: "string \<Rightarrow> LogStorage" where
  "empty_LogStorage nodeID =
     \<lparr>ls_nodeID = nodeID, ls_baseDir = filepathJoin [''data'', ''raft'', nodeID, ''log''],
      ls_logFile = filepathJoin [filepathJoin [''data'', ''raft'', nodeID, ''log''], ''entries.json''],
      ls_entries = [], ls_lastIndex = 0, ls_compactTo = 0\<rparr>"

definition NewLogStorage :: "string option \<Rightarrow> bool \<Rightarrow> string option \<Rightarrow> string \<Rightarrow> disk \<Rightarrow> string + LogStorage" where
  "NewLogStorage mkdirErr metaErr readErr nodeID d =
     (case mkdirErr of
        Some err \<Rightarrow> Inl (''failed to create log directory: '' @ err)
      | None \<Rightarrow>
          (case loadLog metaErr readErr (empty_LogStorage nodeID) d of
             Inl err \<Rightarrow> Inl (''failed to load log: '' @ err)
           | Inr ls \<Rightarrow> Inr ls))"

definition LS_AppendEntries :: "log_io \<Rightarrow> LogEntry list \<Rightarrow> LogStorage \<Rightarrow> disk \<Rightarrow>
    string option \<times> LogStorage \<times> disk" where
  "LS_AppendEntries io entries ls d =
     (let ls = ls\<lparr>ls_entries := ls_entries ls @ entries\<rparr>;
          ls = (if entries \<noteq> [] then ls\<lparr>ls_lastIndex := le_Index (last entries)\<rparr> else ls);
          (err, d) = persist io ls d
      in (err, ls, d))"

definition LS_GetEntries :: "int \<Rightarrow> int \<Rightarrow> LogStorage \<Rightarrow> string + LogEntry list" where
  "LS_GetEntries startIndex endIndex ls =
     (if startIndex < ls_compactTo ls then Inl ''requested entries before compaction point''
      else Inr (filter (\<lambda>entry. startIndex \<le> le_Index entry \<and> le_Index entry \<le> endIndex) (ls_entries ls)))"

definition LS_GetLastIndex :: "LogStorage \<Rightarrow> int" where
  "LS_GetLastIndex ls = ls_lastIndex ls"

definition LS_GetLastTerm :: "LogStorage \<Rightarrow> int" where
  "LS_GetLastTerm ls = (if ls_entries ls = [] then 0 else le_Term (last (ls_entries ls)))"

definition LS_TruncateFrom :: "log_io \<Rightarrow> int \<Rightarrow> LogStorage \<Rightarrow> disk \<Rightarrow>
    string option \<times> LogStorage \<times> disk" where
  "LS_TruncateFrom io index ls d =
     (if index \<le> ls_compactTo ls then (Some ''cannot truncate before compaction point'', ls, d)
      else (let newEntries = filter (\<lambda>entry. le_Index entry < index) (ls_entries ls);
                ls = ls\<lparr>ls_entries := newEntries,
                        ls_lastIndex := (if newEntries \<noteq> [] then le_Index (last newEntries) else ls_compactTo ls)\<rparr>;
                (err, d) = persist io ls d
            in (err, ls, d)))"

definition LS_Compact :: "log_io \<Rightarrow> int \<Rightarrow> LogStorage \<Rightarrow> disk \<Rightarrow>
    string option \<times> LogStorage \<times> disk" where
  "LS_Compact io upToIndex ls d =
     (if upToIndex \<le> ls_compactTo ls then (None, ls, d)
      else (let ls = ls\<lparr>ls_entries := filter (\<lambda>entry. upToIndex < le_Index entry) (ls_entries ls),
                        ls_compactTo := upToIndex\<rparr>;
                (err, d) = persist io ls d
            in (err, ls, d)))"

definition LS_GetSnapshot :: "LogStorage \<Rightarrow> LogSnapshot" where
  "LS_GetSnapshot ls = \<lparr>sn_LastIndex = ls_lastIndex ls, sn_LastTerm = LS_GetLastTerm ls,
     sn_CompactTo = ls_compactTo ls, sn_EntryCount = int (length (ls_entries ls))\<rparr>"

definition LS_InstallSnapshot :: "log_io \<Rightarrow> LogSnapshot \<Rightarrow> LogEntry list \<Rightarrow> LogStorage \<Rightarrow> disk \<Rightarrow>
    string option \<times> LogStorage \<times> disk" where
  "LS_InstallSnapshot io snapshot entries ls d =
     (let ls = ls\<lparr>ls_entries := entries, ls_lastIndex := sn_LastIndex snapshot, ls_compactTo := sn_CompactTo snapshot\<rparr>;
          (err, d) = persist io ls d
      in (err, ls, d))"

definition estimateStorageSize :: "bool \<Rightarrow> LogStorage \<Rightarrow> disk \<Rightarrow> int" where
  "estimateStorageSize statErr ls d = (case (if statErr then None else d (ls_logFile ls)) of None \<Rightarrow> 0 | Some data \<Rightarrow> int (length data) div 1024)"

definition LS_GetStats :: "bool \<Rightarrow> LogStorage \<Rightarrow> disk \<Rightarrow> LogStats" where
  "LS_GetStats statErr ls d = \<lparr>lst_EntryCount = int (length (ls_entries ls)), lst_FirstIndex = i64 (ls_compactTo ls + 1),
     lst_LastIndex = ls_lastIndex ls, lst_CompactedUpTo = ls_compactTo ls, lst_StorageSizeKB = estimateStorageSize statErr ls d\<rparr>"

record LogCompactor =
  lc_compactionTrigger :: int
  lc_retentionSize :: int

definition NewLogCompactor :: LogCompactor where
  "NewLogCompactor = \<lparr>lc_compactionTrigger = 1000, lc_retentionSize = 100\<rparr>"

definition ShouldCompact :: "bool \<Rightarrow> LogCompactor \<Rightarrow> LogStorage \<Rightarrow> disk \<Rightarrow> bool" where
  "ShouldCompact statErr lc ls d = (lc_compactionTrigger lc \<le> lst_EntryCount (LS_GetStats statErr ls d))"

definition LC_Compact :: "log_io \<Rightarrow> bool \<Rightarrow> LogCompactor \<Rightarrow> int \<Rightarrow> LogStorage \<Rightarrow> disk \<Rightarrow>
    string option \<times> LogStorage \<times> disk" where
  "LC_Compact io statErr lc upToIndex ls d =
     (let maxCompactIndex = i64 (lst_LastIndex (LS_GetStats statErr ls d) - lc_retentionSize lc);
          upToIndex = (if maxCompactIndex < upToIndex then maxCompactIndex else upToIndex)
      in if upToIndex \<le> 0 then (None, ls, d) else LS_Compact io upToIndex ls d)"

section \<open>Path lemmas\<close>

lemma splitSlash_ne [simp]: "splitSlash s \<noteq> []"
  by (induction s) (auto split: list.splits)

lemma splitSlash_plain: "CHR ''/'' \<notin> set x \<Longrightarrow> splitSlash x = [x]"
  by (induction x) auto

lemma splitSlash_last:
  assumes "CHR ''/'' \<notin> set x"
  shows "splitSlash (b @ CHR ''/'' # x) = splitSlash b @ [x]"
proof (induction b)
  case Nil
  then show ?case using assms by (simp add: splitSlash_plain)
next
  case (Cons c b)
  then show ?case by (cases "splitSlash b") auto
qed

lemma cleanComps_snoc:
  assumes "x \<noteq> []" "x \<noteq> ''.''" "x \<noteq> ''..''"
  shows "\<exists>ys. cleanComps r out (xs @ [x]) = ys @ [x]"
  using assms by (induction xs arbitrary: out) auto

lemma joinSlash_snoc: "\<exists>p. joinSlash (ys @ [x]) = p @ x"
proof (induction ys)
  case (Cons y ys)
  then obtain p where "joinSlash (ys @ [x]) = p @ x" by blast
  then show ?case by (cases "ys @ [x]") auto
qed simp

text \<open>A path joined with a plain file name ends in that name.\<close>

lemma filepathJoin_suffix:
  assumes "x \<noteq> []" "x \<noteq> ''.''" "x \<noteq> ''..''" "CHR ''/'' \<notin> set x"
  shows "\<exists>p. filepathJoin [b, x] = p @ x"
proof (cases "b = []")
  case True
  have "hd x \<noteq> CHR ''/''" using assms by (cases x) auto
  then show ?thesis using True assms by (cases x) (auto simp: filepathJoin_def filepathClean_def splitSlash_plain)
next
  case False
  let ?p = "b @ CHR ''/'' # x"
  obtain ys where "cleanComps (take 1 ?p = ''/'') [] (splitSlash ?p) = ys @ [x]"
    using cleanComps_snoc [OF assms(1-3)] splitSlash_last [OF assms(4)] by metis
  moreover obtain p where "joinSlash (ys @ [x]) = p @ x" using joinSlash_snoc by blast
  ultimately have "filepathClean ?p = p @ x \<or> filepathClean ?p = ''/'' @ p @ x"
    by (auto simp: filepathClean_def Let_def)
  then show ?thesis using False unfolding filepathJoin_def by (auto intro: exI [of _ "CHR ''/'' # p"])
qed

lemma log_paths_distinct:
  fixes ls :: LogStorage
  assumes "ls_logFile ls = filepathJoin [ls_baseDir ls, ''entries.json'']"
  shows "metadataFile ls \<noteq> ls_logFile ls" "metadataFile ls \<noteq> ls_logFile ls @ ''.tmp''"
proof -
  obtain p where p: "metadataFile ls = p @ ''metadata.json''"
    using filepathJoin_suffix [of "''metadata.json''" "ls_baseDir ls"] by (auto simp: metadataFile_def)
  obtain q where q: "ls_logFile ls = q @ ''entries.json''"
    using filepathJoin_suffix [of "''entries.json''" "ls_baseDir ls"] assms by auto
  have "rev (metadataFile ls) \<noteq> rev (ls_logFile ls)" "rev (metadataFile ls) \<noteq> rev (ls_logFile ls @ ''.tmp'')"
    by (simp_all add: p q)
  then show "metadataFile ls \<noteq> ls_logFile ls" "metadataFile ls \<noteq> ls_logFile ls @ ''.tmp''" by auto
qed

section \<open>Saving the term and vote\<close>

lemma ps_save_file:
  "ps_save io ps d = (err, d') \<Longrightarrow>
    d' (ps_filePath ps) = (if err = None then Some (marshal_State (ps_data ps)) else d (ps_filePath ps))"
  by (cases "io_psWrite io"; cases "io_psRename io") (auto simp: ps_save_def Let_def)

lemma ps_load_save:
  assumes "ps_save io ps d = (err, d')" and "State_ok (ps_data ps)"
    and "ps_filePath psi = ps_filePath ps" and "ps_nodeID psi = ps_nodeID ps"
  shows "ps_load None psi d' = (if err = None then Inr ps else ps_load None psi d)"
  using assms ps_save_file [OF assms(1)] by (simp add: ps_load_def State_round_trip)

lemma ps_crash_file:
  "d' \<in> set (ps_save_states ps d parts) \<Longrightarrow>
    d' (ps_filePath ps) = d (ps_filePath ps) \<or> d' (ps_filePath ps) = Some (marshal_State (ps_data ps))"
  by (auto simp: ps_save_states_def Let_def)

section \<open>Logs with consecutive indices\<close>

fun contig :: "int \<Rightarrow> LogEntry list \<Rightarrow> bool" where
  "contig c [] = True"
| "contig c (e # es) = (le_Index e = c + 1 \<and> contig (c + 1) es)"

lemma contig_append [simp]: "contig c (es @ es') \<longleftrightarrow> contig c es \<and> contig (c + int (length es)) es'"
  by (induction es arbitrary: c) (auto simp: algebra_simps)

lemma contig_nth: "contig c es \<Longrightarrow> i < length es \<Longrightarrow> le_Index (es ! i) = c + int i + 1"
  by (induction es arbitrary: c i) (auto simp: nth_Cons split: nat.splits)

lemma contig_last: "contig c es \<Longrightarrow> es \<noteq> [] \<Longrightarrow> le_Index (last es) = c + int (length es)"
  by (cases es rule: rev_cases) auto

lemma contig_take [simp]: "contig c es \<Longrightarrow> contig c (take n es)"
  by (metis append_take_drop_id contig_append)

lemma contig_drop [simp]: "contig c es \<Longrightarrow> contig (c + int (min n (length es))) (drop n es)"
  by (metis append_take_drop_id contig_append length_take min.commute)

lemma contig_filter_less: "contig c es \<Longrightarrow> filter (\<lambda>e. le_Index e < n) es = take (nat (n - 1 - c)) es"
proof (induction es arbitrary: c)
  case (Cons e es)
  have IH: "filter (\<lambda>e. le_Index e < n) es = take (nat (n - 1 - (c + 1))) es"
    by (intro Cons.IH) (use Cons.prems in simp)
  show ?case
  proof (cases "c + 1 < n")
    case True
    then have "nat (n - 1 - c) = Suc (nat (n - 1 - (c + 1)))" by simp
    then show ?thesis using True Cons.prems IH by simp
  next
    case False
    then show ?thesis using Cons.prems IH by simp
  qed
qed simp

lemma contig_filter_greater: "contig c es \<Longrightarrow> filter (\<lambda>e. n < le_Index e) es = drop (nat (n - c)) es"
proof (induction es arbitrary: c)
  case (Cons e es)
  have IH: "filter (\<lambda>e. n < le_Index e) es = drop (nat (n - (c + 1))) es"
    by (intro Cons.IH) (use Cons.prems in simp)
  show ?case
  proof (cases "n < c + 1")
    case True
    then show ?thesis using Cons.prems IH by simp
  next
    case False
    then have "nat (n - c) = Suc (nat (n - (c + 1)))" by simp
    then show ?thesis using False Cons.prems IH by simp
  qed
qed simp

definition ls_wf :: "LogStorage \<Rightarrow> bool" where
  "ls_wf ls = (contig (ls_compactTo ls) (ls_entries ls) \<and>
     ls_lastIndex ls = ls_compactTo ls + int (length (ls_entries ls)))"

lemma ls_wf_Append:
  assumes "ls_wf ls" and "contig (ls_lastIndex ls) entries"
  shows "ls_wf (fst (snd (LS_AppendEntries io entries ls d)))"
  using assms contig_last [of "ls_lastIndex ls" entries]
  by (auto simp: LS_AppendEntries_def ls_wf_def Let_def split: prod.splits)

lemma ls_wf_Truncate:
  assumes "ls_wf ls"
  shows "ls_wf (fst (snd (LS_TruncateFrom io index ls d)))"
proof (cases "index \<le> ls_compactTo ls")
  case False
  let ?es = "take (nat (index - 1 - ls_compactTo ls)) (ls_entries ls)"
  have "contig (ls_compactTo ls) ?es" using assms by (simp add: ls_wf_def)
  moreover from this have "?es \<noteq> [] \<Longrightarrow> le_Index (last ?es) = ls_compactTo ls + int (length ?es)" by (rule contig_last)
  moreover have "filter (\<lambda>e. le_Index e < index) (ls_entries ls) = ?es"
    using assms by (intro contig_filter_less) (simp add: ls_wf_def)
  ultimately show ?thesis using False by (auto simp: LS_TruncateFrom_def ls_wf_def Let_def split: prod.splits)
qed (use assms in \<open>simp add: LS_TruncateFrom_def\<close>)

lemma ls_wf_Compact:
  assumes "ls_wf ls" and "upTo \<le> ls_lastIndex ls"
  shows "ls_wf (fst (snd (LS_Compact io upTo ls d)))"
proof (cases "upTo \<le> ls_compactTo ls")
  case False
  let ?n = "nat (upTo - ls_compactTo ls)"
  have n: "min ?n (length (ls_entries ls)) = ?n" "ls_compactTo ls + int ?n = upTo"
    "int (length (ls_entries ls) - ?n) = ls_lastIndex ls - upTo"
    using assms False by (auto simp: ls_wf_def)
  have "contig (ls_compactTo ls + int (min ?n (length (ls_entries ls)))) (drop ?n (ls_entries ls))"
    using assms by (intro contig_drop) (simp add: ls_wf_def)
  then have "contig upTo (drop ?n (ls_entries ls))" unfolding n .
  moreover have "filter (\<lambda>e. upTo < le_Index e) (ls_entries ls) = drop ?n (ls_entries ls)"
    using assms by (intro contig_filter_greater) (simp add: ls_wf_def)
  ultimately show ?thesis using False n(3) by (auto simp: LS_Compact_def ls_wf_def Let_def split: prod.splits)
qed (use assms in \<open>simp add: LS_Compact_def\<close>)

section \<open>Runs of log operations\<close>

text \<open>
  A call on the log with the outcomes of its system calls; the compactor is the only caller
  that compacts. \<open>log_run\<close> is a sequence of calls none of which reports an error.
\<close>

datatype log_op = LAppend "LogEntry list" | LTruncate int | LCompact bool LogCompactor int

fun log_step :: "log_io \<Rightarrow> log_op \<Rightarrow> LogStorage \<times> disk \<Rightarrow> string option \<times> LogStorage \<times> disk" where
  "log_step io (LAppend es) (ls, d) = LS_AppendEntries io es ls d"
| "log_step io (LTruncate i) (ls, d) = LS_TruncateFrom io i ls d"
| "log_step io (LCompact statErr lc i) (ls, d) = LC_Compact io statErr lc i ls d"

fun log_run :: "(log_io \<times> log_op) list \<Rightarrow> LogStorage \<times> disk \<Rightarrow> (LogStorage \<times> disk) option" where
  "log_run [] s = Some s"
| "log_run ((io, op) # ops) s =
     (case log_step io op s of (None, s') \<Rightarrow> log_run ops s' | (Some err, s') \<Rightarrow> None)"

text \<open>
  What the callers owe: appended entries continue the log and fit their fields, a compactor
  retains a non-negative number of entries.
\<close>

fun log_op_ok :: "log_op \<Rightarrow> LogStorage \<Rightarrow> bool" where
  "log_op_ok (LAppend es) ls = (contig (ls_lastIndex ls) es \<and> list_all LogEntry_ok es)"
| "log_op_ok (LTruncate i) ls = True"
| "log_op_ok (LCompact statErr lc i) ls = (0 \<le> lc_retentionSize lc \<and> int64 (lc_retentionSize lc))"

fun log_ops_ok :: "(log_io \<times> log_op) list \<Rightarrow> LogStorage \<times> disk \<Rightarrow> bool" where
  "log_ops_ok [] s = True"
| "log_ops_ok ((io, op) # ops) s =
     (log_op_ok op (fst s) \<and> log_ops_ok ops (snd (log_step io op s)))"

definition ls_ok :: "LogStorage \<Rightarrow> bool" where
  "ls_ok ls = (ls_wf ls \<and> 0 \<le> ls_compactTo ls \<and> int64 (ls_compactTo ls) \<and> list_all LogEntry_ok (ls_entries ls) \<and>
     ls\<lparr>ls_entries := [], ls_lastIndex := 0, ls_compactTo := 0\<rparr> = empty_LogStorage (ls_nodeID ls))"

lemma ls_ok_empty: "ls_ok (empty_LogStorage nodeID)"
  by (simp add: ls_ok_def ls_wf_def empty_LogStorage_def int64_def)

lemma ls_ok_lastIndex:
  assumes "ls_ok ls"
  shows "int64 (ls_lastIndex ls)" "0 \<le> ls_lastIndex ls" "ls_compactTo ls \<le> ls_lastIndex ls"
proof -
  have "ls_lastIndex ls = (if ls_entries ls = [] then ls_compactTo ls else le_Index (last (ls_entries ls)))"
    using assms contig_last by (auto simp: ls_ok_def ls_wf_def)
  moreover have "ls_entries ls \<noteq> [] \<Longrightarrow> LogEntry_ok (last (ls_entries ls))"
    using assms by (auto simp: ls_ok_def list_all_iff)
  ultimately show "int64 (ls_lastIndex ls)" using assms by (auto simp: ls_ok_def LogEntry_ok_def)
  show "0 \<le> ls_lastIndex ls" "ls_compactTo ls \<le> ls_lastIndex ls" using assms by (auto simp: ls_ok_def ls_wf_def)
qed

lemma LS_Append_fields:
  "ls_entries (fst (snd (LS_AppendEntries io es ls d))) = ls_entries ls @ es"
  "ls_compactTo (fst (snd (LS_AppendEntries io es ls d))) = ls_compactTo ls"
  by (simp_all add: LS_AppendEntries_def Let_def split: prod.splits)

lemma LS_paths:
  fixes ls :: LogStorage
  defines "frame \<equiv> \<lambda>l. l\<lparr>ls_entries := [], ls_lastIndex := 0, ls_compactTo := 0\<rparr>"
  shows "frame (fst (snd (LS_AppendEntries io es ls d))) = frame ls"
    "frame (fst (snd (LS_TruncateFrom io i ls d))) = frame ls"
    "frame (fst (snd (LS_Compact io i ls d))) = frame ls"
  by (simp_all add: frame_def LS_AppendEntries_def LS_TruncateFrom_def LS_Compact_def Let_def split: prod.splits)

lemma LS_node:
  "ls_nodeID (fst (snd (LS_AppendEntries io es ls d))) = ls_nodeID ls"
  "ls_nodeID (fst (snd (LS_TruncateFrom io i ls d))) = ls_nodeID ls"
  "ls_nodeID (fst (snd (LS_Compact io i ls d))) = ls_nodeID ls"
  by (simp_all add: LS_AppendEntries_def LS_TruncateFrom_def LS_Compact_def Let_def split: prod.splits)

lemma ls_ok_Append:
  assumes "ls_ok ls" and "contig (ls_lastIndex ls) es" and "list_all LogEntry_ok es"
  shows "ls_ok (fst (snd (LS_AppendEntries io es ls d)))"
  using assms unfolding ls_ok_def by (simp add: ls_wf_Append LS_Append_fields LS_node LS_paths)

lemma ls_ok_Truncate:
  assumes "ls_ok ls"
  shows "ls_ok (fst (snd (LS_TruncateFrom io i ls d)))"
proof -
  have "ls_compactTo (fst (snd (LS_TruncateFrom io i ls d))) = ls_compactTo ls"
    "set (ls_entries (fst (snd (LS_TruncateFrom io i ls d)))) \<subseteq> set (ls_entries ls)"
    by (auto simp: LS_TruncateFrom_def Let_def split: prod.splits)
  then show ?thesis using assms unfolding ls_ok_def by (auto simp: ls_wf_Truncate LS_node LS_paths list_all_iff)
qed

lemma ls_ok_Compact:
  assumes "ls_ok ls" and "i \<le> ls_lastIndex ls"
  shows "ls_ok (fst (snd (LS_Compact io i ls d)))"
proof -
  have "ls_compactTo (fst (snd (LS_Compact io i ls d))) = max i (ls_compactTo ls)"
    "set (ls_entries (fst (snd (LS_Compact io i ls d)))) \<subseteq> set (ls_entries ls)"
    by (auto simp: LS_Compact_def Let_def split: prod.splits)
  moreover have "int64 (max i (ls_compactTo ls))" "0 \<le> max i (ls_compactTo ls)"
    using assms ls_ok_lastIndex [OF assms(1)] by (auto simp: ls_ok_def int64_def max_def)
  ultimately show ?thesis using assms unfolding ls_ok_def by (auto simp: ls_wf_Compact LS_node LS_paths list_all_iff)
qed

lemma LC_Compact_eq:
  assumes "ls_ok ls" and "0 \<le> lc_retentionSize lc" and "int64 (lc_retentionSize lc)"
  shows "LC_Compact io statErr lc i ls d =
    (let j = min i (ls_lastIndex ls - lc_retentionSize lc) in if j \<le> 0 then (None, ls, d) else LS_Compact io j ls d)"
proof -
  have "i64 (ls_lastIndex ls - lc_retentionSize lc) = ls_lastIndex ls - lc_retentionSize lc"
    by (rule i64_id) (use assms ls_ok_lastIndex [OF assms(1)] in \<open>auto simp: int64_def\<close>)
  then show ?thesis by (auto simp: LC_Compact_def LS_GetStats_def Let_def)
qed

lemma ls_ok_step:
  assumes "ls_ok ls" and "log_op_ok op ls"
  shows "ls_ok (fst (snd (log_step io op (ls, d))))"
proof (cases op)
  case (LAppend es)
  then show ?thesis using assms by (simp add: ls_ok_Append)
next
  case (LTruncate i)
  then show ?thesis using assms by (simp add: ls_ok_Truncate)
next
  case (LCompact statErr lc i)
  then have "min i (ls_lastIndex ls - lc_retentionSize lc) \<le> ls_lastIndex ls" using assms by auto
  then show ?thesis using assms LCompact by (simp add: LC_Compact_eq ls_ok_Compact Let_def del: min_less_iff_conj)
qed

section \<open>Reopening the log\<close>

lemma persist_reopen:
  assumes ok: "ls_ok ls" and saved: "persist io ls d = (None, d')"
  shows "NewLogStorage None False None (ls_nodeID ls) d' = Inr ls"
proof -
  let ?e = "empty_LogStorage (ls_nodeID ls)"
  have frame: "ls\<lparr>ls_entries := [], ls_lastIndex := 0, ls_compactTo := 0\<rparr> = ?e" using ok by (simp add: ls_ok_def)
  then have paths: "ls_logFile ls = ls_logFile ?e" "ls_baseDir ls = ls_baseDir ?e" "metadataFile ls = metadataFile ?e"
    by (auto simp: metadataFile_def dest: arg_cong [of _ _ ls_logFile] arg_cong [of _ _ ls_baseDir])
  have ne: "metadataFile ls \<noteq> ls_logFile ls" "metadataFile ls \<noteq> ls_logFile ls @ ''.tmp''"
    by (rule log_paths_distinct, simp add: paths empty_LogStorage_def)+
  have "d' (metadataFile ls) = Some (marshal_Metadata (log_metadata ls))"
    "d' (ls_logFile ls) = Some (marshal_Entries (ls_entries ls))"
    using saved ne by (cases "io_metaWrite io"; cases "io_logWrite io"; cases "io_logRename io"; auto simp: persist_def Let_def)+
  moreover have "Metadata_ok (log_metadata ls)"
    using ok ls_ok_lastIndex [OF ok] i64_range by (simp add: Metadata_ok_def log_metadata_def ls_ok_def int64_def)
  moreover have "list_all LogEntry_ok (ls_entries ls)" using ok by (simp add: ls_ok_def)
  ultimately have "loadLog False None ?e d' = Inr (?e\<lparr>ls_lastIndex := ls_lastIndex ls, ls_compactTo := ls_compactTo ls,
      ls_entries := ls_entries ls\<rparr>)"
    by (simp add: loadLog_def paths Metadata_round_trip Entries_round_trip log_metadata_def Let_def del: list_all_iff)
  also have "\<dots> = Inr ls" unfolding frame [symmetric] by simp
  finally show ?thesis by (simp add: NewLogStorage_def)
qed

lemma log_step_persists:
  assumes "log_step io op (ls, d) = (None, ls', d')"
  shows "persist io ls' d = (None, d') \<or> (ls' = ls \<and> d' = d)"
  using assms by (cases op) (auto simp: LS_AppendEntries_def LS_TruncateFrom_def LC_Compact_def LS_Compact_def Let_def
    split: prod.splits if_splits)

lemma log_step_node: "ls_nodeID (fst (snd (log_step io op (ls, d)))) = ls_nodeID ls"
  by (cases op) (simp_all add: LS_node LC_Compact_def Let_def)

lemma log_run_reopen:
  assumes "NewLogStorage None False None (ls_nodeID ls) d = Inr ls" and "ls_ok ls"
    and "log_ops_ok ops (ls, d)" and "log_run ops (ls, d) = Some (ls', d')"
  shows "NewLogStorage None False None (ls_nodeID ls) d' = Inr ls' \<and> ls_ok ls'"
  using assms
proof (induction ops arbitrary: ls d)
  case Nil
  then show ?case by simp
next
  case (Cons a ops)
  obtain io op where a: "a = (io, op)" by force
  from Cons.prems(4) a obtain ls1 d1 where step: "log_step io op (ls, d) = (None, ls1, d1)"
    and rest: "log_run ops (ls1, d1) = Some (ls', d')" by (auto split: prod.splits option.splits)
  have ok1: "ls_ok ls1" and node: "ls_nodeID ls1 = ls_nodeID ls" and ops1: "log_ops_ok ops (ls1, d1)"
    using ls_ok_step [OF Cons.prems(2), of op io d] log_step_node [of io op ls d] Cons.prems(3) step a by auto
  have "NewLogStorage None False None (ls_nodeID ls1) d1 = Inr ls1"
    using log_step_persists [OF step] persist_reopen [OF ok1] Cons.prems(1) node by auto
  from Cons.IH [OF this ok1 ops1 rest] show ?case by (simp add: node)
qed

section \<open>Properties\<close>




definition io_ok :: log_io where
  "io_ok = \<lparr>io_metaWrite = WriteOk, io_logWrite = WriteOk, io_logRename = None\<rparr>"

definition test_entry :: "int \<Rightarrow> LogEntry" where
  "test_entry i = \<lparr>le_Index = i, le_Term = 1, le_Type = ''PUT'', le_Data = ''x'', le_Timestamp = 7\<rparr>"

definition test_ops :: "(log_io \<times> log_op) list" where
  "test_ops = [(io_ok, LAppend [test_entry 1, test_entry 2, test_entry 3]), (io_ok, LTruncate 3),
     (io_ok, LCompact False \<lparr>lc_compactionTrigger = 10, lc_retentionSize = 1\<rparr> 2)]"


text \<open>
  Reading a range of the log: a start before the compaction point is refused; any other
  range is the slice of the retained entries with those indices.
\<close>

theorem log_GetEntries:
  assumes "ls_ok ls"
  shows "LS_GetEntries s e ls =
    (if s < ls_compactTo ls then Inl ''requested entries before compaction point''
     else Inr (take (nat (e - ls_compactTo ls) - nat (s - 1 - ls_compactTo ls)) (drop (nat (s - 1 - ls_compactTo ls)) (ls_entries ls))))"
proof -
  let ?c = "ls_compactTo ls" and ?es = "ls_entries ls"
  have c: "contig ?c ?es" using assms by (simp add: ls_ok_def ls_wf_def)
  have "filter (\<lambda>x. s \<le> le_Index x \<and> le_Index x \<le> e) ?es =
      filter (\<lambda>x. s - 1 < le_Index x) (filter (\<lambda>x. le_Index x < e + 1) ?es)"
    by (auto intro: filter_cong)
  also have "\<dots> = drop (nat (s - 1 - ?c)) (take (nat (e - ?c)) ?es)"
    by (simp only: contig_filter_less [OF c] contig_filter_greater [OF contig_take [OF c]]) simp
  also have "\<dots> = take (nat (e - ?c) - nat (s - 1 - ?c)) (drop (nat (s - 1 - ?c)) ?es)" by (simp add: drop_take)
  finally show ?thesis by (simp add: LS_GetEntries_def)
qed

theorem log_GetEntries_witness:
  "LS_GetEntries 2 3 ((empty_LogStorage ''n1'')\<lparr>ls_entries := map test_entry [1, 2, 3, 4], ls_lastIndex := 4\<rparr>) =
    Inr (map test_entry [2, 3])"
proof -
  let ?ls = "(empty_LogStorage ''n1'')\<lparr>ls_entries := map test_entry [1, 2, 3, 4], ls_lastIndex := 4\<rparr>"
  have "ls_ok ?ls"
    by (simp add: ls_ok_def ls_wf_def empty_LogStorage_def test_entry_def int64_def LogEntry_ok_def utf8_valid_ascii ascii_def)
  from log_GetEntries [OF this, of 2 3] show ?thesis by (simp add: empty_LogStorage_def eval_nat_numeral)
qed

text \<open>
  The metadata of the log is replaced before its entries. When the second step fails (here
  the rename), reopening the log finds a last index whose entry is missing: the storage
  answers index 1 as its last index and term 0 as its last term, with no entry at all.
\<close>

theorem log_partial_persist:
  "\<exists>err ls d ls2.
     LS_AppendEntries (io_ok\<lparr>io_logRename := Some ''EIO''\<rparr>) [test_entry 1] (empty_LogStorage ''n1'') Map.empty = (Some err, ls, d) \<and>
     NewLogStorage None False None ''n1'' d = Inr ls2 \<and>
     LS_GetLastIndex ls2 = 1 \<and> LS_GetLastTerm ls2 = 0 \<and> ls_entries ls2 = []"
proof -
  let ?e = "empty_LogStorage ''n1''"
  let ?ls = "?e\<lparr>ls_entries := [test_entry 1], ls_lastIndex := 1\<rparr>"
  let ?m = "\<lparr>lm_FirstIndex = 1, lm_LastIndex = 1, lm_CompactTo = 0\<rparr>"
  let ?d = "[metadataFile ?e \<mapsto> marshal_Metadata ?m]"
  have paths: "metadataFile ?ls = metadataFile ?e" "ls_logFile ?ls = ls_logFile ?e" by (simp_all add: metadataFile_def)
  have ne: "metadataFile ?e \<noteq> ls_logFile ?e" "metadataFile ?e \<noteq> ls_logFile ?e @ ''.tmp''"
    by (rule log_paths_distinct, simp add: empty_LogStorage_def)+
  have lm: "log_metadata ?ls = ?m" by (simp add: log_metadata_def empty_LogStorage_def i64_def)
  have e: "ls_entries ?e = []" "le_Index (test_entry 1) = 1" by (simp_all add: empty_LogStorage_def test_entry_def)
  have "LS_AppendEntries (io_ok\<lparr>io_logRename := Some ''EIO''\<rparr>) [test_entry 1] ?e Map.empty =
      (Some ''failed to rename temp log file: EIO'', ?ls, ?d)"
    using ne by (simp add: LS_AppendEntries_def persist_def io_ok_def paths lm e Let_def fun_upd_idem)
  moreover have "Metadata_ok ?m" by (simp add: Metadata_ok_def int64_def)
  then have "NewLogStorage None False None ''n1'' ?d = Inr (?e\<lparr>ls_lastIndex := 1\<rparr>)"
    using ne by (simp add: NewLogStorage_def loadLog_def Metadata_round_trip metadataFile_def)
      (simp add: empty_LogStorage_def)
  ultimately show ?thesis by (auto simp: LS_GetLastIndex_def LS_GetLastTerm_def e)
qed

end
