(* ===== verification/Raft_Node.thy ===== *)
theory Raft_Node
  imports Persistence
begin

text \<open>
  A Raft node, \<^verbatim>\<open>src/internal/consensus/raft.go\<close>, and the network partitions of
  \<^verbatim>\<open>safety.go\<close> it consults. Every handler runs under the node's lock and is one function on
  the node and the disk its two storage objects write to. What a handler takes from outside
  (clock, random draws, outcomes of system calls) is its first argument. The goroutines that
  release the lock between two steps (collecting votes, replicating, applying entries) are cut at
  those points. A run-time panic (an index out of range) is the value \<^term>\<open>None\<close>.
\<close>

section \<open>Network partitions\<close>

record PartitionTolerance =
  pt_partitions :: "(string, string list) gomap"

definition NewPartitionTolerance :: PartitionTolerance where
  "NewPartitionTolerance = \<lparr>pt_partitions = []\<rparr>"

definition CreatePartition :: "string \<Rightarrow> string list \<Rightarrow> PartitionTolerance \<Rightarrow> PartitionTolerance" where
  "CreatePartition partitionID nodeIDs pt = pt\<lparr>pt_partitions := gm_put partitionID nodeIDs (pt_partitions pt)\<rparr>"

definition RemovePartition :: "string \<Rightarrow> PartitionTolerance \<Rightarrow> PartitionTolerance" where
  "RemovePartition partitionID pt =
     (if gm_get (pt_partitions pt) partitionID \<noteq> None
      then pt\<lparr>pt_partitions := gm_del partitionID (pt_partitions pt)\<rparr> else pt)"

definition CanCommunicate :: "string \<Rightarrow> string \<Rightarrow> PartitionTolerance \<Rightarrow> bool" where
  "CanCommunicate nodeID1 nodeID2 pt =
     (if pt_partitions pt = [] then True
      else list_ex (\<lambda>(p, nodeList). list_ex (\<lambda>n. n = nodeID1) nodeList \<and> list_ex (\<lambda>n. n = nodeID2) nodeList)
             (pt_partitions pt))"

definition GetPartitionInfo :: "PartitionTolerance \<Rightarrow> (string, string list) gomap" where
  "GetPartitionInfo pt = copyMap (pt_partitions pt)"

section \<open>Data\<close>

datatype RaftState = Follower | Candidate | Leader

fun RaftState_String :: "RaftState \<Rightarrow> string" where
  "RaftState_String Follower = ''follower''"
| "RaftState_String Candidate = ''candidate''"
| "RaftState_String Leader = ''leader''"

record PeerInfo =
  pi_ID :: string
  pi_Address :: string
  pi_RaftPort :: int
  pi_GrpcPort :: int
  pi_Active :: bool
  pi_LastSeen :: gtime

record VoteRequest =
  vq_Term :: int
  vq_CandidateID :: string
  vq_LastLogIndex :: int
  vq_LastLogTerm :: int

record VoteResponse =
  vp_Term :: int
  vp_VoteGranted :: bool
  vp_NodeID :: string

record AppendRequest =
  aq_Term :: int
  aq_LeaderID :: string
  aq_PrevLogIndex :: int
  aq_PrevLogTerm :: int
  aq_Entries :: "LogEntry list"
  aq_LeaderCommit :: int

record AppendResponse =
  ap_Term :: int
  ap_Success :: bool
  ap_LastLogIndex :: int
  ap_NodeID :: string

text \<open>A \<^verbatim>\<open>*time.Timer\<close>: nil, armed with a duration, or stopped.\<close>

datatype timer = NoTimer | Armed duration | Stopped

fun stopTimer :: "timer \<Rightarrow> timer" where
  "stopTimer NoTimer = NoTimer"
| "stopTimer t = Stopped"

record RaftNode =
  rn_id :: string
  rn_address :: string
  rn_raftPort :: int
  rn_grpcPort :: int
  rn_state :: RaftState
  rn_currentTerm :: int
  rn_votedFor :: string
  rn_log :: "LogEntry list"
  rn_commitIndex :: int
  rn_lastApplied :: int
  rn_nextIndex :: "(string, int) gomap"
  rn_matchIndex :: "(string, int) gomap"
  rn_peers :: "(string, PeerInfo) gomap"
  rn_electionTimeout :: duration
  rn_heartbeatTimeout :: duration
  rn_lastHeartbeat :: gtime
  rn_electionTimer :: timer
  rn_heartbeatTimer :: timer
  rn_voteResponseCh :: "VoteResponse list"
  rn_shutdown :: bool
  rn_stateMachine :: "KVStateMachine option"
  rn_persistence :: PersistentState
  rn_logStorage :: LogStorage
  rn_partitionTolerance :: PartitionTolerance

record RaftConfig =
  rc_NodeID :: string
  rc_Address :: string
  rc_RaftPort :: int
  rc_GrpcPort :: int
  rc_ElectionTimeout :: duration
  rc_HeartbeatTimeout :: duration
  rc_StateMachine :: "KVStateMachine option"

text \<open>
  What one call of a handler takes from outside: the clock, the draw of \<^verbatim>\<open>rand.Intn\<close>, the
  outcome of the \<open>i\<close>-th save of the term and vote during the call, and the outcome of its
  write to the log.
\<close>

record raft_env =
  en_now :: gtime
  en_rand :: nat
  en_save :: "nat \<Rightarrow> ps_io"
  en_log :: log_io

section \<open>Helpers\<close>

abbreviation millisecond :: int where
  "millisecond \<equiv> 1000000"

definition randomElectionTimeout :: "nat \<Rightarrow> duration" where
  "randomElectionTimeout r = (int (r mod (300 - 150)) + 150) * millisecond"

definition resetElectionTimer :: "nat \<Rightarrow> RaftNode \<Rightarrow> RaftNode" where
  "resetElectionTimer r rn =
     rn\<lparr>rn_electionTimeout := randomElectionTimeout r, rn_electionTimer := Armed (randomElectionTimeout r)\<rparr>"

definition resetHeartbeatTimer :: "RaftNode \<Rightarrow> RaftNode" where
  "resetHeartbeatTimer rn = rn\<lparr>rn_heartbeatTimer := Armed (rn_heartbeatTimeout rn)\<rparr>"

definition getLastLogIndex :: "RaftNode \<Rightarrow> int" where
  "getLastLogIndex rn = (if rn_log rn = [] then 0 else le_Index (last (rn_log rn)))"

definition getLastLogTerm :: "RaftNode \<Rightarrow> int" where
  "getLastLogTerm rn = (if rn_log rn = [] then 0 else le_Term (last (rn_log rn)))"

definition getMajority :: "RaftNode \<Rightarrow> nat" where
  "getMajority rn = (length (rn_peers rn) + 2) div 2"

text \<open>The term of the entry before a follower's next index, 0 when the log does not reach it.\<close>

definition prevTerm :: "RaftNode \<Rightarrow> int \<Rightarrow> int" where
  "prevTerm rn i = (if 0 < i \<and> i \<le> int (length (rn_log rn)) then le_Term (rn_log rn ! nat (i - 1)) else 0)"

definition gm_get0 :: "('k, int) gomap \<Rightarrow> 'k \<Rightarrow> int" where
  "gm_get0 m k = (case gm_get m k of None \<Rightarrow> 0 | Some v \<Rightarrow> v)"

definition savePersistentState :: "ps_io \<Rightarrow> RaftNode \<Rightarrow> disk \<Rightarrow> RaftNode \<times> disk" where
  "savePersistentState io rn d =
     (case PS_Save io \<lparr>pd_CurrentTerm = rn_currentTerm rn, pd_VotedFor = rn_votedFor rn\<rparr> (rn_persistence rn) d of
        (err, ps, d) \<Rightarrow> (rn\<lparr>rn_persistence := ps\<rparr>, d))"

definition loadPersistentState :: "RaftNode \<Rightarrow> RaftNode" where
  "loadPersistentState rn =
     rn\<lparr>rn_currentTerm := pd_CurrentTerm (PS_Load (rn_persistence rn)),
        rn_votedFor := pd_VotedFor (PS_Load (rn_persistence rn))\<rparr>"

section \<open>Life cycle and membership\<close>

record open_io =
  oi_mkdirState :: "string option"
  oi_readState :: "string option"
  oi_save :: ps_io
  oi_mkdirLog :: "string option"
  oi_metaErr :: bool
  oi_readLog :: "string option"

definition initialNode :: "RaftConfig \<Rightarrow> gtime \<Rightarrow> nat \<Rightarrow> PersistentState \<Rightarrow> LogStorage \<Rightarrow> RaftNode" where
  "initialNode config now r persistence logStorage =
     \<lparr>rn_id = rc_NodeID config, rn_address = rc_Address config, rn_raftPort = rc_RaftPort config,
      rn_grpcPort = rc_GrpcPort config, rn_state = Follower, rn_currentTerm = 0, rn_votedFor = [],
      rn_log = [], rn_commitIndex = 0, rn_lastApplied = 0, rn_nextIndex = [], rn_matchIndex = [],
      rn_peers = [],
      rn_electionTimeout = (if rc_ElectionTimeout config = 0 then randomElectionTimeout r else rc_ElectionTimeout config),
      rn_heartbeatTimeout = (if rc_HeartbeatTimeout config = 0 then 50 * millisecond else rc_HeartbeatTimeout config),
      rn_lastHeartbeat = now, rn_electionTimer = NoTimer, rn_heartbeatTimer = NoTimer,
      rn_voteResponseCh = [], rn_shutdown = False, rn_stateMachine = rc_StateMachine config,
      rn_persistence = persistence, rn_logStorage = logStorage,
      rn_partitionTolerance = NewPartitionTolerance\<rparr>"

definition NewRaftNode :: "open_io \<Rightarrow> gtime \<Rightarrow> nat \<Rightarrow> RaftConfig \<Rightarrow> disk \<Rightarrow> (string + RaftNode) \<times> disk" where
  "NewRaftNode oi now r config d =
     (case NewPersistentState (oi_mkdirState oi) (oi_readState oi) (oi_save oi) (rc_NodeID config) d of
        (Inl err, d) \<Rightarrow> (Inl (''failed to create persistent state: '' @ err), d)
      | (Inr persistence, d) \<Rightarrow>
          (case NewLogStorage (oi_mkdirLog oi) (oi_metaErr oi) (oi_readLog oi) (rc_NodeID config) d of
             Inl err \<Rightarrow> (Inl (''failed to create log storage: '' @ err), d)
           | Inr logStorage \<Rightarrow> (Inr (loadPersistentState (initialNode config now r persistence logStorage)), d)))"

definition RN_Start :: "nat \<Rightarrow> RaftNode \<Rightarrow> RaftNode" where
  "RN_Start r rn = resetElectionTimer r rn"

text \<open>Closing the channel a second time panics.\<close>

definition RN_Stop :: "RaftNode \<Rightarrow> RaftNode option" where
  "RN_Stop rn = (if rn_shutdown rn then None else Some (rn\<lparr>rn_shutdown := True\<rparr>))"

definition RN_GetState :: "RaftNode \<Rightarrow> RaftState \<times> int \<times> bool" where
  "RN_GetState rn = (rn_state rn, rn_currentTerm rn, rn_state rn = Leader)"

definition RN_GetLeader :: "gtime \<Rightarrow> RaftNode \<Rightarrow> string" where
  "RN_GetLeader now rn =
     (if rn_state rn = Leader then rn_id rn
      else case find (\<lambda>(i, peer). pi_Active peer \<and> now - pi_LastSeen peer < i64 (rn_heartbeatTimeout rn * 3)) (rn_peers rn) of
        Some (i, peer) \<Rightarrow> i
      | None \<Rightarrow> [])"

definition AddPeer :: "gtime \<Rightarrow> string \<Rightarrow> string \<Rightarrow> int \<Rightarrow> int \<Rightarrow> RaftNode \<Rightarrow> RaftNode" where
  "AddPeer now i address raftPort grpcPort rn =
     (let rn = rn\<lparr>rn_peers := gm_put i \<lparr>pi_ID = i, pi_Address = address, pi_RaftPort = raftPort, pi_GrpcPort = grpcPort,
                    pi_Active = True, pi_LastSeen = now\<rparr> (rn_peers rn)\<rparr>
      in if rn_state rn = Leader
         then rn\<lparr>rn_nextIndex := gm_put i (i64 (getLastLogIndex rn + 1)) (rn_nextIndex rn),
                 rn_matchIndex := gm_put i 0 (rn_matchIndex rn)\<rparr>
         else rn)"

definition RemovePeer :: "string \<Rightarrow> RaftNode \<Rightarrow> RaftNode" where
  "RemovePeer i rn = rn\<lparr>rn_peers := gm_del i (rn_peers rn), rn_nextIndex := gm_del i (rn_nextIndex rn),
     rn_matchIndex := gm_del i (rn_matchIndex rn)\<rparr>"

section \<open>Elections\<close>

definition startElection :: "raft_env \<Rightarrow> RaftNode \<Rightarrow> disk \<Rightarrow> RaftNode \<times> disk" where
  "startElection en rn d =
     (let rn = rn\<lparr>rn_currentTerm := i64 (rn_currentTerm rn + 1), rn_state := Candidate, rn_votedFor := rn_id rn\<rparr>;
          rn = resetElectionTimer (en_rand en) rn
      in savePersistentState (en_save en 0) rn d)"

definition handleElectionTimeout :: "raft_env \<Rightarrow> RaftNode \<Rightarrow> disk \<Rightarrow> RaftNode \<times> disk" where
  "handleElectionTimeout en rn d = (if rn_state rn = Leader then (rn, d) else startElection en rn d)"

text \<open>
  The goroutine \<^verbatim>\<open>requestVotes\<close>: it notes the term, counts its own vote, and then takes one
  response per peer. Between two responses the lock is free. The state of the goroutine is an
  \<open>election\<close>; when it returns, there is none.
\<close>

record election =
  el_term :: int
  el_majority :: nat
  el_votes :: nat
  el_left :: nat

definition requestVotes :: "RaftNode \<Rightarrow> election option" where
  "requestVotes rn =
     (if rn_peers rn = [] then None
      else Some \<lparr>el_term = rn_currentTerm rn, el_majority = getMajority rn, el_votes = 1, el_left = length (rn_peers rn)\<rparr>)"

definition becomeLeader :: "RaftNode \<Rightarrow> RaftNode" where
  "becomeLeader rn =
     (let next = i64 (getLastLogIndex rn + 1);
          rn = rn\<lparr>rn_state := Leader,
                  rn_nextIndex := fold (\<lambda>(p, x). gm_put p next) (rn_peers rn) (rn_nextIndex rn),
                  rn_matchIndex := fold (\<lambda>(p, x). gm_put p 0) (rn_peers rn) (rn_matchIndex rn),
                  rn_electionTimer := stopTimer (rn_electionTimer rn)\<rparr>
      in resetHeartbeatTimer rn)"

text \<open>One round of the collecting loop; the response is absent when waiting for it timed out.\<close>

definition collectVote :: "raft_env \<Rightarrow> VoteResponse option \<Rightarrow> election \<Rightarrow> RaftNode \<Rightarrow> disk \<Rightarrow>
    election option \<times> RaftNode \<times> disk" where
  "collectVote en response el rn d =
     (case response of
        None \<Rightarrow> (None, rn, d)
      | Some resp \<Rightarrow>
          if rn_state rn \<noteq> Candidate \<or> rn_currentTerm rn \<noteq> el_term el then (None, rn, d)
          else if rn_currentTerm rn < vp_Term resp then
            (let (rn, d) = savePersistentState (en_save en 0)
                   (rn\<lparr>rn_currentTerm := vp_Term resp, rn_state := Follower, rn_votedFor := []\<rparr>) d
             in (None, resetElectionTimer (en_rand en) rn, d))
          else
            (let votes = (if vp_VoteGranted resp then el_votes el + 1 else el_votes el)
             in if el_majority el \<le> votes then (None, becomeLeader rn, d)
                else if el_left el \<le> 1 then (None, rn, d)
                else (Some (el\<lparr>el_votes := votes, el_left := el_left el - 1\<rparr>), rn, d)))"

text \<open>What a peer answers is simulated: a random draw decides, here the argument \<open>lucky\<close>.\<close>

definition simulateVoteRequest :: "bool \<Rightarrow> bool" where
  "simulateVoteRequest lucky = lucky"

definition simulatedVote :: "bool \<Rightarrow> string \<Rightarrow> election \<Rightarrow> VoteResponse" where
  "simulatedVote lucky peerID el =
     \<lparr>vp_Term = el_term el, vp_VoteGranted = simulateVoteRequest lucky, vp_NodeID = peerID\<rparr>"

definition isLogUpToDate :: "int \<Rightarrow> int \<Rightarrow> RaftNode \<Rightarrow> bool" where
  "isLogUpToDate lastLogIndex lastLogTerm rn =
     (if lastLogTerm \<noteq> getLastLogTerm rn then getLastLogTerm rn \<le> lastLogTerm
      else getLastLogIndex rn \<le> lastLogIndex)"

definition handleVoteRequest :: "raft_env \<Rightarrow> VoteRequest \<Rightarrow> RaftNode \<Rightarrow> disk \<Rightarrow> VoteResponse \<times> RaftNode \<times> disk" where
  "handleVoteRequest en req rn d =
     (let response = \<lparr>vp_Term = rn_currentTerm rn, vp_VoteGranted = False, vp_NodeID = rn_id rn\<rparr>
      in if vq_Term req < rn_currentTerm rn then (response, rn, d)
         else
           (let (rn, d) =
                  (if rn_currentTerm rn < vq_Term req
                   then savePersistentState (en_save en 0)
                          (rn\<lparr>rn_currentTerm := vq_Term req, rn_state := Follower, rn_votedFor := []\<rparr>) d
                   else (rn, d))
            in if (rn_votedFor rn = [] \<or> rn_votedFor rn = vq_CandidateID req) \<and>
                  isLogUpToDate (vq_LastLogIndex req) (vq_LastLogTerm req) rn
               then
                 (let (rn, d) = savePersistentState (en_save en 1) (rn\<lparr>rn_votedFor := vq_CandidateID req\<rparr>) d
                  in (response\<lparr>vp_VoteGranted := True, vp_Term := rn_currentTerm rn\<rparr>, resetElectionTimer (en_rand en) rn, d))
               else (response, rn, d)))"

text \<open>
  The event loop takes a response from \<^verbatim>\<open>voteResponseCh\<close> and hands it to
  \<^verbatim>\<open>handleVoteResponse\<close>, which puts it back unless the channel (of capacity 100) is full.
\<close>

definition handleVoteResponse :: "VoteResponse \<Rightarrow> RaftNode \<Rightarrow> RaftNode" where
  "handleVoteResponse resp rn =
     (if length (rn_voteResponseCh rn) < 100 then rn\<lparr>rn_voteResponseCh := rn_voteResponseCh rn @ [resp]\<rparr> else rn)"

definition receiveVoteResponse :: "RaftNode \<Rightarrow> RaftNode option" where
  "receiveVoteResponse rn =
     (case rn_voteResponseCh rn of
        [] \<Rightarrow> None
      | resp # rest \<Rightarrow> Some (handleVoteResponse resp (rn\<lparr>rn_voteResponseCh := rest\<rparr>)))"

section \<open>Heartbeats\<close>

text \<open>What a heartbeat to a peer would carry; it is only logged. No message crosses a partition.\<close>

definition sendAppendEntries :: "string \<Rightarrow> RaftNode \<Rightarrow> (int \<times> int \<times> int) option" where
  "sendAppendEntries peerID rn =
     (if \<not> CanCommunicate (rn_id rn) peerID (rn_partitionTolerance rn) then None
      else (let prevLogIndex = i64 (gm_get0 (rn_nextIndex rn) peerID - 1)
            in Some (prevLogIndex, prevTerm rn prevLogIndex, rn_commitIndex rn)))"

definition sendHeartbeats :: "RaftNode \<Rightarrow> (string \<times> (int \<times> int \<times> int) option) list \<times> RaftNode" where
  "sendHeartbeats rn =
     (if rn_state rn \<noteq> Leader then ([], rn)
      else (map (\<lambda>(p, x). (p, sendAppendEntries p rn)) (rn_peers rn), resetHeartbeatTimer rn))"

section \<open>Receiving entries\<close>

text \<open>
  The first loop looks for a conflicting entry and cuts the log there, the second appends what
  is beyond the end of the log. The argument \<open>i\<close> is the index of the first entry.
\<close>

fun truncateConflict :: "int \<Rightarrow> LogEntry list \<Rightarrow> LogEntry list \<Rightarrow> LogEntry list option" where
  "truncateConflict i [] lg = Some lg"
| "truncateConflict i (e # es) lg =
     (if i \<le> int (length lg) then
        (if i \<le> 0 then None
         else if le_Term (lg ! nat (i - 1)) \<noteq> le_Term e then Some (take (nat (i - 1)) lg)
         else truncateConflict (i64 (i + 1)) es lg)
      else truncateConflict (i64 (i + 1)) es lg)"

fun appendNew :: "int \<Rightarrow> LogEntry list \<Rightarrow> LogEntry list \<Rightarrow> LogEntry list" where
  "appendNew i [] lg = lg"
| "appendNew i (e # es) lg =
     appendNew (i64 (i + 1)) es (if int (length lg) < i then lg @ [e] else lg)"

text \<open>The consistency check on the entry before the new ones.\<close>

definition prevMatches :: "AppendRequest \<Rightarrow> RaftNode \<Rightarrow> bool" where
  "prevMatches req rn =
     (if 0 < aq_PrevLogIndex req then
        (if getLastLogIndex rn < aq_PrevLogIndex req then False
         else if aq_PrevLogIndex req \<le> int (length (rn_log rn))
         then le_Term (rn_log rn ! nat (aq_PrevLogIndex req - 1)) = aq_PrevLogTerm req
         else True)
      else True)"

definition storeEntries :: "log_io \<Rightarrow> AppendRequest \<Rightarrow> RaftNode \<Rightarrow> disk \<Rightarrow> (RaftNode \<times> disk) option" where
  "storeEntries io req rn d =
     (if aq_Entries req = [] then Some (rn, d)
      else do {
        lg \<leftarrow> truncateConflict (i64 (aq_PrevLogIndex req + 1)) (aq_Entries req) (rn_log rn);
        (let rn = rn\<lparr>rn_log := appendNew (i64 (aq_PrevLogIndex req + 1)) (aq_Entries req) lg\<rparr>;
             (err, ls, d) = LS_AppendEntries io (aq_Entries req) (rn_logStorage rn) d
         in Some (rn\<lparr>rn_logStorage := ls\<rparr>, d))
      })"

definition advanceCommit :: "int \<Rightarrow> RaftNode \<Rightarrow> RaftNode" where
  "advanceCommit leaderCommit rn =
     (if rn_commitIndex rn < leaderCommit
      then rn\<lparr>rn_commitIndex := (if getLastLogIndex rn < leaderCommit then getLastLogIndex rn else leaderCommit)\<rparr>
      else rn)"

definition handleAppendEntries :: "raft_env \<Rightarrow> AppendRequest \<Rightarrow> RaftNode \<Rightarrow> disk \<Rightarrow>
    (AppendResponse \<times> RaftNode \<times> disk) option" where
  "handleAppendEntries en req rn d =
     (let response = \<lparr>ap_Term = rn_currentTerm rn, ap_Success = False, ap_LastLogIndex = getLastLogIndex rn, ap_NodeID = rn_id rn\<rparr>
      in if aq_Term req < rn_currentTerm rn then Some (response, rn, d)
         else
           (let (rn, d) = savePersistentState (en_save en 0)
                  (rn\<lparr>rn_currentTerm := aq_Term req, rn_state := Follower, rn_votedFor := []\<rparr>) d;
                rn = (resetElectionTimer (en_rand en) rn)\<lparr>rn_lastHeartbeat := en_now en\<rparr>;
                response = response\<lparr>ap_Term := rn_currentTerm rn\<rparr>
            in if \<not> prevMatches req rn then Some (response, rn, d)
               else do {
                 (rn, d) \<leftarrow> storeEntries (en_log en) req rn d;
                 (let rn = advanceCommit (aq_LeaderCommit req) rn
                  in Some (response\<lparr>ap_Success := True, ap_LastLogIndex := getLastLogIndex rn\<rparr>, rn, d))
               }))"

section \<open>Replicating\<close>

definition AppendEntry :: "raft_env \<Rightarrow> string \<Rightarrow> bytes \<Rightarrow> RaftNode \<Rightarrow> disk \<Rightarrow> (string + int) \<times> RaftNode \<times> disk" where
  "AppendEntry en entryType data rn d =
     (if rn_state rn \<noteq> Leader then (Inl ''not the leader'', rn, d)
      else
        (let index = i64 (getLastLogIndex rn + 1);
             entry = \<lparr>le_Index = index, le_Term = rn_currentTerm rn, le_Type = entryType, le_Data = data,
                      le_Timestamp = en_now en div 1000000000\<rparr>;
             rn = rn\<lparr>rn_log := rn_log rn @ [entry]\<rparr>;
             (err, ls, d) = LS_AppendEntries (en_log en) [entry] (rn_logStorage rn) d;
             rn = rn\<lparr>rn_logStorage := ls\<rparr>
         in case err of
              Some e \<Rightarrow> (Inl (''failed to persist entry: '' @ e), rn, d)
            | None \<Rightarrow> (Inr index, rn, d)))"

definition replicateToFollowers :: "RaftNode \<Rightarrow> string list" where
  "replicateToFollowers rn = (if rn_state rn \<noteq> Leader then [] else map fst (rn_peers rn))"

text \<open>The request for a follower: absent when the node leads no more; slicing before the log panics.\<close>

definition replicateToFollower :: "string \<Rightarrow> RaftNode \<Rightarrow> AppendRequest option option" where
  "replicateToFollower peerID rn =
     (if rn_state rn \<noteq> Leader then Some None
      else
        (let nextIndex = gm_get0 (rn_nextIndex rn) peerID;
             nextIndex = (if nextIndex = 0 then 1 else nextIndex);
             prevLogIndex = i64 (nextIndex - 1)
         in if nextIndex \<le> int (length (rn_log rn)) \<and> nextIndex < 1 then None
            else Some (Some \<lparr>aq_Term = rn_currentTerm rn, aq_LeaderID = rn_id rn, aq_PrevLogIndex = prevLogIndex,
                   aq_PrevLogTerm = prevTerm rn prevLogIndex,
                   aq_Entries = (if nextIndex \<le> int (length (rn_log rn)) then drop (nat (nextIndex - 1)) (rn_log rn) else []),
                   aq_LeaderCommit = rn_commitIndex rn\<rparr>)))"

definition simulatedAppendResponse :: "bool \<Rightarrow> string \<Rightarrow> AppendRequest \<Rightarrow> AppendResponse" where
  "simulatedAppendResponse success peerID req =
     \<lparr>ap_Term = aq_Term req, ap_Success = success,
      ap_LastLogIndex = i64 (aq_PrevLogIndex req + int (length (aq_Entries req))), ap_NodeID = peerID\<rparr>"

definition replicas :: "int \<Rightarrow> RaftNode \<Rightarrow> nat" where
  "replicas n rn = 1 + length (filter (\<lambda>(p, m). n \<le> m) (rn_matchIndex rn))"

function commitLoop :: "int \<Rightarrow> RaftNode \<Rightarrow> RaftNode option" where
  "commitLoop n rn =
     (if n \<le> rn_commitIndex rn then Some rn
      else if int (length (rn_log rn)) < n then commitLoop (n - 1) rn
      else if n \<le> 0 then None
      else if le_Term (rn_log rn ! nat (n - 1)) = rn_currentTerm rn \<and> getMajority rn \<le> replicas n rn
      then Some (rn\<lparr>rn_commitIndex := n\<rparr>)
      else commitLoop (n - 1) rn)"
  by pat_completeness auto
termination by (relation "measure (\<lambda>(n, rn). nat (n - rn_commitIndex rn))") auto

declare commitLoop.simps [simp del]

definition updateCommitIndex :: "RaftNode \<Rightarrow> RaftNode option" where
  "updateCommitIndex rn = (if rn_state rn \<noteq> Leader then Some rn else commitLoop (getLastLogIndex rn) rn)"

text \<open>The first component of the result tells whether the follower is retried at once.\<close>

definition handleAppendEntriesResponse :: "raft_env \<Rightarrow> string \<Rightarrow> AppendRequest \<Rightarrow> AppendResponse \<Rightarrow>
    RaftNode \<Rightarrow> disk \<Rightarrow> (bool \<times> RaftNode \<times> disk) option" where
  "handleAppendEntriesResponse en peerID req resp rn d =
     (if rn_state rn \<noteq> Leader \<or> ap_Term resp \<noteq> rn_currentTerm rn then Some (False, rn, d)
      else if rn_currentTerm rn < ap_Term resp then
        (let (rn, d) = savePersistentState (en_save en 0)
               (rn\<lparr>rn_currentTerm := ap_Term resp, rn_state := Follower, rn_votedFor := []\<rparr>) d
         in Some (False, resetElectionTimer (en_rand en) rn, d))
      else if ap_Success resp then
        (if aq_Entries req \<noteq> [] then
           (let match = i64 (aq_PrevLogIndex req + int (length (aq_Entries req)));
                rn = rn\<lparr>rn_matchIndex := gm_put peerID match (rn_matchIndex rn),
                        rn_nextIndex := gm_put peerID (i64 (match + 1)) (rn_nextIndex rn)\<rparr>
            in do { rn \<leftarrow> updateCommitIndex rn; Some (False, rn, d) })
         else Some (False, rn, d))
      else if 1 < gm_get0 (rn_nextIndex rn) peerID then
        Some (True, rn\<lparr>rn_nextIndex := gm_put peerID (gm_get0 (rn_nextIndex rn) peerID - 1) (rn_nextIndex rn)\<rparr>, d)
      else Some (False, rn, d))"

section \<open>Applying committed entries\<close>

text \<open>One round of the loop that applies entries; the clock is read by the state machine.\<close>

definition applyNext :: "gtime \<Rightarrow> RaftNode \<Rightarrow> RaftNode option" where
  "applyNext now rn =
     (let i = i64 (rn_lastApplied rn + 1);
          rn = rn\<lparr>rn_lastApplied := i\<rparr>
      in if i \<le> int (length (rn_log rn)) then
           (if i \<le> 0 then None
            else Some (rn\<lparr>rn_stateMachine := map_option (\<lambda>sm. snd (Apply now (rn_log rn ! nat (i - 1)) sm)) (rn_stateMachine rn)\<rparr>))
         else Some rn)"

partial_function (option) applyEntries :: "(nat \<Rightarrow> gtime) \<Rightarrow> RaftNode \<Rightarrow> RaftNode option" where
  "applyEntries clk rn =
     (if rn_lastApplied rn < rn_commitIndex rn
      then do { rn \<leftarrow> applyNext (clk 0) rn; applyEntries (\<lambda>i. clk (Suc i)) rn }
      else Some rn)"

end
