(* ===== verification/Raft_Log.thy ===== *)
theory Raft_Log
  imports Raft_Node
begin

text \<open>
  Replication of the log between a leader and a follower: what the two loops of
  \<^verbatim>\<open>handleAppendEntries\<close> compute, the log matching property and its preservation, catching
  up after rejections, and the commit rule of the leader.
\<close>

section \<open>The two loops\<close>

lemma truncateConflict_spec:
  assumes "p \<le> length lg" and "int (p + length es) < max_i64"
  shows "\<exists>m. truncateConflict (int p + 1) es lg = Some (take m lg) \<and> p \<le> m \<and> m \<le> length lg \<and>
    (m < length lg \<longrightarrow> m < p + length es) \<and>
    (\<forall>j < length es. p + j < m \<longrightarrow> le_Term (lg ! (p + j)) = le_Term (es ! j))"
  using assms
proof (induction es arbitrary: p)
  case Nil
  then show ?case by (intro exI [of _ "length lg"]) simp
next
  case (Cons e es)
  have wrap: "i64 (2 + int p) = 2 + int p" using Cons.prems by (simp add: i64_def)
  show ?case
  proof (cases "p < length lg \<and> le_Term (lg ! p) = le_Term e")
    case True
    then have "Suc p \<le> length lg" by simp
    from Cons.IH [OF this] Cons.prems obtain m where
      m: "truncateConflict (int (Suc p) + 1) es lg = Some (take m lg)" "Suc p \<le> m" "m \<le> length lg"
        "m < length lg \<longrightarrow> m < Suc p + length es"
        "\<forall>j < length es. Suc p + j < m \<longrightarrow> le_Term (lg ! (Suc p + j)) = le_Term (es ! j)" by auto
    have "le_Term (lg ! (p + j)) = le_Term ((e # es) ! j)" if "j < length (e # es)" "p + j < m" for j
      using that True m(5) by (cases j) auto
    then show ?thesis using m True by (intro exI [of _ m]) (simp add: wrap)
  next
    case False
    show ?thesis
    proof (cases "p < length lg")
      case True
      then show ?thesis using False by (intro exI [of _ p]) (simp add: nat_add_distrib)
    next
      case atEnd: False
      have beyond: "truncateConflict i xs lg = Some lg" if "int (length lg) < i" "i + int (length xs) \<le> max_i64" for i xs
        using that
      proof (induction xs arbitrary: i)
        case (Cons x xs)
        have "i64 (i + 1) = i + 1" by (rule i64_suc) (use Cons.prems in auto)
        then show ?case using Cons by simp
      qed simp
      have "truncateConflict (int p + 1) (e # es) lg = Some lg"
        by (rule beyond) (use atEnd Cons.prems in auto)
      then show ?thesis using atEnd Cons.prems by (intro exI [of _ "length lg"]) auto
    qed
  qed
qed

lemma appendNew_spec:
  assumes "p \<le> length lg" and "int (length lg + length es) < max_i64"
  shows "appendNew (int p + 1) es lg = lg @ drop (length lg - p) es"
  using assms
proof (induction es arbitrary: p lg)
  case (Cons e es)
  have wrap: "i64 (2 + int p) = 2 + int p" using Cons.prems by (simp add: i64_def)
  show ?case
  proof (cases "p = length lg")
    case True
    have "appendNew (int (Suc p) + 1) es (lg @ [e]) = (lg @ [e]) @ drop (length (lg @ [e]) - Suc p) es"
      by (rule Cons.IH) (use True Cons.prems in auto)
    then show ?thesis using True wrap by simp
  next
    case False
    have "appendNew (int (Suc p) + 1) es lg = lg @ drop (length lg - Suc p) es"
      by (rule Cons.IH) (use False Cons.prems in auto)
    moreover have "length lg - p = Suc (length lg - Suc p)" using False Cons.prems(1) by simp
    ultimately show ?thesis using False Cons.prems(1) by (simp add: wrap)
  qed
qed simp

section \<open>Log matching\<close>

text \<open>Entries at the same position with the same index and term force equal logs up to there.\<close>

definition log_match :: "LogEntry list \<Rightarrow> LogEntry list \<Rightarrow> bool" where
  "log_match a b = (\<forall>i < min (length a) (length b).
     le_Index (a ! i) = le_Index (b ! i) \<and> le_Term (a ! i) = le_Term (b ! i) \<longrightarrow> take (Suc i) a = take (Suc i) b)"

lemma log_match_sym: "log_match a b \<Longrightarrow> log_match b a"
  by (auto simp: log_match_def)

lemma log_match_take: "log_match a b \<Longrightarrow> log_match (take n a) b"
  unfolding log_match_def by (auto simp: min_def)

lemma log_matchD:
  assumes "log_match a b" "contig c a" "contig c b" "i < length a" "i < length b" "le_Term (a ! i) = le_Term (b ! i)"
  shows "take (Suc i) a = take (Suc i) b"
  using assms contig_nth [of c a i] contig_nth [of c b i] by (simp add: log_match_def)

text \<open>The slice of a leader's log that a request carries.\<close>

definition sent_from :: "LogEntry list \<Rightarrow> AppendRequest \<Rightarrow> bool" where
  "sent_from L req =
     (0 \<le> aq_PrevLogIndex req \<and>
      (let p = nat (aq_PrevLogIndex req) in
       p + length (aq_Entries req) \<le> length L \<and>
       aq_Entries req = take (length (aq_Entries req)) (drop p L) \<and>
       (0 < p \<longrightarrow> aq_PrevLogTerm req = le_Term (L ! (p - 1)))))"

text \<open>The log after storing the entries of a request.\<close>

definition merged :: "nat \<Rightarrow> LogEntry list \<Rightarrow> LogEntry list \<Rightarrow> LogEntry list \<Rightarrow> bool" where
  "merged p es lg lg' \<longleftrightarrow>
     (\<exists>m. p \<le> m \<and> m \<le> length lg \<and> (m < length lg \<longrightarrow> m < p + length es) \<and>
       (\<forall>j < length es. p + j < m \<longrightarrow> le_Term (lg ! (p + j)) = le_Term (es ! j)) \<and>
       lg' = take m lg @ drop (m - p) es)"

lemma merged_prefix:
  assumes L: "contig 0 L" and lg: "contig 0 lg" and lm: "log_match lg L"
    and es: "p + length es \<le> length L" "es = take (length es) (drop p L)"
    and prev: "p \<le> length lg" "0 < p \<Longrightarrow> le_Term (lg ! (p - 1)) = le_Term (L ! (p - 1))"
    and mg: "merged p es lg lg'"
  shows "take (p + length es) lg' = take (p + length es) L \<and> (lg' = lg \<or> lg' = take (p + length es) L)"
proof -
  obtain m where m: "p \<le> m" "m \<le> length lg" "m < length lg \<longrightarrow> m < p + length es"
    "\<forall>j < length es. p + j < m \<longrightarrow> le_Term (lg ! (p + j)) = le_Term (es ! j)"
    "lg' = take m lg @ drop (m - p) es" using mg by (auto simp: merged_def)
  have nth: "es ! j = L ! (p + j)" if "j < length es" for j
    using that es by (metis nth_drop nth_take add_leD1)
  have agree: "take k lg = take k L" if "k \<le> m" "k \<le> p + length es" for k
  proof (cases "k = 0")
    case False
    then obtain i where i: "k = Suc i" by (cases k) auto
    have "le_Term (lg ! i) = le_Term (L ! i)"
    proof (cases "i < p")
      case True
      then have "take p lg = take p L"
        using log_matchD [OF lm lg L, of "p - 1"] prev es m by (cases p) auto
      then show ?thesis using True by (metis nth_take)
    next
      case False
      then show ?thesis using m(4) [rule_format, of "i - p"] nth [of "i - p"] that i by auto
    qed
    then show ?thesis using log_matchD [OF lm lg L, of i] that i m(2) es(1) by simp
  qed simp
  show ?thesis
  proof (cases "m < p + length es")
    case True
    have "take m lg = take m L" using True by (intro agree) simp_all
    moreover have "drop (m - p) es = drop m (take (p + length es) L)"
    proof -
      have "drop (m - p) es = take (length es - (m - p)) (drop (m - p) (drop p L))"
        using es(2) by (metis drop_take)
      also have "\<dots> = drop m (take (p + length es) L)" using m(1) True by (simp add: drop_take add.commute)
      finally show ?thesis .
    qed
    moreover have "take m L = take m (take (p + length es) L)" using True by (simp add: min_def)
    ultimately have "lg' = take (p + length es) L" using m(5) by (metis append_take_drop_id)
    then show ?thesis by simp
  next
    case False
    then have "m = length lg" using m by linarith
    moreover have "drop (m - p) es = []" using False by simp
    ultimately have "lg' = lg" using m(5) by simp
    then show ?thesis using agree [of "p + length es"] False by simp
  qed
qed

section \<open>The handler\<close>

lemma savePersistentState_eq:
  "savePersistentState io rn d =
     (let ps = (rn_persistence rn)\<lparr>ps_data := \<lparr>pd_CurrentTerm = rn_currentTerm rn, pd_VotedFor = rn_votedFor rn\<rparr>\<rparr>
      in (rn\<lparr>rn_persistence := ps\<rparr>, snd (ps_save io ps d)))"
  by (simp add: savePersistentState_def PS_Save_def Let_def split: prod.splits)

lemma contig_lastIndex: "contig 0 (rn_log rn) \<Longrightarrow> getLastLogIndex rn = int (length (rn_log rn))"
  using contig_last [of 0 "rn_log rn"] by (auto simp: getLastLogIndex_def)

lemma prevMatches_contig:
  assumes "contig 0 (rn_log rn)" and "0 \<le> aq_PrevLogIndex req"
  shows "prevMatches req rn \<longleftrightarrow> nat (aq_PrevLogIndex req) \<le> length (rn_log rn) \<and>
    (0 < aq_PrevLogIndex req \<longrightarrow> le_Term (rn_log rn ! (nat (aq_PrevLogIndex req) - 1)) = aq_PrevLogTerm req)"
proof -
  have "nat (aq_PrevLogIndex req - 1) = nat (aq_PrevLogIndex req) - 1" by simp
  then show ?thesis using assms by (auto simp: prevMatches_def contig_lastIndex)
qed

lemma storeEntries_spec:
  assumes "0 \<le> aq_PrevLogIndex req" and p: "p = nat (aq_PrevLogIndex req)" "p \<le> length (rn_log rn)"
    and "int (length (rn_log rn) + length (aq_Entries req)) < max_i64"
  shows "\<exists>lg ls d'. storeEntries io req rn d = Some (rn\<lparr>rn_log := lg, rn_logStorage := ls\<rparr>, d') \<and>
    merged p (aq_Entries req) (rn_log rn) lg"
proof (cases "aq_Entries req = []")
  case True
  then have "merged p (aq_Entries req) (rn_log rn) (rn_log rn)" using p(2) by (auto simp: merged_def)
  moreover have "storeEntries io req rn d = Some (rn\<lparr>rn_log := rn_log rn, rn_logStorage := rn_logStorage rn\<rparr>, d)"
    using True by (simp add: storeEntries_def)
  ultimately show ?thesis by blast
next
  case False
  let ?es = "aq_Entries req" and ?lg = "rn_log rn"
  have i: "i64 (aq_PrevLogIndex req + 1) = int p + 1" using assms by (subst i64_suc) auto
  have "int (p + length ?es) < max_i64" using assms by linarith
  from truncateConflict_spec [OF p(2) this] obtain m where
    m: "truncateConflict (int p + 1) ?es ?lg = Some (take m ?lg)" "p \<le> m" "m \<le> length ?lg"
      "m < length ?lg \<longrightarrow> m < p + length ?es"
      "\<forall>j < length ?es. p + j < m \<longrightarrow> le_Term (?lg ! (p + j)) = le_Term (?es ! j)" by auto
  have "appendNew (int p + 1) ?es (take m ?lg) = take m ?lg @ drop (length (take m ?lg) - p) ?es"
    by (rule appendNew_spec) (use m assms in auto)
  then have app: "appendNew (int p + 1) ?es (take m ?lg) = take m ?lg @ drop (m - p) ?es" using m(3) by simp
  have "merged p ?es ?lg (take m ?lg @ drop (m - p) ?es)" using m by (auto simp: merged_def)
  moreover obtain err ls d' where "LS_AppendEntries io ?es (rn_logStorage rn) d = (err, ls, d')"
    by (cases "LS_AppendEntries io ?es (rn_logStorage rn) d") auto
  then have "storeEntries io req rn d =
      Some (rn\<lparr>rn_log := take m ?lg @ drop (m - p) ?es, rn_logStorage := ls\<rparr>, d')"
    using False by (simp add: storeEntries_def i m(1) app Let_def)
  ultimately show ?thesis by blast
qed

text \<open>The follower's fields other than its log, and the three outcomes of the handler.\<close>

lemma handleAppendEntries_spec:
  assumes "contig 0 (rn_log rn)" and "0 \<le> aq_PrevLogIndex req"
    and "int (length (rn_log rn) + length (aq_Entries req)) < max_i64"
  shows "\<exists>resp rn' d'. handleAppendEntries en req rn d = Some (resp, rn', d') \<and>
    (if aq_Term req < rn_currentTerm rn then resp = \<lparr>ap_Term = rn_currentTerm rn, ap_Success = False,
         ap_LastLogIndex = getLastLogIndex rn, ap_NodeID = rn_id rn\<rparr> \<and> rn' = rn
     else rn_currentTerm rn' = aq_Term req \<and> ap_Term resp = aq_Term req \<and> rn_state rn' = Follower \<and> rn_votedFor rn' = [] \<and>
       ap_Success resp = prevMatches req rn \<and>
       (if prevMatches req rn then merged (nat (aq_PrevLogIndex req)) (aq_Entries req) (rn_log rn) (rn_log rn') \<and>
          rn_commitIndex rn' = (if rn_commitIndex rn < aq_LeaderCommit req
             then min (getLastLogIndex rn') (aq_LeaderCommit req) else rn_commitIndex rn)
        else rn_log rn' = rn_log rn \<and> rn_commitIndex rn' = rn_commitIndex rn))"
proof (cases "aq_Term req < rn_currentTerm rn")
  case True
  then show ?thesis by (simp add: handleAppendEntries_def)
next
  case False
  define rn1 where "rn1 = (resetElectionTimer (en_rand en) (fst (savePersistentState (en_save en 0)
    (rn\<lparr>rn_currentTerm := aq_Term req, rn_state := Follower, rn_votedFor := []\<rparr>) d)))\<lparr>rn_lastHeartbeat := en_now en\<rparr>"
  define d1 where "d1 = snd (savePersistentState (en_save en 0)
    (rn\<lparr>rn_currentTerm := aq_Term req, rn_state := Follower, rn_votedFor := []\<rparr>) d)"
  have f: "rn_log rn1 = rn_log rn" "rn_currentTerm rn1 = aq_Term req" "rn_state rn1 = Follower" "rn_votedFor rn1 = []"
    "rn_commitIndex rn1 = rn_commitIndex rn"
    by (simp_all add: rn1_def savePersistentState_eq resetElectionTimer_def Let_def)
  have pm: "prevMatches req rn1 = prevMatches req rn" by (simp add: prevMatches_def getLastLogIndex_def f)
  show ?thesis
  proof (cases "prevMatches req rn")
    case True
    then have "nat (aq_PrevLogIndex req) \<le> length (rn_log rn1)" using assms by (simp add: prevMatches_contig f)
    with storeEntries_spec [of req "nat (aq_PrevLogIndex req)" rn1 "en_log en" d1] assms obtain lg ls d' where
      st: "storeEntries (en_log en) req rn1 d1 = Some (rn1\<lparr>rn_log := lg, rn_logStorage := ls\<rparr>, d')"
      and mg: "merged (nat (aq_PrevLogIndex req)) (aq_Entries req) (rn_log rn) lg" by (auto simp: f)
    have "handleAppendEntries en req rn d = Some (\<lparr>ap_Term = aq_Term req, ap_Success = True,
        ap_LastLogIndex = getLastLogIndex (advanceCommit (aq_LeaderCommit req) (rn1\<lparr>rn_log := lg, rn_logStorage := ls\<rparr>)),
        ap_NodeID = rn_id rn\<rparr>, advanceCommit (aq_LeaderCommit req) (rn1\<lparr>rn_log := lg, rn_logStorage := ls\<rparr>), d')"
      using False True pm st
      by (simp add: handleAppendEntries_def Let_def rn1_def [symmetric] d1_def [symmetric] f case_prod_unfold)
    then show ?thesis using False True mg f by (auto simp: advanceCommit_def getLastLogIndex_def)
  next
    case no: False
    have "handleAppendEntries en req rn d = Some (\<lparr>ap_Term = aq_Term req, ap_Success = False,
        ap_LastLogIndex = getLastLogIndex rn, ap_NodeID = rn_id rn\<rparr>, rn1, d1)"
      using False no pm
      by (simp add: handleAppendEntries_def Let_def rn1_def [symmetric] d1_def [symmetric] f case_prod_unfold)
    then show ?thesis using False no f by auto
  qed
qed

section \<open>Requests of a leader\<close>

definition next_ok :: "string \<Rightarrow> RaftNode \<Rightarrow> bool" where
  "next_ok peer rn = (0 \<le> gm_get0 (rn_nextIndex rn) peer \<and> gm_get0 (rn_nextIndex rn) peer \<le> int (length (rn_log rn)) + 1)"

lemma replicate_request:
  assumes "rn_state ld = Leader" and "next_ok peer ld" and "int (length (rn_log ld)) < max_i64"
  shows "\<exists>req. replicateToFollower peer ld = Some (Some req) \<and> sent_from (rn_log ld) req \<and>
    aq_Term req = rn_currentTerm ld \<and> aq_LeaderCommit req = rn_commitIndex ld \<and>
    aq_PrevLogIndex req = max 1 (gm_get0 (rn_nextIndex ld) peer) - 1 \<and>
    nat (aq_PrevLogIndex req) + length (aq_Entries req) = length (rn_log ld)"
proof -
  define ni where "ni = max 1 (gm_get0 (rn_nextIndex ld) peer)"
  let ?es = "drop (nat (ni - 1)) (rn_log ld)"
  let ?req = "\<lparr>aq_Term = rn_currentTerm ld, aq_LeaderID = rn_id ld, aq_PrevLogIndex = ni - 1,
    aq_PrevLogTerm = prevTerm ld (ni - 1), aq_Entries = ?es, aq_LeaderCommit = rn_commitIndex ld\<rparr>"
  have ni: "1 \<le> ni" "ni \<le> int (length (rn_log ld)) + 1" using assms(2) by (auto simp: next_ok_def ni_def)
  have "(if gm_get0 (rn_nextIndex ld) peer = 0 then 1 else gm_get0 (rn_nextIndex ld) peer) = ni"
    using assms(2) by (auto simp: next_ok_def max_def ni_def)
  moreover have "i64 (ni - 1) = ni - 1" by (rule i64_id) (use ni assms(3) in linarith)+
  moreover have "?es = (if ni \<le> int (length (rn_log ld)) then ?es else [])" using ni by auto
  ultimately have "replicateToFollower peer ld = Some (Some ?req)"
    using assms(1) ni(1) by (simp add: replicateToFollower_def Let_def)
  moreover have "sent_from (rn_log ld) ?req"
    using ni by (auto simp: sent_from_def prevTerm_def Let_def nat_diff_distrib numeral_2_eq_2)
  moreover have "nat (ni - 1) + length ?es = length (rn_log ld)" using ni by auto
  ultimately show ?thesis by (intro exI [of _ ?req]) (simp add: ni_def)
qed

lemma accept_prefix:
  assumes logs: "contig 0 L" "contig 0 (rn_log fl)" "log_match (rn_log fl) L"
    and sent: "sent_from L req" and size: "int (length (rn_log fl) + length (aq_Entries req)) < max_i64"
    and run: "handleAppendEntries en req fl d = Some (resp, fl', d')"
  shows "rn_log fl' = rn_log fl \<or> rn_log fl' = take (nat (aq_PrevLogIndex req) + length (aq_Entries req)) L"
    and "ap_Success resp \<Longrightarrow> take (nat (aq_PrevLogIndex req) + length (aq_Entries req)) (rn_log fl') =
      take (nat (aq_PrevLogIndex req) + length (aq_Entries req)) L"
proof -
  let ?p = "nat (aq_PrevLogIndex req)" and ?es = "aq_Entries req"
  have p0: "0 \<le> aq_PrevLogIndex req" using sent by (simp add: sent_from_def)
  note spec = handleAppendEntries_spec [OF logs(2) p0 size, of en d]
  have "(rn_log fl' = rn_log fl \<or> rn_log fl' = take (?p + length ?es) L) \<and>
    (ap_Success resp \<longrightarrow> take (?p + length ?es) (rn_log fl') = take (?p + length ?es) L)"
  proof (cases "aq_Term req < rn_currentTerm fl \<or> \<not> prevMatches req fl")
    case True
    then show ?thesis using spec run by (auto split: if_splits)
  next
    case False
    then have mg: "merged ?p ?es (rn_log fl) (rn_log fl')" using spec run by (auto split: if_splits)
    have prev: "?p \<le> length (rn_log fl)" "0 < ?p \<Longrightarrow> le_Term (rn_log fl ! (?p - 1)) = aq_PrevLogTerm req"
      using False prevMatches_contig [OF logs(2) p0] by auto
    have sf: "?p + length ?es \<le> length L" "?es = take (length ?es) (drop ?p L)"
      "0 < ?p \<Longrightarrow> aq_PrevLogTerm req = le_Term (L ! (?p - 1))"
      using sent by (auto simp: sent_from_def Let_def)
    from merged_prefix [OF logs sf(1,2) prev(1) _ mg] prev(2) sf(3) show ?thesis by auto
  qed
  then show "rn_log fl' = rn_log fl \<or> rn_log fl' = take (?p + length ?es) L"
    and "ap_Success resp \<Longrightarrow> take (?p + length ?es) (rn_log fl') = take (?p + length ?es) L" by blast+
qed

section \<open>The commit rule\<close>

definition committable :: "RaftNode \<Rightarrow> int \<Rightarrow> bool" where
  "committable rn k =
     (1 \<le> k \<and> k \<le> int (length (rn_log rn)) \<and> le_Term (rn_log rn ! nat (k - 1)) = rn_currentTerm rn \<and>
      getMajority rn \<le> replicas k rn)"

lemma commitLoop_spec:
  assumes "0 \<le> rn_commitIndex rn"
  shows "\<exists>c. commitLoop n rn = Some (rn\<lparr>rn_commitIndex := c\<rparr>) \<and>
    (c = rn_commitIndex rn \<or> rn_commitIndex rn < c \<and> c \<le> n \<and> committable rn c) \<and>
    (\<forall>k. c < k \<and> k \<le> n \<longrightarrow> \<not> committable rn k)"
  using assms
proof (induction n rn rule: commitLoop.induct)
  case (1 n rn)
  consider "n \<le> rn_commitIndex rn" | "rn_commitIndex rn < n" "committable rn n" | "rn_commitIndex rn < n" "\<not> committable rn n"
    by linarith
  then show ?case
  proof cases
    case 1
    then show ?thesis by (intro exI [of _ "rn_commitIndex rn"]) (auto simp: commitLoop.simps)
  next
    case 2
    then have "commitLoop n rn = Some (rn\<lparr>rn_commitIndex := n\<rparr>)"
      by (subst commitLoop.simps) (simp add: committable_def)
    then show ?thesis using 2 by (intro exI [of _ n]) auto
  next
    case 3
    then have step: "commitLoop n rn = commitLoop (n - 1) rn"
      using "1.prems" by (subst commitLoop.simps) (auto simp: committable_def)
    have "\<exists>c. commitLoop (n - 1) rn = Some (rn\<lparr>rn_commitIndex := c\<rparr>) \<and>
        (c = rn_commitIndex rn \<or> rn_commitIndex rn < c \<and> c \<le> n - 1 \<and> committable rn c) \<and>
        (\<forall>k. c < k \<and> k \<le> n - 1 \<longrightarrow> \<not> committable rn k)"
      using "1.IH" "1.prems" 3 by (cases "int (length (rn_log rn)) < n") (auto simp: committable_def)
    then obtain c where c: "commitLoop (n - 1) rn = Some (rn\<lparr>rn_commitIndex := c\<rparr>)"
      "c = rn_commitIndex rn \<or> rn_commitIndex rn < c \<and> c \<le> n - 1 \<and> committable rn c"
      "\<forall>k. c < k \<and> k \<le> n - 1 \<longrightarrow> \<not> committable rn k" by blast
    have "\<not> committable rn k" if "c < k" "k \<le> n" for k
      using that c(3) 3(2) by (cases "k = n") auto
    then show ?thesis using c 3 by (intro exI [of _ c]) (auto simp: step)
  qed
qed

lemma updateCommitIndex_spec:
  assumes "0 \<le> rn_commitIndex rn"
  shows "\<exists>c. updateCommitIndex rn = Some (rn\<lparr>rn_commitIndex := c\<rparr>) \<and> rn_commitIndex rn \<le> c"
proof (cases "rn_state rn = Leader")
  case True
  then show ?thesis using commitLoop_spec [OF assms, of "getLastLogIndex rn"] by (auto simp: updateCommitIndex_def)
next
  case False
  then show ?thesis by (intro exI [of _ "rn_commitIndex rn"]) (simp add: updateCommitIndex_def)
qed

section \<open>Catching up\<close>

text \<open>
  One round between a leader and a follower over a network that delivers: the leader builds a
  request, the follower handles it, the leader handles the answer. Rounds repeat while the
  leader decides to retry at once; the first argument bounds their number.
\<close>

definition replication_round :: "raft_env \<Rightarrow> string \<Rightarrow> RaftNode \<times> disk \<Rightarrow> RaftNode \<times> disk \<Rightarrow>
    (bool \<times> (RaftNode \<times> disk) \<times> (RaftNode \<times> disk)) option" where
  "replication_round en peer = (\<lambda>(ld, dl) (fl, df). do {
     r \<leftarrow> replicateToFollower peer ld;
     (case r of
        None \<Rightarrow> Some (False, (ld, dl), (fl, df))
      | Some req \<Rightarrow> do {
          (resp, fl, df) \<leftarrow> handleAppendEntries en req fl df;
          (retry, ld, dl) \<leftarrow> handleAppendEntriesResponse en peer req resp ld dl;
          Some (retry, (ld, dl), (fl, df))
        })
   })"

fun catchUp :: "nat \<Rightarrow> (nat \<Rightarrow> raft_env) \<Rightarrow> string \<Rightarrow> RaftNode \<times> disk \<Rightarrow> RaftNode \<times> disk \<Rightarrow>
    ((RaftNode \<times> disk) \<times> (RaftNode \<times> disk)) option" where
  "catchUp 0 ens peer l f = None"
| "catchUp (Suc k) ens peer l f =
     (case replication_round (ens 0) peer l f of
        None \<Rightarrow> None
      | Some (retry, l, f) \<Rightarrow> if retry then catchUp k (\<lambda>i. ens (Suc i)) peer l f else Some (l, f))"

definition pair_ok :: "string \<Rightarrow> RaftNode \<Rightarrow> RaftNode \<Rightarrow> bool" where
  "pair_ok peer ld fl =
     (rn_state ld = Leader \<and> contig 0 (rn_log ld) \<and> contig 0 (rn_log fl) \<and> log_match (rn_log fl) (rn_log ld) \<and>
      next_ok peer ld \<and> 0 \<le> rn_commitIndex ld \<and> rn_currentTerm fl \<le> rn_currentTerm ld \<and>
      int (length (rn_log fl) + length (rn_log ld)) < max_i64)"

lemma log_match_refl: "log_match a a"
  by (simp add: log_match_def)

text \<open>A round either ends with the follower holding the leader's log, or moves the next index down.\<close>

lemma replication_round_spec:
  assumes ok: "pair_ok peer ld fl"
  shows "\<exists>retry ld' dl' fl' df'. replication_round en peer (ld, dl) (fl, df) = Some (retry, (ld', dl'), (fl', df')) \<and>
    rn_log ld' = rn_log ld \<and>
    (if retry then pair_ok peer ld' fl' \<and> 1 < gm_get0 (rn_nextIndex ld) peer \<and>
        gm_get0 (rn_nextIndex ld') peer = gm_get0 (rn_nextIndex ld) peer - 1
     else take (length (rn_log ld)) (rn_log fl') = rn_log ld)"
proof -
  let ?ni = "gm_get0 (rn_nextIndex ld) peer"
  have ld: "rn_state ld = Leader" "next_ok peer ld" "int (length (rn_log ld)) < max_i64"
    using ok by (auto simp: pair_ok_def)
  obtain req where req: "replicateToFollower peer ld = Some (Some req)" and sent: "sent_from (rn_log ld) req"
    and tm: "aq_Term req = rn_currentTerm ld" and prev: "aq_PrevLogIndex req = max 1 ?ni - 1"
    and len: "nat (aq_PrevLogIndex req) + length (aq_Entries req) = length (rn_log ld)"
    using replicate_request [OF ld] by blast
  have logs: "contig 0 (rn_log ld)" "contig 0 (rn_log fl)" "log_match (rn_log fl) (rn_log ld)"
    and size: "int (length (rn_log fl) + length (aq_Entries req)) < max_i64"
    using ok len by (auto simp: pair_ok_def)
  have p0: "0 \<le> aq_PrevLogIndex req" using prev by simp
  obtain resp fl' df' where run: "handleAppendEntries en req fl df = Some (resp, fl', df')"
    using handleAppendEntries_spec [OF logs(2) p0 size] by blast
  have notold: "\<not> aq_Term req < rn_currentTerm fl" using ok tm by (simp add: pair_ok_def)
  have res: "rn_currentTerm fl' = rn_currentTerm ld" "ap_Term resp = rn_currentTerm ld" "ap_Success resp = prevMatches req fl"
    using handleAppendEntries_spec [OF logs(2) p0 size, of en df] run notold by (auto simp: tm split: if_splits)
  have fl': "rn_log fl' = rn_log fl \<or> rn_log fl' = rn_log ld" "ap_Success resp \<Longrightarrow> take (length (rn_log ld)) (rn_log fl') = rn_log ld"
    using accept_prefix [OF logs sent size run] by (simp_all add: len)
  show ?thesis
  proof (cases "ap_Success resp")
    case True
    let ?m = "i64 (aq_PrevLogIndex req + int (length (aq_Entries req)))"
    let ?ld = "ld\<lparr>rn_matchIndex := gm_put peer ?m (rn_matchIndex ld), rn_nextIndex := gm_put peer (i64 (?m + 1)) (rn_nextIndex ld)\<rparr>"
    obtain c where "updateCommitIndex ?ld = Some (?ld\<lparr>rn_commitIndex := c\<rparr>)"
      using updateCommitIndex_spec [of ?ld] ok by (auto simp: pair_ok_def)
    then have "handleAppendEntriesResponse en peer req resp ld dl =
        Some (False, if aq_Entries req = [] then ld else ?ld\<lparr>rn_commitIndex := c\<rparr>, dl)"
      using True ld(1) res(2) by (simp add: handleAppendEntriesResponse_def Let_def)
    then show ?thesis using True fl'(2) by (auto simp: replication_round_def req run)
  next
    case False
    have "1 < ?ni"
    proof (rule ccontr)
      assume "\<not> 1 < ?ni"
      then have "prevMatches req fl" by (simp add: prevMatches_def prev)
      then show False using False res(3) by simp
    qed
    moreover have "handleAppendEntriesResponse en peer req resp ld dl =
        Some (True, ld\<lparr>rn_nextIndex := gm_put peer (?ni - 1) (rn_nextIndex ld)\<rparr>, dl)"
      using False ld(1) res(2) \<open>1 < ?ni\<close> by (simp add: handleAppendEntriesResponse_def)
    moreover have "pair_ok peer (ld\<lparr>rn_nextIndex := gm_put peer (?ni - 1) (rn_nextIndex ld)\<rparr>) fl'"
    proof -
      have "rn_log fl' = rn_log fl"
        using handleAppendEntries_spec [OF logs(2) p0 size, of en df] run notold False res(3) by (auto split: if_splits)
      then show ?thesis using ok res(1) \<open>1 < ?ni\<close> by (auto simp: pair_ok_def next_ok_def gm_get0_def)
    qed
    ultimately show ?thesis by (auto simp: replication_round_def req run gm_get0_def)
  qed
qed

lemma catchUp_spec:
  assumes "pair_ok peer ld fl" and "nat (gm_get0 (rn_nextIndex ld) peer) \<le> k"
  shows "\<exists>ld' dl' fl' df'. catchUp (Suc k) ens peer (ld, dl) (fl, df) = Some ((ld', dl'), (fl', df')) \<and>
    rn_log ld' = rn_log ld \<and> take (length (rn_log ld)) (rn_log fl') = rn_log ld"
  using assms
proof (induction k arbitrary: ens ld dl fl df)
  case 0
  obtain retry ld' dl' fl' df' where r: "replication_round (ens 0) peer (ld, dl) (fl, df) = Some (retry, (ld', dl'), (fl', df'))"
    "rn_log ld' = rn_log ld"
    "if retry then pair_ok peer ld' fl' \<and> 1 < gm_get0 (rn_nextIndex ld) peer \<and>
        gm_get0 (rn_nextIndex ld') peer = gm_get0 (rn_nextIndex ld) peer - 1
     else take (length (rn_log ld)) (rn_log fl') = rn_log ld"
    using replication_round_spec [OF 0(1)] by meson
  then show ?case using 0(2) by (auto split: if_splits)
next
  case (Suc k)
  obtain retry ld' dl' fl' df' where r: "replication_round (ens 0) peer (ld, dl) (fl, df) = Some (retry, (ld', dl'), (fl', df'))"
    "rn_log ld' = rn_log ld"
    "if retry then pair_ok peer ld' fl' \<and> 1 < gm_get0 (rn_nextIndex ld) peer \<and>
        gm_get0 (rn_nextIndex ld') peer = gm_get0 (rn_nextIndex ld) peer - 1
     else take (length (rn_log ld)) (rn_log fl') = rn_log ld"
    using replication_round_spec [OF Suc.prems(1)] by meson
  show ?case
  proof (cases retry)
    case True
    then have "pair_ok peer ld' fl'" "nat (gm_get0 (rn_nextIndex ld') peer) \<le> k" using r(3) Suc.prems(2) by auto
    from Suc.IH [OF this, of "\<lambda>i. ens (Suc i)" dl' df'] show ?thesis using True r(1,2) by (auto simp del: catchUp.simps(2) simp: catchUp.simps(2) [of "Suc k"])
  next
    case False
    then show ?thesis using r by auto
  qed
qed

section \<open>Applying entries\<close>

lemma applyNext_spec:
  assumes "0 \<le> rn_lastApplied rn" "rn_lastApplied rn < int (length (rn_log rn))" "int (length (rn_log rn)) < max_i64"
  shows "applyNext now rn = Some (rn\<lparr>rn_lastApplied := rn_lastApplied rn + 1,
    rn_stateMachine := map_option (\<lambda>sm. snd (Apply now (rn_log rn ! nat (rn_lastApplied rn)) sm)) (rn_stateMachine rn)\<rparr>)"
proof -
  have "i64 (rn_lastApplied rn + 1) = rn_lastApplied rn + 1" by (rule i64_suc) (use assms in linarith)+
  then show ?thesis using assms by (simp add: applyNext_def Let_def)
qed

lemma applyEntries_spec:
  assumes "0 \<le> rn_lastApplied rn" and "rn_lastApplied rn + int n = rn_commitIndex rn"
    and "rn_commitIndex rn \<le> int (length (rn_log rn))" and "int (length (rn_log rn)) < max_i64"
  shows "applyEntries clk rn = Some (rn\<lparr>rn_lastApplied := rn_commitIndex rn,
    rn_stateMachine := map_option (apply_all (zip (map clk [0..<n]) (drop (nat (rn_lastApplied rn)) (rn_log rn))))
      (rn_stateMachine rn)\<rparr>)"
  using assms
proof (induction n arbitrary: clk rn)
  case 0
  then show ?case by (subst applyEntries.simps) (simp add: apply_all_def [abs_def] map_option_cong option.map_ident)
next
  case (Suc n)
  let ?a = "nat (rn_lastApplied rn)"
  let ?rn = "rn\<lparr>rn_lastApplied := rn_lastApplied rn + 1,
    rn_stateMachine := map_option (\<lambda>sm. snd (Apply (clk 0) (rn_log rn ! ?a) sm)) (rn_stateMachine rn)\<rparr>"
  have "applyNext (clk 0) rn = Some ?rn" by (rule applyNext_spec) (use Suc.prems in auto)
  moreover have "rn_lastApplied rn < rn_commitIndex rn" using Suc.prems by simp
  ultimately have step: "applyEntries clk rn = applyEntries (\<lambda>i. clk (Suc i)) ?rn"
    by (subst applyEntries.simps) simp
  have "applyEntries (\<lambda>i. clk (Suc i)) ?rn = Some (?rn\<lparr>rn_lastApplied := rn_commitIndex ?rn,
    rn_stateMachine := map_option (apply_all (zip (map (\<lambda>i. clk (Suc i)) [0..<n]) (drop (nat (rn_lastApplied ?rn)) (rn_log ?rn))))
      (rn_stateMachine ?rn)\<rparr>)"
    by (rule Suc.IH) (use Suc.prems in auto)
  moreover have "drop ?a (rn_log rn) = rn_log rn ! ?a # drop (Suc ?a) (rn_log rn)"
    using Suc.prems by (intro Cons_nth_drop_Suc [symmetric]) auto
  moreover have "nat (rn_lastApplied rn + 1) = Suc ?a" using Suc.prems(1) by simp
  ultimately show ?case
    by (simp add: step map_upt_Suc option.map_comp comp_def del: upt_Suc)
qed

text \<open>A machine that has applied exactly the entries up to \<^verbatim>\<open>lastApplied\<close>, each once and in order.\<close>

definition applied_prefix :: "RaftNode \<Rightarrow> bool" where
  "applied_prefix rn \<longleftrightarrow> 0 \<le> rn_lastApplied rn \<and> rn_lastApplied rn \<le> int (length (rn_log rn)) \<and>
     (\<exists>ts. length ts = nat (rn_lastApplied rn) \<and>
       rn_stateMachine rn = Some (apply_all (zip ts (take (nat (rn_lastApplied rn)) (rn_log rn))) NewKVStateMachine))"

lemma apply_all_append: "apply_all (es @ es') sm = apply_all es' (apply_all es sm)"
  by (simp add: apply_all_def)

lemma applied_prefix_applyEntries:
  assumes "applied_prefix rn" and "rn_lastApplied rn \<le> rn_commitIndex rn"
    and "rn_commitIndex rn \<le> int (length (rn_log rn))" and "int (length (rn_log rn)) < max_i64"
  shows "\<exists>rn'. applyEntries clk rn = Some rn' \<and> rn_lastApplied rn' = rn_commitIndex rn \<and> applied_prefix rn' \<and>
    rn_log rn' = rn_log rn"
proof -
  let ?a = "nat (rn_lastApplied rn)" and ?c = "nat (rn_commitIndex rn)"
  obtain n where n: "rn_lastApplied rn + int n = rn_commitIndex rn" using assms(2) by (metis zle_iff_zadd)
  have a0: "0 \<le> rn_lastApplied rn" using assms(1) by (simp add: applied_prefix_def)
  obtain ts where ts: "length ts = ?a"
    "rn_stateMachine rn = Some (apply_all (zip ts (take ?a (rn_log rn))) NewKVStateMachine)"
    using assms(1) by (auto simp: applied_prefix_def)
  have c: "?c = ?a + n" "?c \<le> length (rn_log rn)" using n a0 assms(3) by auto
  have "zip (map clk [0..<n]) (drop ?a (rn_log rn)) = zip (map clk [0..<n]) (take n (drop ?a (rn_log rn)))"
    using take_zip [of n "map clk [0..<n]" "drop ?a (rn_log rn)"] by simp
  then have "zip ts (take ?a (rn_log rn)) @ zip (map clk [0..<n]) (drop ?a (rn_log rn)) =
      zip (ts @ map clk [0..<n]) (take ?c (rn_log rn))"
    using ts(1) c by (simp add: take_add zip_append)
  then have "apply_all (zip (map clk [0..<n]) (drop ?a (rn_log rn))) (apply_all (zip ts (take ?a (rn_log rn))) NewKVStateMachine) =
      apply_all (zip (ts @ map clk [0..<n]) (take ?c (rn_log rn))) NewKVStateMachine"
    by (metis apply_all_append)
  then show ?thesis
    using applyEntries_spec [OF a0 n assms(3,4), of clk] ts c a0 n assms(3)
    by (auto simp: applied_prefix_def intro!: exI [of _ "ts @ map clk [0..<n]"])
qed

section \<open>Properties\<close>

text \<open>Nodes for the instances below: three members, with a given log.\<close>

definition sampleConfig :: "string \<Rightarrow> RaftConfig" where
  "sampleConfig i = \<lparr>rc_NodeID = i, rc_Address = ''localhost'', rc_RaftPort = 7000, rc_GrpcPort = 9000,
     rc_ElectionTimeout = 0, rc_HeartbeatTimeout = 0, rc_StateMachine = Some NewKVStateMachine\<rparr>"

definition sampleNode :: "string \<Rightarrow> string list \<Rightarrow> LogEntry list \<Rightarrow> RaftNode" where
  "sampleNode i peers lg =
     (fold (\<lambda>p. AddPeer 0 p ''localhost'' 7000 9000) peers
       (initialNode (sampleConfig i) 0 0
         \<lparr>ps_nodeID = i, ps_filePath = filepathJoin [filepathJoin [''data'', ''raft'', i], ''state.json''], ps_data = initial_state\<rparr>
         (empty_LogStorage i)))\<lparr>rn_log := lg\<rparr>"

definition sampleEnv :: raft_env where
  "sampleEnv = \<lparr>en_now = 0, en_rand = 7, en_save = (\<lambda>i. \<lparr>io_psWrite = WriteOk, io_psRename = None\<rparr>), en_log = io_ok\<rparr>"

lemmas sample_defs = sampleNode_def sampleConfig_def initialNode_def AddPeer_def

definition entry_at :: "int \<Rightarrow> int \<Rightarrow> LogEntry" where
  "entry_at i t = (test_entry i)\<lparr>le_Term := t\<rparr>"

definition sampleLeader :: RaftNode where
  "sampleLeader = (sampleNode ''a'' [''b'', ''c''] [entry_at 1 1, entry_at 2 2, entry_at 3 2])
     \<lparr>rn_state := Leader, rn_currentTerm := 2, rn_nextIndex := [(''b'', 4), (''c'', 4)], rn_matchIndex := [(''b'', 0), (''c'', 0)]\<rparr>"

definition sampleFollower :: RaftNode where
  "sampleFollower = (sampleNode ''b'' [''a'', ''c''] [entry_at 1 1, entry_at 2 1])\<lparr>rn_currentTerm := 1\<rparr>"

lemma sample_pair_ok: "pair_ok ''b'' sampleLeader sampleFollower"
  by (simp add: pair_ok_def sampleLeader_def sampleFollower_def sample_defs entry_at_def test_entry_def next_ok_def
    gm_get0_def log_match_def less_Suc_eq numeral_2_eq_2 numeral_3_eq_3)

text \<open>
  C2. Handling a leader's request keeps the log matching property: the follower's new log has
  consecutive indices, matches the leader's log and every third log that matched both. When
  the follower accepts, its log begins with the leader's whole log.
\<close>

theorem replication_keeps_log_matching:
  assumes "pair_ok peer ld fl" and "replicateToFollower peer ld = Some (Some req)"
    and "handleAppendEntries en req fl d = Some (resp, fl', d')"
    and "log_match (rn_log fl) other" and "log_match (rn_log ld) other"
  shows "contig 0 (rn_log fl') \<and> log_match (rn_log fl') (rn_log ld) \<and> log_match (rn_log fl') other \<and>
    (ap_Success resp \<longrightarrow> take (length (rn_log ld)) (rn_log fl') = rn_log ld)"
proof -
  have sent: "sent_from (rn_log ld) req" and len: "nat (aq_PrevLogIndex req) + length (aq_Entries req) = length (rn_log ld)"
    using replicate_request [of ld peer] assms(1,2) by (auto simp: pair_ok_def)
  have logs: "contig 0 (rn_log ld)" "contig 0 (rn_log fl)" "log_match (rn_log fl) (rn_log ld)"
    and size: "int (length (rn_log fl) + length (aq_Entries req)) < max_i64"
    using assms(1) len by (auto simp: pair_ok_def)
  have "rn_log fl' = rn_log fl \<or> rn_log fl' = rn_log ld" using accept_prefix(1) [OF logs sent size assms(3)] by (simp add: len)
  then have "contig 0 (rn_log fl') \<and> log_match (rn_log fl') (rn_log ld) \<and> log_match (rn_log fl') other"
    using logs assms(4,5) log_match_refl by metis
  then show ?thesis using accept_prefix(2) [OF logs sent size assms(3)] by (simp add: len)
qed

theorem replication_keeps_log_matching_witness:
  "\<exists>req resp fl' d'. replicateToFollower ''b'' (sampleLeader\<lparr>rn_nextIndex := [(''b'', 2)]\<rparr>) = Some (Some req) \<and>
     handleAppendEntries sampleEnv req sampleFollower Map.empty = Some (resp, fl', d') \<and>
     contig 0 (rn_log fl') \<and> log_match (rn_log fl') (rn_log sampleLeader)"
proof -
  let ?ld = "sampleLeader\<lparr>rn_nextIndex := [(''b'', 2)]\<rparr>"
  have ok: "pair_ok ''b'' ?ld sampleFollower"
    using sample_pair_ok by (simp add: pair_ok_def next_ok_def gm_get0_def sampleLeader_def)
  then obtain req where req: "replicateToFollower ''b'' ?ld = Some (Some req)" "0 \<le> aq_PrevLogIndex req"
    "length (aq_Entries req) \<le> length (rn_log ?ld)"
    using replicate_request [of ?ld "''b''"] by (force simp: pair_ok_def)
  then obtain resp fl' d' where run: "handleAppendEntries sampleEnv req sampleFollower Map.empty = Some (resp, fl', d')"
    using handleAppendEntries_spec [of sampleFollower req sampleEnv Map.empty] ok by (force simp: pair_ok_def)
  have "log_match (rn_log sampleFollower) []" "log_match (rn_log ?ld) []" by (simp_all add: log_match_def)
  from replication_keeps_log_matching [OF ok req(1) run this] req run show ?thesis by auto
qed



text \<open>
  C5. The commit rule of a leader: the commit index moves, if at all, forward to the highest index
  whose entry is of the current term and stored on at least \<^verbatim>\<open>getMajority()\<close> members
  counting the leader, and nothing else of the node changes.
\<close>

theorem leader_commit_rule:
  assumes "rn_state rn = Leader" and "0 \<le> rn_commitIndex rn" and "contig 0 (rn_log rn)"
  shows "\<exists>c. updateCommitIndex rn = Some (rn\<lparr>rn_commitIndex := c\<rparr>) \<and>
    (c = rn_commitIndex rn \<or> rn_commitIndex rn < c \<and> committable rn c) \<and>
    (\<forall>k. c < k \<longrightarrow> \<not> committable rn k)"
proof -
  obtain c where c: "commitLoop (getLastLogIndex rn) rn = Some (rn\<lparr>rn_commitIndex := c\<rparr>)"
    "c = rn_commitIndex rn \<or> rn_commitIndex rn < c \<and> c \<le> getLastLogIndex rn \<and> committable rn c"
    "\<forall>k. c < k \<and> k \<le> getLastLogIndex rn \<longrightarrow> \<not> committable rn k"
    using commitLoop_spec [OF assms(2)] by blast
  have "\<not> committable rn k" if "c < k" for k
    using c(3) that contig_lastIndex [OF assms(3)] by (cases "k \<le> getLastLogIndex rn") (auto simp: committable_def)
  then show ?thesis using c assms(1) by (auto simp: updateCommitIndex_def)
qed

theorem leader_commit_rule_witness:
  "updateCommitIndex (sampleLeader\<lparr>rn_matchIndex := [(''b'', 2), (''c'', 0)]\<rparr>) =
    Some (sampleLeader\<lparr>rn_matchIndex := [(''b'', 2), (''c'', 0)], rn_commitIndex := 2\<rparr>)"
proof -
  let ?rn = "sampleLeader\<lparr>rn_matchIndex := [(''b'', 2), (''c'', 0)]\<rparr>"
  have f: "rn_commitIndex ?rn = 0" "rn_state ?rn = Leader" "rn_log ?rn = [entry_at 1 1, entry_at 2 2, entry_at 3 2]"
    "rn_currentTerm ?rn = 2" "length (rn_peers ?rn) = 2" by (simp_all add: sampleLeader_def sample_defs)
  have com: "committable ?rn k \<longleftrightarrow> k = 2" for k
  proof
    assume k: "committable ?rn k"
    then have "k = 1 \<or> k = 2 \<or> k = 3" unfolding committable_def f by auto
    with k show "k = 2" unfolding committable_def f getMajority_def replicas_def by (auto simp: entry_at_def)
  qed (unfold committable_def f getMajority_def replicas_def, simp add: entry_at_def)
  have "contig 0 (rn_log ?rn)" unfolding f by (simp add: entry_at_def test_entry_def)
  from leader_commit_rule [OF f(2) _ this] show ?thesis unfolding com f by force
qed

text \<open>
  The loop that applies committed entries ends: it returns with every committed entry applied,
  each exactly once, in order, on top of those applied before, at whatever times the clock reads.
\<close>

theorem applyEntries_terminates:
  assumes "applied_prefix rn" and "rn_lastApplied rn \<le> rn_commitIndex rn"
    and "rn_commitIndex rn \<le> int (length (rn_log rn))" and "int (length (rn_log rn)) < max_i64"
  shows "\<exists>rn'. applyEntries clk rn = Some rn' \<and> rn_lastApplied rn' = rn_commitIndex rn \<and> applied_prefix rn'"
  using applied_prefix_applyEntries [OF assms] by blast

theorem applyEntries_terminates_witness:
  "\<exists>rn'. applyEntries (\<lambda>i. 5) (sampleFollower\<lparr>rn_commitIndex := 2\<rparr>) = Some rn' \<and> rn_lastApplied rn' = 2"
proof -
  have "applied_prefix (sampleFollower\<lparr>rn_commitIndex := 2\<rparr>)"
    by (simp add: applied_prefix_def sampleFollower_def sample_defs)
  from applyEntries_terminates [OF this, of "\<lambda>i. 5"] show ?thesis by (auto simp: sampleFollower_def sample_defs)
qed



text \<open>
  C29. What \<^verbatim>\<open>getMajority\<close> counts is a majority exactly in clusters of odd size. With an odd
  number of members any two sets of that many members share one; with an even number half of
  the members suffice, and two disjoint sets can both reach it.
\<close>

theorem majority_quorums:
  assumes "gm_ok (rn_peers rn)" and "gm_get (rn_peers rn) (rn_id rn) = None"
    and "members = insert (rn_id rn) (fst ` set (rn_peers rn))"
  shows "if odd (card members)
    then (\<forall>A B. A \<subseteq> members \<and> B \<subseteq> members \<and> getMajority rn \<le> card A \<and> getMajority rn \<le> card B \<longrightarrow> A \<inter> B \<noteq> {})
    else (\<exists>A B. A \<subseteq> members \<and> B \<subseteq> members \<and> getMajority rn \<le> card A \<and> getMajority rn \<le> card B \<and> A \<inter> B = {})"
proof -
  have fin: "finite members" by (simp add: assms(3))
  have "card (fst ` set (rn_peers rn)) = length (rn_peers rn)"
    using assms(1) by (metis distinct_card gm_ok_def length_map set_map)
  moreover have "rn_id rn \<notin> fst ` set (rn_peers rn)" using assms(2) by (simp add: map_of_eq_None_iff)
  ultimately have n: "card members = Suc (length (rn_peers rn))" by (simp add: assms(3))
  show ?thesis
  proof (cases "odd (card members)")
    case True
    have "A \<inter> B \<noteq> {}" if "A \<subseteq> members" "B \<subseteq> members" "getMajority rn \<le> card A" "getMajority rn \<le> card B" for A B
    proof
      assume "A \<inter> B = {}"
      then have "card A + card B = card (A \<union> B)" using that fin by (metis card_Un_disjoint finite_subset)
      also have "\<dots> \<le> card members" using that fin by (intro card_mono) auto
      finally have "2 * getMajority rn \<le> card members" using that by linarith
      moreover have "2 * getMajority rn = Suc (card members)" using True n by (auto simp: getMajority_def elim!: oddE)
      ultimately show False by simp
    qed
    then show ?thesis using True by simp
  next
    case False
    then have m: "card members = 2 * getMajority rn" using n by (auto simp: getMajority_def elim!: evenE)
    obtain A where A: "A \<subseteq> members" "card A = getMajority rn"
      using obtain_subset_with_card_n [of "getMajority rn" members] m by auto
    then have "card (members - A) = getMajority rn" using fin m by (simp add: card_Diff_subset finite_subset)
    then have "A \<subseteq> members \<and> members - A \<subseteq> members \<and> getMajority rn \<le> card A \<and> getMajority rn \<le> card (members - A) \<and>
        A \<inter> (members - A) = {}" using A by auto
    then show ?thesis unfolding if_not_P [OF False] by (intro exI)
  qed
qed

theorem majority_quorums_witness:
  "\<exists>A B. A \<subseteq> {''a'', ''b'', ''c'', ''d''} \<and> B \<subseteq> {''a'', ''b'', ''c'', ''d''} \<and>
     getMajority (sampleNode ''a'' [''b'', ''c'', ''d''] []) \<le> card A \<and>
     getMajority (sampleNode ''a'' [''b'', ''c'', ''d''] []) \<le> card B \<and> A \<inter> B = {}"
  using majority_quorums [of "sampleNode ''a'' [''b'', ''c'', ''d''] []" "{''a'', ''b'', ''c'', ''d''}"]
  by (simp add: sample_defs gm_ok_def insert_commute)

end
