(* ===== verification/Step_System.thy ===== *)
theory Step_System
  imports Main
begin

text \<open>
  Runs of a labelled step relation. The locale \<open>step_system\<close> is the contract by which the
  components with a step relation state what every step keeps (an invariant) and in which
  direction it moves (a preorder on states); its lemmas lift both to runs of any length.
\<close>

inductive runs :: "('e \<Rightarrow> 's \<Rightarrow> 's \<Rightarrow> bool) \<Rightarrow> ('e \<Rightarrow> 's \<Rightarrow> bool) \<Rightarrow> 's \<Rightarrow> 'e list \<Rightarrow> 's \<Rightarrow> bool"
  for step :: "'e \<Rightarrow> 's \<Rightarrow> 's \<Rightarrow> bool" and ok :: "'e \<Rightarrow> 's \<Rightarrow> bool" where
  runs_Nil: "runs step ok s [] s"
| runs_Cons: "step e s s1 \<Longrightarrow> ok e s \<Longrightarrow> runs step ok s1 es s2 \<Longrightarrow> runs step ok s (e # es) s2"

inductive_simps runs_Nil_iff [simp]: "runs step ok s [] s'"
inductive_simps runs_Cons_iff: "runs step ok s (e # es) s'"

lemma runs_append:
  "runs step ok s (es @ es') s'' \<longleftrightarrow> (\<exists>s'. runs step ok s es s' \<and> runs step ok s' es' s'')"
  by (induction es arbitrary: s) (auto simp: runs_Cons_iff)

lemma runs_weaken:
  assumes "runs step ok s es s'" and "\<And>e s. ok e s \<Longrightarrow> ok' e s"
  shows "runs step ok' s es s'"
  using assms(1) by induction (auto intro: runs.intros assms(2))

locale step_system =
  fixes step :: "'e \<Rightarrow> 's \<Rightarrow> 's \<Rightarrow> bool"
    and ok :: "'e \<Rightarrow> 's \<Rightarrow> bool"
    and inv :: "'s \<Rightarrow> bool"
    and leq :: "'s \<Rightarrow> 's \<Rightarrow> bool"
  assumes step_inv: "step e s s' \<Longrightarrow> ok e s \<Longrightarrow> inv s \<Longrightarrow> inv s'"
    and step_leq: "step e s s' \<Longrightarrow> ok e s \<Longrightarrow> inv s \<Longrightarrow> leq s s'"
    and leq_refl: "leq s s"
    and leq_trans: "leq s s' \<Longrightarrow> leq s' s'' \<Longrightarrow> leq s s''"
begin

lemma runs_inv: "runs step ok s es s' \<Longrightarrow> inv s \<Longrightarrow> inv s'"
  by (induction rule: runs.induct) (auto intro: step_inv)

lemma runs_leq: "runs step ok s es s' \<Longrightarrow> inv s \<Longrightarrow> leq s s'"
  by (induction rule: runs.induct) (auto intro: leq_refl leq_trans step_leq step_inv)

end

end
