(* ===== verification/Raft_Steps.thy ===== *)
theory Raft_Steps
  imports Raft_Log Step_System
begin

text \<open>
  A Raft node over time: the events of its loop and its goroutines as a step relation, crashes and
  restarts from disk included, and what holds of its term and its vote along every run.
\<close>

section \<open>Steps\<close>

text \<open>
  The node and its disk, the goroutines \<^verbatim>\<open>requestVotes\<close> not yet begun, those collecting votes,
  and the requests whose answers \<^verbatim>\<open>replicateToFollower\<close> awaits.
\<close>

record raft_sys =
  sys_node :: RaftNode
  sys_disk :: disk
  sys_starting :: nat
  sys_elections :: "election list"
  sys_requests :: "(string \<times> AppendRequest) list"

datatype raft_event =
    EvTimeout raft_env
  | EvStartVotes
  | EvVote raft_env nat string "bool option"
  | EvVoteRequest raft_env VoteRequest
  | EvAppend raft_env AppendRequest
  | EvVoteResponse
  | EvHeartbeat
  | EvPropose raft_env string bytes
  | EvReplicate string
  | EvAnswer raft_env nat bool
  | EvApply gtime
  | EvAddPeer gtime string string int int
  | EvRemovePeer string
  | EvRestart open_io gtime nat RaftConfig

inductive raft_step :: "raft_event \<Rightarrow> raft_sys \<Rightarrow> raft_sys \<Rightarrow> bool" where
  timeout: "handleElectionTimeout en (sys_node s) (sys_disk s) = (n, d) \<Longrightarrow>
    raft_step (EvTimeout en) s (s\<lparr>sys_node := n, sys_disk := d,
      sys_starting := (if rn_state (sys_node s) = Leader then sys_starting s else Suc (sys_starting s))\<rparr>)"
| startVotes: "sys_starting s = Suc k \<Longrightarrow>
    raft_step EvStartVotes s (s\<lparr>sys_starting := k,
      sys_elections := sys_elections s @ (case requestVotes (sys_node s) of None \<Rightarrow> [] | Some el \<Rightarrow> [el])\<rparr>)"
| vote: "i < length (sys_elections s) \<Longrightarrow> el = sys_elections s ! i \<Longrightarrow>
    collectVote en (map_option (\<lambda>lucky. simulatedVote lucky peer el) answer) el (sys_node s) (sys_disk s) = (el', n, d) \<Longrightarrow>
    raft_step (EvVote en i peer answer) s (s\<lparr>sys_node := n, sys_disk := d,
      sys_elections := (case el' of None \<Rightarrow> take i (sys_elections s) @ drop (Suc i) (sys_elections s)
                        | Some e \<Rightarrow> (sys_elections s)[i := e])\<rparr>)"
| voteRequest: "handleVoteRequest en req (sys_node s) (sys_disk s) = (resp, n, d) \<Longrightarrow>
    raft_step (EvVoteRequest en req) s (s\<lparr>sys_node := n, sys_disk := d\<rparr>)"
| append: "handleAppendEntries en req (sys_node s) (sys_disk s) = Some (aresp, n, d) \<Longrightarrow>
    raft_step (EvAppend en req) s (s\<lparr>sys_node := n, sys_disk := d\<rparr>)"
| voteResponse: "receiveVoteResponse (sys_node s) = Some n \<Longrightarrow>
    raft_step EvVoteResponse s (s\<lparr>sys_node := n\<rparr>)"
| heartbeat: "raft_step EvHeartbeat s (s\<lparr>sys_node := snd (sendHeartbeats (sys_node s))\<rparr>)"
| propose: "AppendEntry en ty data (sys_node s) (sys_disk s) = (res, n, d) \<Longrightarrow>
    raft_step (EvPropose en ty data) s (s\<lparr>sys_node := n, sys_disk := d\<rparr>)"
| replicate: "replicateToFollower peer (sys_node s) = Some (Some req) \<Longrightarrow>
    raft_step (EvReplicate peer) s (s\<lparr>sys_requests := sys_requests s @ [(peer, req)]\<rparr>)"
| answer: "i < length (sys_requests s) \<Longrightarrow> sys_requests s ! i = (peer, req) \<Longrightarrow>
    handleAppendEntriesResponse en peer req (simulatedAppendResponse success peer req) (sys_node s) (sys_disk s) = Some (retry, n, d) \<Longrightarrow>
    raft_step (EvAnswer en i success) s (s\<lparr>sys_node := n, sys_disk := d,
      sys_requests := take i (sys_requests s) @ drop (Suc i) (sys_requests s)\<rparr>)"
| applied: "rn_lastApplied (sys_node s) < rn_commitIndex (sys_node s) \<Longrightarrow> applyNext now (sys_node s) = Some n \<Longrightarrow>
    raft_step (EvApply now) s (s\<lparr>sys_node := n\<rparr>)"
| addPeer: "raft_step (EvAddPeer now i address raftPort grpcPort) s
    (s\<lparr>sys_node := AddPeer now i address raftPort grpcPort (sys_node s)\<rparr>)"
| removePeer: "raft_step (EvRemovePeer i) s (s\<lparr>sys_node := RemovePeer i (sys_node s)\<rparr>)"
| restart: "rc_NodeID config = rn_id (sys_node s) \<Longrightarrow> NewRaftNode oi now r config (sys_disk s) = (Inr n, d) \<Longrightarrow>
    raft_step (EvRestart oi now r config) s
      (s\<lparr>sys_node := n, sys_disk := d, sys_starting := 0, sys_elections := [], sys_requests := []\<rparr>)"

section \<open>Durable term and vote\<close>

definition vote_of :: "RaftNode \<Rightarrow> PersistentStateData" where
  "vote_of rn = \<lparr>pd_CurrentTerm = rn_currentTerm rn, pd_VotedFor = rn_votedFor rn\<rparr>"

definition statePath :: "string \<Rightarrow> string" where
  "statePath i = filepathJoin [filepathJoin [''data'', ''raft'', i], ''state.json'']"

text \<open>The node's storage objects belong to it, and the state file holds its term and vote.\<close>

definition owns :: "RaftNode \<Rightarrow> bool" where
  "owns rn = (ps_nodeID (rn_persistence rn) = rn_id rn \<and> ps_filePath (rn_persistence rn) = statePath (rn_id rn) \<and>
     ls_baseDir (rn_logStorage rn) = ls_baseDir (empty_LogStorage (rn_id rn)) \<and>
     ls_logFile (rn_logStorage rn) = ls_logFile (empty_LogStorage (rn_id rn)) \<and>
     utf8_valid (rn_id rn) \<and> rn_id rn \<noteq> [])"

definition durable :: "RaftNode \<Rightarrow> disk \<Rightarrow> bool" where
  "durable rn d = (ps_data (rn_persistence rn) = vote_of rn \<and> State_ok (vote_of rn) \<and>
     d (statePath (rn_id rn)) = Some (marshal_State (vote_of rn)))"

text \<open>A node that asks for votes or leads has voted for itself.\<close>

definition role_ok :: "RaftNode \<Rightarrow> bool" where
  "role_ok rn = (rn_state rn \<noteq> Follower \<longrightarrow> rn_votedFor rn = rn_id rn)"

definition raft_inv :: "raft_sys \<Rightarrow> bool" where
  "raft_inv s = (owns (sys_node s) \<and> durable (sys_node s) (sys_disk s) \<and> role_ok (sys_node s))"

definition io_succeeds :: ps_io where
  "io_succeeds = \<lparr>io_psWrite = WriteOk, io_psRename = None\<rparr>"

definition env_ok :: "raft_env \<Rightarrow> bool" where
  "env_ok en \<longleftrightarrow> en_save en = (\<lambda>i. io_succeeds)"

text \<open>
  Events whose saves of the term and vote succeed (writes to the log may fail in any way),
  whose integers fit 64 bits and whose identifiers are valid UTF-8, as gRPC guarantees; the
  last term is never reached.
\<close>

fun raft_ok :: "raft_event \<Rightarrow> raft_sys \<Rightarrow> bool" where
  "raft_ok (EvTimeout en) s = (env_ok en \<and> rn_currentTerm (sys_node s) < max_i64)"
| "raft_ok (EvVote en i peer answer) s = env_ok en"
| "raft_ok (EvVoteRequest en req) s = (env_ok en \<and> int64 (vq_Term req) \<and> utf8_valid (vq_CandidateID req))"
| "raft_ok (EvAppend en req) s = (env_ok en \<and> int64 (aq_Term req))"
| "raft_ok (EvPropose en ty data) s = True"
| "raft_ok (EvAnswer en i success) s = env_ok en"
| "raft_ok (EvRestart oi now r config) s = (oi_mkdirState oi = None \<and> oi_readState oi = None)"
| "raft_ok _ s = True"

definition term_leq :: "raft_sys \<Rightarrow> raft_sys \<Rightarrow> bool" where
  "term_leq s s' = (rn_currentTerm (sys_node s) \<le> rn_currentTerm (sys_node s'))"

definition vote_leq :: "raft_sys \<Rightarrow> raft_sys \<Rightarrow> bool" where
  "vote_leq s s' = (rn_currentTerm (sys_node s) < rn_currentTerm (sys_node s') \<or>
     rn_currentTerm (sys_node s) = rn_currentTerm (sys_node s') \<and>
     (rn_votedFor (sys_node s) = [] \<or> rn_votedFor (sys_node s') = rn_votedFor (sys_node s)))"

fun not_same_term_append :: "raft_event \<Rightarrow> raft_sys \<Rightarrow> bool" where
  "not_same_term_append (EvAppend en req) s = (aq_Term req \<noteq> rn_currentTerm (sys_node s))"
| "not_same_term_append _ s = True"

section \<open>Every step keeps the invariant\<close>

lemma ps_save_succeeds:
  "ps_save io_succeeds ps d = (None, d(ps_filePath ps @ ''.tmp'' := None, ps_filePath ps \<mapsto> marshal_State (ps_data ps)))"
  by (simp add: ps_save_def io_succeeds_def Let_def)

lemma save_succeeds:
  "savePersistentState io_succeeds rn d =
     (rn\<lparr>rn_persistence := (rn_persistence rn)\<lparr>ps_data := vote_of rn\<rparr>\<rparr>,
      d(ps_filePath (rn_persistence rn) @ ''.tmp'' := None, ps_filePath (rn_persistence rn) \<mapsto> marshal_State (vote_of rn)))"
  by (simp add: savePersistentState_eq ps_save_succeeds vote_of_def Let_def)

lemma env_ok_save [simp]: "env_ok en \<Longrightarrow> en_save en i = io_succeeds"
  by (simp add: env_ok_def)

named_theorems node_simps

lemmas node_defs [node_simps] = owns_def durable_def role_ok_def vote_of_def save_succeeds resetElectionTimer_def Let_def

lemma statePath_suffix: "\<exists>p. statePath i = p @ ''state.json''"
  unfolding statePath_def by (rule filepathJoin_suffix) simp_all

lemma log_paths_suffix:
  "\<exists>p. ls_logFile (empty_LogStorage i) = p @ ''entries.json''" "\<exists>p. filepathJoin [b, ''metadata.json''] = p @ ''metadata.json''"
  using filepathJoin_suffix [of "''entries.json''"] filepathJoin_suffix [of "''metadata.json''"]
  by (simp_all add: empty_LogStorage_def)

lemma persist_frame:
  assumes "x \<noteq> metadataFile ls" "x \<noteq> ls_logFile ls" "x \<noteq> ls_logFile ls @ ''.tmp''"
  shows "snd (persist io ls d) x = d x"
  using assms by (cases "io_metaWrite io"; cases "io_logWrite io"; cases "io_logRename io") (auto simp: persist_def Let_def)

lemma LS_Append_frame:
  assumes "LS_AppendEntries io es ls d = (err, ls', d')"
  shows "ls_logFile ls' = ls_logFile ls" "ls_baseDir ls' = ls_baseDir ls"
    "ls_logFile ls = ls_logFile (empty_LogStorage i) \<Longrightarrow> d' (statePath i) = d (statePath i)"
proof -
  show paths: "ls_logFile ls' = ls_logFile ls" "ls_baseDir ls' = ls_baseDir ls"
    using assms by (auto simp: LS_AppendEntries_def Let_def split: prod.splits if_splits)
  have d': "d' = snd (persist io ls' d)" using assms by (auto simp: LS_AppendEntries_def Let_def split: prod.splits)
  show "d' (statePath i) = d (statePath i)" if lf: "ls_logFile ls = ls_logFile (empty_LogStorage i)"
  proof -
    obtain p where p: "statePath i = p @ ''state.json''" using statePath_suffix by blast
    obtain q where q: "ls_logFile ls' = q @ ''entries.json''" using log_paths_suffix(1) [of i] lf paths(1) by auto
    obtain r where r: "metadataFile ls' = r @ ''metadata.json''"
      unfolding metadataFile_def using log_paths_suffix(2) by blast
    have "rev (statePath i) \<noteq> rev (metadataFile ls')" "rev (statePath i) \<noteq> rev (ls_logFile ls')"
      "rev (statePath i) \<noteq> rev (ls_logFile ls' @ ''.tmp'')" by (simp_all add: p q r)
    then show ?thesis unfolding d' by (intro persist_frame) auto
  qed
qed

text \<open>The part of the invariant about one node, and how a handler may move its term and vote.\<close>

definition node_inv :: "RaftNode \<Rightarrow> disk \<Rightarrow> bool" where
  "node_inv rn d = (owns rn \<and> durable rn d \<and> role_ok rn)"

definition moves :: "RaftNode \<Rightarrow> RaftNode \<Rightarrow> bool" where
  "moves rn rn' = (rn_id rn' = rn_id rn \<and> (rn_currentTerm rn < rn_currentTerm rn' \<or>
     rn_currentTerm rn = rn_currentTerm rn' \<and> (rn_votedFor rn = [] \<or> rn_votedFor rn' = rn_votedFor rn)))"

text \<open>Steps that do not touch identity, term, vote and storage objects.\<close>

lemma node_inv_frame:
  assumes "node_inv rn d" and "rn_id rn' = rn_id rn" "rn_currentTerm rn' = rn_currentTerm rn" "rn_votedFor rn' = rn_votedFor rn"
    "rn_persistence rn' = rn_persistence rn" "ls_baseDir (rn_logStorage rn') = ls_baseDir (rn_logStorage rn)"
    "ls_logFile (rn_logStorage rn') = ls_logFile (rn_logStorage rn)" "d' (statePath (rn_id rn)) = d (statePath (rn_id rn))"
    and "rn_state rn' = rn_state rn \<or> rn_state rn' = Follower \<or> rn_state rn = Candidate"
  shows "node_inv rn' d' \<and> moves rn rn'"
  using assms by (auto simp: node_inv_def moves_def node_simps)

lemma State_ok_vote: "int64 t \<Longrightarrow> utf8_valid v \<Longrightarrow> State_ok \<lparr>pd_CurrentTerm = t, pd_VotedFor = v\<rparr>"
  by (simp add: State_ok_def)

lemma node_inv_ElectionTimeout:
  assumes "node_inv rn d" and "env_ok en" and "rn_currentTerm rn < max_i64"
    and "handleElectionTimeout en rn d = (rn', d')"
  shows "node_inv rn' d' \<and> moves rn rn'"
proof -
  have t: "i64 (rn_currentTerm rn + 1) = rn_currentTerm rn + 1" "int64 (rn_currentTerm rn + 1)"
    using assms(1,3) by (auto simp: node_inv_def node_simps State_ok_def int64_def intro!: i64_id)
  show ?thesis using assms t
    by (auto simp: handleElectionTimeout_def startElection_def node_inv_def moves_def node_simps State_ok_vote split: if_splits)
qed

lemma node_inv_VoteRequest:
  assumes "node_inv rn d" and "env_ok en" and "int64 (vq_Term req)" and "utf8_valid (vq_CandidateID req)"
    and "handleVoteRequest en req rn d = (resp, rn', d')"
  shows "node_inv rn' d' \<and> moves rn rn'"
proof -
  have "int64 (rn_currentTerm rn)" using assms(1) by (simp add: node_inv_def node_simps State_ok_def)
  then show ?thesis using assms
    by (auto simp: handleVoteRequest_def node_inv_def moves_def node_simps State_ok_vote split: if_splits)
qed

lemma node_inv_collectVote:
  assumes "node_inv rn d" and "env_ok en"
    and "collectVote en (map_option (\<lambda>lucky. simulatedVote lucky peer el) answer) el rn d = (el', rn', d')"
  shows "node_inv rn' d' \<and> moves rn rn'" "el' = Some e \<Longrightarrow> el_term e = el_term el" "rn_currentTerm rn' = rn_currentTerm rn"
proof -
  have "rn' = rn \<or> rn_state rn = Candidate \<and> rn' = becomeLeader rn" "d' = d" "el' = Some e \<Longrightarrow> el_term e = el_term el"
    using assms(3) by (auto simp: collectVote_def simulatedVote_def Let_def split: option.splits if_splits)
  then show "node_inv rn' d' \<and> moves rn rn'" "el' = Some e \<Longrightarrow> el_term e = el_term el" "rn_currentTerm rn' = rn_currentTerm rn"
    using node_inv_frame [OF assms(1), of rn' d'] by (auto simp: becomeLeader_def resetHeartbeatTimer_def Let_def)
qed

lemma node_inv_AppendEntries:
  assumes "node_inv rn d" and "env_ok en" and "int64 (aq_Term req)"
    and "handleAppendEntries en req rn d = Some (resp, rn', d')"
  shows "node_inv rn' d' \<and> rn_id rn' = rn_id rn \<and> rn_currentTerm rn \<le> rn_currentTerm rn'"
    and "aq_Term req \<noteq> rn_currentTerm rn \<Longrightarrow> moves rn rn'"
proof -
  let ?rn = "(resetElectionTimer (en_rand en) (fst (savePersistentState io_succeeds
    (rn\<lparr>rn_currentTerm := aq_Term req, rn_state := Follower, rn_votedFor := []\<rparr>) d)))\<lparr>rn_lastHeartbeat := en_now en\<rparr>"
  let ?d = "snd (savePersistentState io_succeeds (rn\<lparr>rn_currentTerm := aq_Term req, rn_state := Follower, rn_votedFor := []\<rparr>) d)"
  have step: "node_inv ?rn ?d" "rn_id ?rn = rn_id rn" "rn_currentTerm ?rn = aq_Term req"
    using assms(1,3) by (auto simp: node_inv_def node_simps State_ok_vote)
  have "node_inv rn' d' \<and> moves ?rn rn'" if new: "\<not> aq_Term req < rn_currentTerm rn" "prevMatches req ?rn"
  proof -
    obtain n d1 where st: "storeEntries (en_log en) req ?rn ?d = Some (n, d1)"
      and rn': "rn' = advanceCommit (aq_LeaderCommit req) n" "d' = d1"
      using assms(2,4) new by (auto simp: handleAppendEntries_def Let_def case_prod_unfold split: bind_splits)
    have "n = ?rn \<and> d1 = ?d \<or> (\<exists>lg ls err. n = ?rn\<lparr>rn_log := lg, rn_logStorage := ls\<rparr> \<and>
        LS_AppendEntries (en_log en) (aq_Entries req) (rn_logStorage ?rn) ?d = (err, ls, d1))"
      using st by (auto simp: storeEntries_def Let_def split: if_splits bind_splits prod.splits)
    then have "node_inv n d1 \<and> moves ?rn n"
      using node_inv_frame [OF step(1), of n d1] step(1)
      by (auto simp: node_inv_def owns_def moves_def LS_Append_frame)
    moreover have "node_inv rn' d' \<and> moves n rn'"
      by (rule node_inv_frame) (use calculation in \<open>simp_all add: rn' advanceCommit_def\<close>)
    ultimately show ?thesis by (auto simp: moves_def)
  qed
  then show "node_inv rn' d' \<and> rn_id rn' = rn_id rn \<and> rn_currentTerm rn \<le> rn_currentTerm rn'"
    and "aq_Term req \<noteq> rn_currentTerm rn \<Longrightarrow> moves rn rn'"
    using assms step by (auto simp: handleAppendEntries_def Let_def case_prod_unfold moves_def split: if_splits)
qed

lemma node_inv_AppendEntry:
  assumes "node_inv rn d" and "AppendEntry en ty data rn d = (res, rn', d')"
  shows "node_inv rn' d' \<and> moves rn rn'"
proof (cases "rn_state rn = Leader")
  case True
  then obtain e ls err where l: "LS_AppendEntries (en_log en) [e] (rn_logStorage rn) d = (err, ls, d')"
    and rn': "rn' = rn\<lparr>rn_log := rn_log rn @ [e], rn_logStorage := ls\<rparr>"
    using assms(2) by (auto simp: AppendEntry_def Let_def split: prod.splits option.splits)
  show ?thesis
    by (rule node_inv_frame [OF assms(1)])
      (use assms(1) LS_Append_frame [OF l] in \<open>auto simp: rn' node_inv_def owns_def\<close>)
next
  case False
  then show ?thesis using assms by (simp add: AppendEntry_def moves_def)
qed

lemma commitLoop_frame: "commitLoop n rn = Some rn' \<Longrightarrow> rn' = rn\<lparr>rn_commitIndex := rn_commitIndex rn'\<rparr>"
proof (induction n rn rule: commitLoop.induct)
  case (1 n rn)
  consider "rn' = rn" | c where "rn' = rn\<lparr>rn_commitIndex := c\<rparr>" | "rn' = rn\<lparr>rn_commitIndex := rn_commitIndex rn'\<rparr>"
    using "1.prems" "1.IH" unfolding commitLoop.simps [of n rn] by (metis option.sel option.distinct(1))
  then show ?case by cases simp_all
qed

lemma updateCommitIndex_frame:
  "updateCommitIndex rn = Some rn' \<Longrightarrow> rn' = rn\<lparr>rn_commitIndex := rn_commitIndex rn'\<rparr>"
  using commitLoop_frame by (simp add: updateCommitIndex_def split: if_splits)

lemma node_inv_Answer:
  assumes "node_inv rn d"
    and "handleAppendEntriesResponse en peer req resp rn d = Some (retry, rn', d')"
  shows "node_inv rn' d' \<and> moves rn rn'"
proof -
  let ?mi = "i64 (aq_PrevLogIndex req + int (length (aq_Entries req)))"
  let ?rn = "rn\<lparr>rn_matchIndex := gm_put peer ?mi (rn_matchIndex rn), rn_nextIndex := gm_put peer (i64 (?mi + 1)) (rn_nextIndex rn)\<rparr>"
  consider "rn_state rn \<noteq> Leader \<or> ap_Term resp \<noteq> rn_currentTerm rn \<or> ap_Success resp \<and> aq_Entries req = []"
    | "rn_state rn = Leader" "ap_Term resp = rn_currentTerm rn" "ap_Success resp" "aq_Entries req \<noteq> []"
    | "rn_state rn = Leader" "ap_Term resp = rn_currentTerm rn" "\<not> ap_Success resp" by blast
  then show ?thesis
  proof cases
    case 1
    then have "handleAppendEntriesResponse en peer req resp rn d = Some (False, rn, d)"
      by (auto simp: handleAppendEntriesResponse_def)
    then show ?thesis using assms by (simp add: moves_def)
  next
    case 2
    then have "Option.bind (updateCommitIndex ?rn) (\<lambda>rn. Some (False, rn, d)) = Some (retry, rn', d')"
      using assms(2) by (simp add: handleAppendEntriesResponse_def Let_def)
    then have u: "updateCommitIndex ?rn = Some rn'" "d' = d" by (auto split: bind_splits)
    obtain c where c: "rn' = ?rn\<lparr>rn_commitIndex := c\<rparr>" using updateCommitIndex_frame [OF u(1)] by blast
    show ?thesis by (rule node_inv_frame [OF assms(1)]) (simp_all add: c u(2))
  next
    case 3
    show ?thesis
      by (rule node_inv_frame [OF assms(1)])
        (use 3 assms(2) in \<open>auto simp: handleAppendEntriesResponse_def split: if_splits\<close>)
  qed
qed

text \<open>What a restart finds on disk.\<close>

lemma restart_reads:
  assumes "durable rn d" and "rc_NodeID config = rn_id rn" and "oi_mkdirState oi = None" and "oi_readState oi = None"
    and "NewRaftNode oi now r config d = (Inr rn', d')"
  shows "\<exists>ls. NewLogStorage (oi_mkdirLog oi) (oi_metaErr oi) (oi_readLog oi) (rn_id rn) d = Inr ls \<and> d' = d \<and>
    rn' = loadPersistentState (initialNode config now r
      \<lparr>ps_nodeID = rn_id rn, ps_filePath = statePath (rn_id rn), ps_data = vote_of rn\<rparr> ls)"
proof -
  have "NewPersistentState None None (oi_save oi) (rn_id rn) d =
      (Inr \<lparr>ps_nodeID = rn_id rn, ps_filePath = statePath (rn_id rn), ps_data = vote_of rn\<rparr>, d)"
    using assms(1) by (simp add: durable_def NewPersistentState_def ps_load_def statePath_def State_round_trip Let_def)
  then show ?thesis using assms(2-5) by (auto simp: NewRaftNode_def split: sum.splits)
qed

lemma node_inv_Restart:
  assumes "node_inv rn d" and "rc_NodeID config = rn_id rn" and "oi_mkdirState oi = None" and "oi_readState oi = None"
    and "NewRaftNode oi now r config d = (Inr rn', d')"
  shows "node_inv rn' d' \<and> moves rn rn'"
proof -
  have inv: "owns rn" "durable rn d" using assms(1) by (simp_all add: node_inv_def)
  obtain ls where ls: "NewLogStorage (oi_mkdirLog oi) (oi_metaErr oi) (oi_readLog oi) (rn_id rn) d = Inr ls" "d' = d"
    and rn': "rn' = loadPersistentState (initialNode config now r
      \<lparr>ps_nodeID = rn_id rn, ps_filePath = statePath (rn_id rn), ps_data = vote_of rn\<rparr> ls)"
    using restart_reads [OF inv(2) assms(2-5)] by blast
  have "ls_baseDir ls = ls_baseDir (empty_LogStorage (rn_id rn))" "ls_logFile ls = ls_logFile (empty_LogStorage (rn_id rn))"
    using ls(1) by (auto simp: NewLogStorage_def loadLog_def Let_def split: option.splits sum.splits)
  then show ?thesis using inv assms(2) ls(2)
    by (simp add: rn' initialNode_def loadPersistentState_def PS_Load_def node_inv_def moves_def node_simps)
qed

lemma raft_inv_node: "raft_inv s \<longleftrightarrow> node_inv (sys_node s) (sys_disk s)"
  by (simp add: raft_inv_def node_inv_def)

definition step_ok :: "raft_event \<Rightarrow> raft_sys \<Rightarrow> raft_sys \<Rightarrow> bool" where
  "step_ok e s s' = (node_inv (sys_node s') (sys_disk s') \<and> rn_id (sys_node s') = rn_id (sys_node s) \<and>
     rn_currentTerm (sys_node s) \<le> rn_currentTerm (sys_node s') \<and>
     (not_same_term_append e s \<longrightarrow> moves (sys_node s) (sys_node s')))"

lemma step_okI:
  "node_inv (sys_node s') (sys_disk s') \<and> moves (sys_node s) (sys_node s') \<Longrightarrow> step_ok e s s'"
  by (auto simp: step_ok_def moves_def)

lemma raft_step_node:
  assumes "raft_step e s s'" and ok: "raft_ok e s" and inv: "node_inv (sys_node s) (sys_disk s)"
  shows "step_ok e s s'"
  using assms(1)
proof (cases rule: raft_step.cases)
  case (timeout en n d)
  have "node_inv n d \<and> moves (sys_node s) n"
    by (rule node_inv_ElectionTimeout [OF inv _ _ timeout(3)]) (use ok timeout(1) in simp_all)
  then show ?thesis by (intro step_okI) (simp add: timeout(2))
next
  case (startVotes k)
  then show ?thesis using inv by (intro step_okI) (simp add: moves_def)
next
  case (vote i el en peer answer el' n d)
  have "node_inv n d \<and> moves (sys_node s) n"
    by (rule node_inv_collectVote(1) [OF inv _ vote(5)]) (use ok vote(1) in simp)
  then show ?thesis by (intro step_okI) (simp add: vote(2))
next
  case (voteRequest en req resp n d)
  have "node_inv n d \<and> moves (sys_node s) n"
    by (rule node_inv_VoteRequest [OF inv _ _ _ voteRequest(3)]) (use ok voteRequest(1) in simp_all)
  then show ?thesis by (intro step_okI) (simp add: voteRequest(2))
next
  case (append en req aresp n d)
  then have "env_ok en" "int64 (aq_Term req)" using ok by simp_all
  note node_inv_AppendEntries [OF inv this append(3)]
  then show ?thesis by (simp add: step_ok_def append(1,2))
next
  case (voteResponse n)
  have "\<exists>ch. n = (sys_node s)\<lparr>rn_voteResponseCh := ch\<rparr>"
    using voteResponse(3) by (auto simp: receiveVoteResponse_def handleVoteResponse_def split: list.splits if_splits)
  then have "node_inv n (sys_disk s) \<and> moves (sys_node s) n" by (elim exE) (rule node_inv_frame [OF inv], simp_all)
  then show ?thesis by (intro step_okI) (simp add: voteResponse(2))
next
  case heartbeat
  have "node_inv (snd (sendHeartbeats (sys_node s))) (sys_disk s) \<and> moves (sys_node s) (snd (sendHeartbeats (sys_node s)))"
    by (rule node_inv_frame [OF inv]) (simp_all add: sendHeartbeats_def resetHeartbeatTimer_def)
  then show ?thesis by (intro step_okI) (simp add: heartbeat(2))
next
  case (propose en ty data res n d)
  from node_inv_AppendEntry [OF inv propose(3)] show ?thesis by (intro step_okI) (simp add: propose(2))
next
  case (replicate peer req)
  then show ?thesis using inv by (intro step_okI) (simp add: moves_def)
next
  case (answer i peer req en success retry n d)
  from node_inv_Answer [OF inv answer(5)] show ?thesis by (intro step_okI) (simp add: answer(2))
next
  case (applied now n)
  have "node_inv n (sys_disk s) \<and> moves (sys_node s) n"
    by (rule node_inv_frame [OF inv]) (use applied(4) in \<open>auto simp: applyNext_def Let_def split: if_splits\<close>)
  then show ?thesis by (intro step_okI) (simp add: applied(2))
next
  case (addPeer now i address raftPort grpcPort)
  have "node_inv (AddPeer now i address raftPort grpcPort (sys_node s)) (sys_disk s) \<and>
      moves (sys_node s) (AddPeer now i address raftPort grpcPort (sys_node s))"
    by (rule node_inv_frame [OF inv]) (simp_all add: AddPeer_def Let_def)
  then show ?thesis by (intro step_okI) (simp add: addPeer(2))
next
  case (removePeer i)
  have "node_inv (RemovePeer i (sys_node s)) (sys_disk s) \<and> moves (sys_node s) (RemovePeer i (sys_node s))"
    by (rule node_inv_frame [OF inv]) (simp_all add: RemovePeer_def)
  then show ?thesis by (intro step_okI) (simp add: removePeer(2))
next
  case (restart config oi now r n d)
  have "node_inv n d \<and> moves (sys_node s) n"
    by (rule node_inv_Restart [OF inv restart(3) _ _ restart(4)]) (use ok restart(1) in simp_all)
  then show ?thesis by (intro step_okI) (simp add: restart(2))
qed

section \<open>Runs\<close>

interpretation raft_terms: step_system raft_step raft_ok raft_inv term_leq
proof
  fix e s s' assume "raft_step e s s'" "raft_ok e s" "raft_inv s"
  from raft_step_node [OF this(1,2)] this(3) show "raft_inv s'" "term_leq s s'"
    by (simp_all add: raft_inv_node step_ok_def term_leq_def)
qed (auto simp: term_leq_def)

interpretation raft_votes: step_system raft_step "\<lambda>e s. raft_ok e s \<and> not_same_term_append e s" raft_inv vote_leq
proof
  fix e s s' assume "raft_step e s s'" "raft_ok e s \<and> not_same_term_append e s" "raft_inv s"
  from raft_step_node [OF this(1)] this(2,3) show "raft_inv s'" "vote_leq s s'"
    by (auto simp: raft_inv_node step_ok_def vote_leq_def moves_def)
qed (auto simp: vote_leq_def)

text \<open>A node without peers, no election in progress: it is not the leader.\<close>

definition lone :: "raft_sys \<Rightarrow> bool" where
  "lone s = (rn_peers (sys_node s) = [] \<and> sys_elections s = [] \<and> rn_state (sys_node s) \<noteq> Leader)"

fun adds_no_peer :: "raft_event \<Rightarrow> raft_sys \<Rightarrow> bool" where
  "adds_no_peer (EvAddPeer now i address raftPort grpcPort) s = False"
| "adds_no_peer _ s = True"

lemma save_fields:
  "rn_peers (fst (savePersistentState io rn d)) = rn_peers rn"
  "rn_state (fst (savePersistentState io rn d)) = rn_state rn"
  by (simp_all add: savePersistentState_eq Let_def)

lemma handleAppendEntries_peers:
  "handleAppendEntries en req rn d = Some (resp, rn', d') \<Longrightarrow> rn_peers rn' = rn_peers rn \<and> (rn_state rn' = rn_state rn \<or> rn_state rn' = Follower)"
  by (auto simp: handleAppendEntries_def storeEntries_def advanceCommit_def resetElectionTimer_def savePersistentState_eq Let_def
    split: if_splits bind_splits prod.splits)

lemma handleVoteRequest_peers:
  "handleVoteRequest en req rn d = (resp, rn', d') \<Longrightarrow> rn_peers rn' = rn_peers rn \<and> (rn_state rn' = rn_state rn \<or> rn_state rn' = Follower)"
  by (auto simp: handleVoteRequest_def resetElectionTimer_def savePersistentState_eq Let_def split: if_splits prod.splits)

lemma lone_step:
  assumes "raft_step e s s'" and "adds_no_peer e s" and "lone s"
  shows "lone s'"
  using assms(1)
proof (cases rule: raft_step.cases)
  case (timeout en n d)
  then show ?thesis using assms(3)
    by (auto simp: lone_def handleElectionTimeout_def startElection_def savePersistentState_eq resetElectionTimer_def Let_def)
next
  case (append en req aresp n d)
  then show ?thesis using assms(3) handleAppendEntries_peers [OF append(3)] by (auto simp: lone_def)
next
  case (voteRequest en req resp n d)
  then show ?thesis using assms(3) handleVoteRequest_peers [OF voteRequest(3)] by (auto simp: lone_def)
next
  case (answer i peer req en success retry n d)
  then show ?thesis using assms(3) by (auto simp: lone_def handleAppendEntriesResponse_def)
next
  case (applied now n)
  then show ?thesis using assms(3) by (auto simp: lone_def applyNext_def Let_def split: if_splits)
next
  case (voteResponse n)
  then show ?thesis using assms(3)
    by (auto simp: lone_def receiveVoteResponse_def handleVoteResponse_def split: list.splits if_splits)
next
  case (restart config oi now r n d)
  then show ?thesis
    by (auto simp: lone_def NewRaftNode_def initialNode_def loadPersistentState_def split: prod.splits sum.splits)
qed (use assms in \<open>auto simp: lone_def requestVotes_def sendHeartbeats_def AppendEntry_def RemovePeer_def\<close>)

interpretation raft_lone: step_system raft_step adds_no_peer lone "\<lambda>s s'. True"
  by unfold_locales (auto intro: lone_step)

section \<open>Properties\<close>

text \<open>
  C3. The term of a node never decreases, over any run of timeouts, requests, votes, proposals,
  applications, membership changes, crashes and restarts, as long as saving the term and vote
  succeeds. After any such run a restart from disk finds exactly the current term and vote.
\<close>

theorem term_and_vote_durable:
  assumes "raft_inv s" and "runs raft_step raft_ok s es s'"
    and "raft_step (EvRestart oi now r config) s' s''" and "oi_mkdirState oi = None" and "oi_readState oi = None"
  shows "rn_currentTerm (sys_node s) \<le> rn_currentTerm (sys_node s') \<and>
    rn_currentTerm (sys_node s'') = rn_currentTerm (sys_node s') \<and> rn_votedFor (sys_node s'') = rn_votedFor (sys_node s')"
proof -
  have inv: "raft_inv s'" by (rule raft_terms.runs_inv [OF assms(2,1)])
  have le: "rn_currentTerm (sys_node s) \<le> rn_currentTerm (sys_node s')"
    using raft_terms.runs_leq [OF assms(2,1)] by (simp add: term_leq_def)
  obtain n d where n: "rc_NodeID config = rn_id (sys_node s')" "NewRaftNode oi now r config (sys_disk s') = (Inr n, d)"
    "sys_node s'' = n" using assms(3) by (cases rule: raft_step.cases) auto
  have "durable (sys_node s') (sys_disk s')" using inv by (simp add: raft_inv_def)
  from restart_reads [OF this n(1) assms(4,5) n(2)]
  have "rn_currentTerm n = rn_currentTerm (sys_node s') \<and> rn_votedFor n = rn_votedFor (sys_node s')"
    by (auto simp: loadPersistentState_def initialNode_def PS_Load_def vote_of_def)
  then show ?thesis using le n(3) by simp
qed

definition sampleDisk :: "string \<Rightarrow> disk" where
  "sampleDisk i = [statePath i \<mapsto> marshal_State initial_state]"

definition sampleSys :: "string \<Rightarrow> string list \<Rightarrow> raft_sys" where
  "sampleSys i peers = \<lparr>sys_node = sampleNode i peers [], sys_disk = sampleDisk i, sys_starting = 0, sys_elections = [], sys_requests = []\<rparr>"

lemma sample_inv:
  "utf8_valid i \<Longrightarrow> i \<noteq> [] \<Longrightarrow> raft_inv (sampleSys i [])"
  by (simp add: raft_inv_def sampleSys_def sampleDisk_def sample_defs node_simps State_ok_def initial_state_def int64_def statePath_def)

definition sampleOpen :: open_io where
  "sampleOpen = \<lparr>oi_mkdirState = None, oi_readState = None, oi_save = io_succeeds, oi_mkdirLog = None, oi_metaErr = False, oi_readLog = None\<rparr>"

definition okEnv :: raft_env where
  "okEnv = \<lparr>en_now = 0, en_rand = 3, en_save = (\<lambda>i. io_succeeds), en_log = io_ok\<rparr>"

lemma okEnv_ok [simp]: "env_ok okEnv"
  by (simp add: env_ok_def okEnv_def)

definition candidateSys :: raft_sys where
  "candidateSys = (case handleElectionTimeout okEnv (sys_node (sampleSys ''a'' [])) (sys_disk (sampleSys ''a'' [])) of
     (n, d) \<Rightarrow> (sampleSys ''a'' [])\<lparr>sys_node := n, sys_disk := d, sys_starting := 1\<rparr>)"

lemma sample_paths:
  "statePath ''a'' = ''data/raft/a/state.json''" "ls_baseDir (empty_LogStorage ''a'') = ''data/raft/a/log''"
  "ls_logFile (empty_LogStorage ''a'') = ''data/raft/a/log/entries.json''"
  "metadataFile (empty_LogStorage ''a'') = ''data/raft/a/log/metadata.json''"
  by code_simp+

lemma candidateSys_fields:
  "rn_currentTerm (sys_node candidateSys) = 1" "rn_votedFor (sys_node candidateSys) = ''a''" "rn_id (sys_node candidateSys) = ''a''"
  "NewLogStorage None False None ''a'' (sys_disk candidateSys) = Inr (empty_LogStorage ''a'')"
  by (simp_all add: candidateSys_def handleElectionTimeout_def startElection_def okEnv_def save_succeeds resetElectionTimer_def
      sampleSys_def sampleDisk_def sample_defs i64_def Let_def NewLogStorage_def loadLog_def sample_paths statePath_def [symmetric])

theorem term_and_vote_durable_witness:
  "\<exists>s' s''. runs raft_step raft_ok (sampleSys ''a'' []) [EvTimeout okEnv] s' \<and>
     raft_step (EvRestart sampleOpen 9 1 (sampleConfig ''a'')) s' s'' \<and>
     rn_currentTerm (sys_node s'') = 1 \<and> rn_votedFor (sys_node s'') = ''a''"
proof -
  let ?s = "sampleSys ''a'' []"
  have inv: "raft_inv ?s" by (rule sample_inv) (simp_all add: utf8_valid_ascii ascii_def)
  have nl: "rn_state (sys_node ?s) \<noteq> Leader" "sys_starting ?s = 0" "rn_currentTerm (sys_node ?s) = 0"
    by (simp_all add: sampleSys_def sample_defs)
  have run: "runs raft_step raft_ok ?s [EvTimeout okEnv] candidateSys"
    using raft_step.timeout [OF prod.collapse [symmetric], of okEnv ?s] nl
    by (simp add: runs_Cons_iff candidateSys_def case_prod_unfold)
  have dur: "durable (sys_node candidateSys) (sys_disk candidateSys)"
    using raft_terms.runs_inv [OF run inv] by (simp add: raft_inv_def)
  then have "NewPersistentState None None io_succeeds ''a'' (sys_disk candidateSys) =
      (Inr \<lparr>ps_nodeID = ''a'', ps_filePath = statePath ''a'', ps_data = vote_of (sys_node candidateSys)\<rparr>, sys_disk candidateSys)"
    using candidateSys_fields(3)
    by (simp add: durable_def NewPersistentState_def ps_load_def statePath_def State_round_trip Let_def)
  then obtain n where "NewRaftNode sampleOpen 9 1 (sampleConfig ''a'') (sys_disk candidateSys) = (Inr n, sys_disk candidateSys)"
    using candidateSys_fields(4) by (simp add: NewRaftNode_def sampleOpen_def sampleConfig_def)
  from raft_step.restart [OF _ this] candidateSys_fields(3) obtain s'' where
    re: "raft_step (EvRestart sampleOpen 9 1 (sampleConfig ''a'')) candidateSys s''" by (auto simp: sampleConfig_def)
  from term_and_vote_durable [OF inv run re] run re candidateSys_fields show ?thesis
    by (auto simp: sampleOpen_def)
qed

text \<open>
  C4. At most one vote per term: once a node has granted its vote to a candidate in a term, it
  grants no other candidate a vote in that term, over any run that contains restarts but no
  append request of that same term.
\<close>

theorem one_vote_per_term:
  assumes "raft_inv s" and "raft_ok (EvVoteRequest en req) s"
    and "handleVoteRequest en req (sys_node s) (sys_disk s) = (resp, n, d)" and "vp_VoteGranted resp"
    and "runs raft_step (\<lambda>e s. raft_ok e s \<and> not_same_term_append e s) (s\<lparr>sys_node := n, sys_disk := d\<rparr>) es s'"
    and "handleVoteRequest en' req' (sys_node s') (sys_disk s') = (resp', n', d')" and "vp_VoteGranted resp'"
    and "vq_Term req' = vq_Term req" and "vq_CandidateID req \<noteq> []"
  shows "vq_CandidateID req' = vq_CandidateID req"
proof -
  let ?s1 = "s\<lparr>sys_node := n, sys_disk := d\<rparr>"
  have inv: "raft_inv ?s1" using raft_terms.step_inv [OF raft_step.voteRequest [OF assms(3)] assms(2,1)] .
  have granted: "rn_currentTerm n = vq_Term req" "rn_votedFor n = vq_CandidateID req"
    using assms(3,4) by (auto simp: handleVoteRequest_def savePersistentState_eq resetElectionTimer_def Let_def split: if_splits)
  have "rn_currentTerm (sys_node s') \<le> vq_Term req'"
    "rn_currentTerm (sys_node s') = vq_Term req' \<Longrightarrow> rn_votedFor (sys_node s') \<in> {[], vq_CandidateID req'}"
    using assms(6,7) by (auto simp: handleVoteRequest_def Let_def split: if_splits prod.splits)
  moreover have "vote_leq ?s1 s'" by (rule raft_votes.runs_leq [OF assms(5) inv])
  ultimately show ?thesis using granted assms(8,9) by (auto simp: vote_leq_def)
qed

definition voteReq :: "string \<Rightarrow> VoteRequest" where
  "voteReq c = \<lparr>vq_Term = 1, vq_CandidateID = c, vq_LastLogIndex = 0, vq_LastLogTerm = 0\<rparr>"

definition emptyAppend :: AppendRequest where
  "emptyAppend = \<lparr>aq_Term = 1, aq_LeaderID = ''b'', aq_PrevLogIndex = 0, aq_PrevLogTerm = 0, aq_Entries = [], aq_LeaderCommit = 0\<rparr>"

text \<open>The node after a sequence of vote requests and empty append requests in term 1, with the answers it gave.\<close>

lemma vote_evaluation:
  assumes "rn_currentTerm rn \<le> 1" and "rn_log rn = []" and "rn_currentTerm rn = 1 \<Longrightarrow> rn_votedFor rn \<in> {[], c}"
  shows "\<exists>rn' d'. handleVoteRequest okEnv (voteReq c) rn d = (\<lparr>vp_Term = 1, vp_VoteGranted = True, vp_NodeID = rn_id rn\<rparr>, rn', d') \<and>
    rn_currentTerm rn' = 1 \<and> rn_votedFor rn' = c \<and> rn_log rn' = [] \<and> rn_id rn' = rn_id rn"
  using assms by (auto simp: handleVoteRequest_def voteReq_def isLogUpToDate_def getLastLogTerm_def getLastLogIndex_def okEnv_def
    save_succeeds resetElectionTimer_def Let_def)

lemma append_evaluation:
  assumes "rn_currentTerm rn \<le> 1" and "rn_log rn = []" and "rn_commitIndex rn = 0"
  shows "\<exists>resp rn' d'. handleAppendEntries okEnv emptyAppend rn d = Some (resp, rn', d') \<and>
    rn_currentTerm rn' = 1 \<and> rn_votedFor rn' = [] \<and> rn_log rn' = [] \<and> rn_id rn' = rn_id rn"
  using assms by (auto simp: handleAppendEntries_def emptyAppend_def prevMatches_def storeEntries_def advanceCommit_def okEnv_def
    save_succeeds resetElectionTimer_def Let_def)

theorem one_vote_per_term_witness:
  "\<exists>n d n' d'. handleVoteRequest okEnv (voteReq ''b'') (sampleNode ''a'' [] []) (sampleDisk ''a'') =
       (\<lparr>vp_Term = 1, vp_VoteGranted = True, vp_NodeID = ''a''\<rparr>, n, d) \<and>
     handleVoteRequest okEnv (voteReq ''b'') n d = (\<lparr>vp_Term = 1, vp_VoteGranted = True, vp_NodeID = ''a''\<rparr>, n', d') \<and>
     vq_CandidateID (voteReq ''b'') = vq_CandidateID (voteReq ''b'')"
proof -
  let ?s = "sampleSys ''a'' []"
  have inv: "raft_inv ?s" by (rule sample_inv) (simp_all add: utf8_valid_ascii ascii_def)
  have f: "rn_currentTerm (sys_node ?s) = 0" "rn_log (sys_node ?s) = []" "rn_id (sys_node ?s) = ''a''"
    by (simp_all add: sampleSys_def sample_defs)
  obtain n d where 1: "handleVoteRequest okEnv (voteReq ''b'') (sys_node ?s) (sys_disk ?s) =
      (\<lparr>vp_Term = 1, vp_VoteGranted = True, vp_NodeID = ''a''\<rparr>, n, d)"
    and n: "rn_currentTerm n = 1" "rn_votedFor n = ''b''" "rn_log n = []" "rn_id n = ''a''"
    using vote_evaluation [of "sys_node ?s" "''b''" "sys_disk ?s"] f by auto
  obtain n' d' where 2: "handleVoteRequest okEnv (voteReq ''b'') n d = (\<lparr>vp_Term = 1, vp_VoteGranted = True, vp_NodeID = ''a''\<rparr>, n', d')"
    using vote_evaluation [of n "''b''" d] n by auto
  have ok: "raft_ok (EvVoteRequest okEnv (voteReq ''b'')) ?s" by (simp add: voteReq_def int64_def utf8_valid_ascii ascii_def)
  let ?s1 = "?s\<lparr>sys_node := n, sys_disk := d\<rparr>"
  have 3: "handleVoteRequest okEnv (voteReq ''b'') (sys_node ?s1) (sys_disk ?s1) =
      (\<lparr>vp_Term = 1, vp_VoteGranted = True, vp_NodeID = ''a''\<rparr>, n', d')" using 2 by simp
  have "vq_CandidateID (voteReq ''b'') = vq_CandidateID (voteReq ''b'')"
    by (rule one_vote_per_term [OF inv ok 1 _ runs_Nil 3]) (simp_all add: voteReq_def)
  then show ?thesis using 1 2 by (auto simp: sampleSys_def)
qed


text \<open>
  A node without peers never becomes leader: \<^verbatim>\<open>requestVotes\<close> compares its own vote with
  the majority only when a response arrives, and there is nobody to respond. This holds over every
  run that adds no peer, whatever happens.
\<close>

theorem lone_node_never_leads:
  assumes "rn_peers (sys_node s) = []" and "sys_elections s = []" and "rn_state (sys_node s) \<noteq> Leader"
    and "runs raft_step adds_no_peer s es s'"
  shows "rn_state (sys_node s') \<noteq> Leader"
  using raft_lone.runs_inv [OF assms(4)] assms(1-3) by (simp add: lone_def)

theorem lone_node_never_leads_witness:
  "\<exists>s'. runs raft_step adds_no_peer (sampleSys ''a'' []) [EvTimeout okEnv] s' \<and> rn_state (sys_node s') \<noteq> Leader"
proof -
  let ?s = "sampleSys ''a'' []"
  obtain s' where run: "runs raft_step adds_no_peer ?s [EvTimeout okEnv] s'"
    using raft_step.timeout [OF prod.collapse [symmetric], of okEnv ?s] by (auto simp: runs_Cons_iff)
  have "rn_peers (sys_node ?s) = []" "sys_elections ?s = []" "rn_state (sys_node ?s) \<noteq> Leader"
    by (simp_all add: sampleSys_def sample_defs)
  from lone_node_never_leads [OF this run] run show ?thesis by blast
qed

definition electionOf :: "string \<Rightarrow> RaftNode option" where
  "electionOf i =
     (let (n, d) = handleElectionTimeout okEnv (sampleNode i (filter (\<lambda>p. p \<noteq> i) [''a'', ''b'', ''c'']) []) Map.empty
      in case requestVotes n of
           None \<Rightarrow> None
         | Some el \<Rightarrow> (let (el', n, d) = collectVote okEnv (Some (simulatedVote True ''c'' el)) el n d in Some n))"


end
