(* ===== verification/Cluster_Manager.thy ===== *)
theory Cluster_Manager
  imports Raft_Steps
begin

text \<open>
  The in-process cluster of \<^verbatim>\<open>src/internal/consensus/cluster.go\<close>: a manager that owns a set of
  Raft nodes on one disk, connects them with each other, and answers the cluster service. The
  outcomes of opening a node's files and of listening on its port are arguments. A panic (closing
  a closed channel, a negative capacity) is the value \<^term>\<open>None\<close>.
\<close>

section \<open>Data\<close>

record NodeConfig =
  nc_NodeID :: string
  nc_Address :: string
  nc_RaftPort :: int
  nc_GrpcPort :: int

record ClusterConfig =
  cc_Nodes :: "NodeConfig list"
  cc_ElectionTimeout :: duration
  cc_HeartbeatTimeout :: duration
  cc_DataDir :: string

record ClusterManager =
  cm_nodes :: "(string, RaftNode) gomap"
  cm_config :: ClusterConfig
  cm_grpcServers :: "(string, unit) gomap"
  cm_listeners :: "(string, unit) gomap"
  cm_shutdown :: bool

record ClusterNodeStatus =
  cns_NodeID :: string
  cns_State :: string
  cns_Term :: int
  cns_IsLeader :: bool
  cns_Peers :: nat
  cns_LastSeen :: gtime

record create_io =
  ci_open :: open_io
  ci_now :: gtime
  ci_rand :: nat
  ci_listen :: "string option"

section \<open>Creating and connecting nodes\<close>

definition NewClusterManager :: "ClusterConfig \<Rightarrow> ClusterManager" where
  "NewClusterManager config = \<lparr>cm_nodes = [], cm_config = config, cm_grpcServers = [], cm_listeners = [], cm_shutdown = False\<rparr>"

definition startGRPCServer :: "string option \<Rightarrow> NodeConfig \<Rightarrow> ClusterManager \<Rightarrow> string option \<times> ClusterManager" where
  "startGRPCServer listenErr nodeConfig cm =
     (case listenErr of
        Some err \<Rightarrow> (Some (''failed to listen on '' @ nc_Address nodeConfig @ '':'' @ dec_int (nc_GrpcPort nodeConfig) @ '': '' @ err), cm)
      | None \<Rightarrow> (None, cm\<lparr>cm_listeners := gm_put (nc_NodeID nodeConfig) () (cm_listeners cm),
                       cm_grpcServers := gm_put (nc_NodeID nodeConfig) () (cm_grpcServers cm)\<rparr>))"

definition nodeConfigOf :: "NodeConfig \<Rightarrow> ClusterConfig \<Rightarrow> RaftConfig" where
  "nodeConfigOf nodeConfig config =
     \<lparr>rc_NodeID = nc_NodeID nodeConfig, rc_Address = nc_Address nodeConfig, rc_RaftPort = nc_RaftPort nodeConfig,
      rc_GrpcPort = nc_GrpcPort nodeConfig, rc_ElectionTimeout = cc_ElectionTimeout config,
      rc_HeartbeatTimeout = cc_HeartbeatTimeout config, rc_StateMachine = Some NewKVStateMachine\<rparr>"

definition createNode :: "create_io \<Rightarrow> NodeConfig \<Rightarrow> ClusterManager \<times> disk \<Rightarrow> string option \<times> ClusterManager \<times> disk" where
  "createNode io nodeConfig = (\<lambda>(cm, d).
     case NewRaftNode (ci_open io) (ci_now io) (ci_rand io) (nodeConfigOf nodeConfig (cm_config cm)) d of
       (Inl err, d) \<Rightarrow> (Some (''failed to create Raft node: '' @ err), cm, d)
     | (Inr node, d) \<Rightarrow>
         (case startGRPCServer (ci_listen io) nodeConfig (cm\<lparr>cm_nodes := gm_put (nc_NodeID nodeConfig) node (cm_nodes cm)\<rparr>) of
            (Some err, cm) \<Rightarrow> (Some (''failed to start gRPC server: '' @ err), cm, d)
          | (None, cm) \<Rightarrow> (None, cm, d)))"

fun createNodes :: "(nat \<Rightarrow> create_io) \<Rightarrow> NodeConfig list \<Rightarrow> ClusterManager \<times> disk \<Rightarrow> string option \<times> ClusterManager \<times> disk" where
  "createNodes ios [] s = (None, s)"
| "createNodes ios (nc # ncs) s =
     (case createNode (ios 0) nc s of
        (Some err, s) \<Rightarrow> (Some (''failed to create node '' @ nc_NodeID nc @ '': '' @ err), s)
      | (None, s) \<Rightarrow> createNodes (\<lambda>i. ios (Suc i)) ncs s)"

text \<open>A node learns every configured peer but itself.\<close>

definition addConfigPeer :: "gtime \<Rightarrow> NodeConfig \<Rightarrow> RaftNode \<Rightarrow> RaftNode" where
  "addConfigPeer now nc = AddPeer now (nc_NodeID nc) (nc_Address nc) (nc_RaftPort nc) (nc_GrpcPort nc)"

definition connectTo :: "gtime \<Rightarrow> string \<Rightarrow> NodeConfig list \<Rightarrow> RaftNode \<Rightarrow> RaftNode" where
  "connectTo now i peers = fold (\<lambda>nc rn. if i \<noteq> nc_NodeID nc then addConfigPeer now nc rn else rn) peers"

definition connectAll :: "gtime \<Rightarrow> NodeConfig list \<Rightarrow> (string, RaftNode) gomap \<Rightarrow> (string, RaftNode) gomap" where
  "connectAll now configs nodes =
     fold (\<lambda>nc m. case gm_get m (nc_NodeID nc) of
        None \<Rightarrow> m
      | Some node \<Rightarrow> gm_put (nc_NodeID nc) (connectTo now (nc_NodeID nc) configs node) m) configs nodes"

definition mapNodes :: "(string \<Rightarrow> RaftNode \<Rightarrow> RaftNode) \<Rightarrow> (string, RaftNode) gomap \<Rightarrow> (string, RaftNode) gomap" where
  "mapNodes f m = map (\<lambda>(i, n). (i, f i n)) m"

definition Bootstrap :: "(nat \<Rightarrow> create_io) \<Rightarrow> gtime \<Rightarrow> (string \<Rightarrow> nat) \<Rightarrow> ClusterManager \<times> disk \<Rightarrow>
    string option \<times> ClusterManager \<times> disk" where
  "Bootstrap ios now draws s =
     (case createNodes ios (cc_Nodes (cm_config (fst s))) s of
        (Some err, s) \<Rightarrow> (Some err, s)
      | (None, cm, d) \<Rightarrow>
          (None, cm\<lparr>cm_nodes := mapNodes (\<lambda>i. RN_Start (draws i)) (connectAll now (cc_Nodes (cm_config cm)) (cm_nodes cm))\<rparr>, d))"

definition AddNode :: "create_io \<Rightarrow> gtime \<Rightarrow> nat \<Rightarrow> NodeConfig \<Rightarrow> ClusterManager \<times> disk \<Rightarrow> string option \<times> ClusterManager \<times> disk" where
  "AddNode io now draw nodeConfig s =
     (let i = nc_NodeID nodeConfig in
      if gm_get (cm_nodes (fst s)) i \<noteq> None then (Some (''node '' @ i @ '' already exists in cluster''), s)
      else case createNode io nodeConfig s of
        (Some err, s) \<Rightarrow> (Some (''failed to create new node: '' @ err), s)
      | (None, cm, d) \<Rightarrow>
          (let config = cm_config cm;
               newNode = connectTo now i (cc_Nodes config) (the (gm_get (cm_nodes cm) i));
               nodes = mapNodes (\<lambda>j n. if rn_id n \<noteq> i then addConfigPeer now nodeConfig n else n) (gm_put i newNode (cm_nodes cm))
           in (None, cm\<lparr>cm_nodes := mapNodes (\<lambda>j n. if j = i then RN_Start draw n else n) nodes,
                       cm_config := config\<lparr>cc_Nodes := cc_Nodes config @ [nodeConfig]\<rparr>\<rparr>, d)))"

definition RemoveNode :: "string \<Rightarrow> ClusterManager \<Rightarrow> (string option \<times> ClusterManager) option" where
  "RemoveNode i cm =
     (case gm_get (cm_nodes cm) i of
        None \<Rightarrow> Some (Some (''node '' @ i @ '' not found in cluster''), cm)
      | Some node \<Rightarrow>
          (case RN_Stop node of
             None \<Rightarrow> None
           | Some node \<Rightarrow>
               if cc_Nodes (cm_config cm) = [] then None
               else Some (None, cm\<lparr>cm_nodes := gm_del i (mapNodes (\<lambda>j n. if rn_id n \<noteq> i then RemovePeer i n else n) (cm_nodes cm)),
                      cm_config := (cm_config cm)\<lparr>cc_Nodes := filter (\<lambda>nc. nc_NodeID nc \<noteq> i) (cc_Nodes (cm_config cm))\<rparr>,
                      cm_grpcServers := gm_del i (cm_grpcServers cm), cm_listeners := gm_del i (cm_listeners cm)\<rparr>)))"

section \<open>Queries\<close>

definition CM_GetLeader :: "ClusterManager \<Rightarrow> string" where
  "CM_GetLeader cm =
     (case find (\<lambda>(i, n). snd (snd (RN_GetState n))) (cm_nodes cm) of Some (i, n) \<Rightarrow> rn_id n | None \<Rightarrow> [])"

definition CM_GetClusterStatus :: "gtime \<Rightarrow> ClusterManager \<Rightarrow> (string, ClusterNodeStatus) gomap" where
  "CM_GetClusterStatus now cm =
     fold (\<lambda>(i, n) m. case RN_GetState n of (state, t, isLeader) \<Rightarrow>
       gm_put i \<lparr>cns_NodeID = i, cns_State = RaftState_String state, cns_Term = t, cns_IsLeader = isLeader,
                 cns_Peers = length (rn_peers n), cns_LastSeen = now\<rparr> m) (cm_nodes cm) []"

definition CM_Stop :: "ClusterManager \<Rightarrow> ClusterManager option" where
  "CM_Stop cm =
     (if cm_shutdown cm \<or> list_ex (\<lambda>(i, n). rn_shutdown n) (cm_nodes cm) then None
      else Some (cm\<lparr>cm_shutdown := True, cm_nodes := mapNodes (\<lambda>i n. n\<lparr>rn_shutdown := True\<rparr>) (cm_nodes cm)\<rparr>))"

text \<open>
  Waiting for a leader polls every 100 milliseconds until the deadline. Each round reads the
  clock and the leader of that moment, \<open>obs i\<close>.
\<close>

partial_function (option) waitLoop :: "gtime \<Rightarrow> (nat \<Rightarrow> gtime \<times> string) \<Rightarrow> string option option" where
  "waitLoop deadline obs =
     (if fst (obs 0) < deadline
      then (if snd (obs 0) \<noteq> [] then Some (Some (snd (obs 0))) else waitLoop deadline (\<lambda>i. obs (Suc i)))
      else Some None)"

definition WaitForLeader :: "gtime \<Rightarrow> duration \<Rightarrow> (nat \<Rightarrow> gtime \<times> string) \<Rightarrow> string option option" where
  "WaitForLeader now timeout obs = waitLoop (now + timeout) obs"

definition CM_GetNode :: "string \<Rightarrow> ClusterManager \<Rightarrow> RaftNode option" where
  "CM_GetNode i cm = gm_get (cm_nodes cm) i"

definition CM_GetNodes :: "ClusterManager \<Rightarrow> (string, RaftNode) gomap" where
  "CM_GetNodes cm = copyMap (cm_nodes cm)"

definition IsHealthy :: "ClusterManager \<Rightarrow> bool" where
  "IsHealthy cm =
     (let leader = fold (\<lambda>(i, n) l. if snd (snd (RN_GetState n)) then rn_id n else l) (cm_nodes cm) [];
          runningNodes = length (cm_nodes cm);
          majorityNodes = length (cc_Nodes (cm_config cm)) div 2 + 1
      in leader \<noteq> [] \<and> majorityNodes \<le> runningNodes)"

text \<open>The partition is created in the first node the iteration visits, and in no other.\<close>

definition CM_SimulatePartition :: "string list \<Rightarrow> string list \<Rightarrow> ClusterManager \<Rightarrow> string option \<times> ClusterManager" where
  "CM_SimulatePartition partition1 partition2 cm =
     (case cm_nodes cm of
        [] \<Rightarrow> (Some ''no partition tolerance manager available'', cm)
      | (i, n) # rest \<Rightarrow>
          (None, cm\<lparr>cm_nodes := (i, n\<lparr>rn_partitionTolerance :=
             CreatePartition ''partition2'' partition2 (CreatePartition ''partition1'' partition1 (rn_partitionTolerance n))\<rparr>) # rest\<rparr>))"

definition HealPartition :: "ClusterManager \<Rightarrow> string option \<times> ClusterManager" where
  "HealPartition cm =
     (case cm_nodes cm of
        [] \<Rightarrow> (Some ''no partition tolerance manager available'', cm)
      | (i, n) # rest \<Rightarrow>
          (None, cm\<lparr>cm_nodes := (i, n\<lparr>rn_partitionTolerance :=
             fold (\<lambda>(p, x). RemovePartition p) (GetPartitionInfo (rn_partitionTolerance n)) (rn_partitionTolerance n)\<rparr>) # rest\<rparr>))"

section \<open>The cluster service\<close>

text \<open>The handlers of \<^verbatim>\<open>ClusterService\<close>: joining and leaving act on the manager, the others answer with fixed values.\<close>

record JoinResponse =
  jr_Success :: bool
  jr_Error :: string
  jr_LeaderId :: string

record NodeInfo =
  ni_NodeId :: string
  ni_State :: string
  ni_Role :: string

record ClusterStatusResponse =
  csr_LeaderId :: string
  csr_TotalNodes :: nat
  csr_ActiveNodes :: nat
  csr_Nodes :: "NodeInfo list"
  csr_Status :: string
  csr_ConsensusRatio :: rat

definition CS_RequestVote :: "VoteRequest \<Rightarrow> int \<times> bool" where
  "CS_RequestVote req = (vq_Term req, True)"

definition CS_AppendEntries :: "AppendRequest \<Rightarrow> int \<times> bool \<times> int" where
  "CS_AppendEntries req = (aq_Term req, True, i64 (aq_PrevLogIndex req + int (length (aq_Entries req))))"

definition CS_JoinCluster :: "create_io \<Rightarrow> gtime \<Rightarrow> nat \<Rightarrow> NodeConfig \<Rightarrow> ClusterManager \<times> disk \<Rightarrow> JoinResponse \<times> ClusterManager \<times> disk" where
  "CS_JoinCluster io now draw nodeConfig s =
     (case AddNode io now draw nodeConfig s of
        (Some err, s) \<Rightarrow> (\<lparr>jr_Success = False, jr_Error = ''Failed to join cluster: '' @ err, jr_LeaderId = []\<rparr>, s)
      | (None, s) \<Rightarrow> (\<lparr>jr_Success = True, jr_Error = [], jr_LeaderId = CM_GetLeader (fst s)\<rparr>, s))"

definition CS_LeaveCluster :: "string \<Rightarrow> ClusterManager \<Rightarrow> ((bool \<times> string) \<times> ClusterManager) option" where
  "CS_LeaveCluster i cm =
     map_option (\<lambda>(err, cm). ((err = None, case err of None \<Rightarrow> [] | Some e \<Rightarrow> ''Failed to leave cluster: '' @ e), cm)) (RemoveNode i cm)"

definition nodeInfos :: "gtime \<Rightarrow> ClusterManager \<Rightarrow> NodeInfo list" where
  "nodeInfos now cm = map (\<lambda>(i, st). \<lparr>ni_NodeId = cns_NodeID st, ni_State = cns_State st, ni_Role = cns_State st\<rparr>) (CM_GetClusterStatus now cm)"

definition CS_GetClusterStatus :: "gtime \<Rightarrow> ClusterManager \<Rightarrow> ClusterStatusResponse" where
  "CS_GetClusterStatus now cm =
     (let nodes = nodeInfos now cm
      in \<lparr>csr_LeaderId = CM_GetLeader cm, csr_TotalNodes = length nodes, csr_ActiveNodes = length nodes, csr_Nodes = nodes,
          csr_Status = (if IsHealthy cm then ''healthy'' else ''unhealthy''), csr_ConsensusRatio = (if IsHealthy cm then 1 else 1 / 2)\<rparr>)"

definition CS_GetNodes :: "gtime \<Rightarrow> ClusterManager \<Rightarrow> NodeInfo list" where
  "CS_GetNodes now cm = nodeInfos now cm"

section \<open>Membership\<close>

abbreviation peer_ids :: "RaftNode \<Rightarrow> string set" where
  "peer_ids rn \<equiv> dom (gm_get (rn_peers rn))"

definition config_ids :: "ClusterManager \<Rightarrow> string set" where
  "config_ids cm = set (map nc_NodeID (cc_Nodes (cm_config cm)))"

text \<open>
  The full mesh: the nodes are the configured ones, each under its own name and running, and the
  peers of a node are all the others.
\<close>

definition mesh :: "ClusterManager \<Rightarrow> bool" where
  "mesh cm = (gm_ok (cm_nodes cm) \<and> dom (gm_get (cm_nodes cm)) = config_ids cm \<and>
     (\<forall>i n. gm_get (cm_nodes cm) i = Some n \<longrightarrow> rn_id n = i \<and> \<not> rn_shutdown n \<and> gm_ok (rn_peers n) \<and> peer_ids n = config_ids cm - {i}))"

lemma mapNodes_get [simp]: "gm_get (mapNodes f m) i = map_option (f i) (gm_get m i)"
  by (induction m) (auto simp: mapNodes_def)

lemma mapNodes_ok [simp]: "gm_ok (mapNodes f m) = gm_ok m"
  by (simp add: gm_ok_def mapNodes_def comp_def case_prod_unfold)

lemma AddPeer_fields [simp]:
  "rn_id (AddPeer now i a r g rn) = rn_id rn" "rn_shutdown (AddPeer now i a r g rn) = rn_shutdown rn"
  "peer_ids (AddPeer now i a r g rn) = insert i (peer_ids rn)"
  "gm_ok (rn_peers rn) \<Longrightarrow> gm_ok (rn_peers (AddPeer now i a r g rn))"
  by (auto simp: AddPeer_def Let_def split: if_splits)

lemma connectTo_fields [simp]:
  "rn_id (connectTo now i ncs rn) = rn_id rn" "rn_shutdown (connectTo now i ncs rn) = rn_shutdown rn"
  "peer_ids (connectTo now i ncs rn) = peer_ids rn \<union> (set (map nc_NodeID ncs) - {i})"
  "gm_ok (rn_peers rn) \<Longrightarrow> gm_ok (rn_peers (connectTo now i ncs rn))"
  unfolding connectTo_def by (induction ncs arbitrary: rn) (auto simp: addConfigPeer_def)

lemma RN_Start_fields [simp]:
  "rn_id (RN_Start r rn) = rn_id rn" "rn_shutdown (RN_Start r rn) = rn_shutdown rn" "rn_peers (RN_Start r rn) = rn_peers rn"
  by (simp_all add: RN_Start_def resetElectionTimer_def)

lemma NewRaftNode_fields:
  "NewRaftNode oi now r config d = (Inr n, d') \<Longrightarrow> rn_id n = rc_NodeID config \<and> \<not> rn_shutdown n \<and> rn_peers n = []"
  by (auto simp: NewRaftNode_def loadPersistentState_def initialNode_def split: prod.splits sum.splits)

definition fresh_node :: "string \<Rightarrow> RaftNode \<Rightarrow> bool" where
  "fresh_node i n = (rn_id n = i \<and> \<not> rn_shutdown n \<and> rn_peers n = [])"

lemma createNode_succeeds:
  assumes "createNode io nc (cm, d) = (None, cm', d')"
  shows "\<exists>n. fresh_node (nc_NodeID nc) n \<and> cm_nodes cm' = gm_put (nc_NodeID nc) n (cm_nodes cm) \<and> cm_config cm' = cm_config cm"
  using assms by (auto simp: createNode_def startGRPCServer_def fresh_node_def nodeConfigOf_def
    dest!: NewRaftNode_fields split: prod.splits sum.splits option.splits)

lemma createNodes_succeeds:
  assumes "createNodes ios ncs (cm, d) = (None, cm', d')" and "gm_ok (cm_nodes cm)"
    and "\<forall>i n. gm_get (cm_nodes cm) i = Some n \<longrightarrow> fresh_node i n"
  shows "gm_ok (cm_nodes cm') \<and> (\<forall>i n. gm_get (cm_nodes cm') i = Some n \<longrightarrow> fresh_node i n) \<and>
    dom (gm_get (cm_nodes cm')) = dom (gm_get (cm_nodes cm)) \<union> set (map nc_NodeID ncs) \<and> cm_config cm' = cm_config cm"
  using assms
proof (induction ncs arbitrary: ios cm d)
  case (Cons nc ncs)
  from Cons.prems(1) obtain cm1 d1 where one: "createNode (ios 0) nc (cm, d) = (None, cm1, d1)"
    and rest: "createNodes (\<lambda>i. ios (Suc i)) ncs (cm1, d1) = (None, cm', d')" by (auto split: prod.splits option.splits)
  obtain n where n: "fresh_node (nc_NodeID nc) n" "cm_nodes cm1 = gm_put (nc_NodeID nc) n (cm_nodes cm)" "cm_config cm1 = cm_config cm"
    using createNode_succeeds [OF one] by blast
  have dom: "dom (gm_get (cm_nodes cm1)) = insert (nc_NodeID nc) (dom (gm_get (cm_nodes cm)))"
    unfolding n(2) update_conv' by simp
  have "gm_ok (cm_nodes cm1)" "\<forall>i n. gm_get (cm_nodes cm1) i = Some n \<longrightarrow> fresh_node i n"
    using Cons.prems(2,3) n(1) by (simp_all add: n(2))
  from Cons.IH [OF rest this] show ?case unfolding dom n(3) by simp
qed simp

lemma connectAll_spec:
  assumes "gm_ok nodes" and "\<forall>i n. gm_get nodes i = Some n \<longrightarrow> fresh_node i n"
  shows "gm_ok (connectAll now ncs nodes) \<and> dom (gm_get (connectAll now ncs nodes)) = dom (gm_get nodes) \<and>
    (\<forall>i n. gm_get (connectAll now ncs nodes) i = Some n \<longrightarrow> rn_id n = i \<and> \<not> rn_shutdown n \<and> gm_ok (rn_peers n) \<and>
      (i \<in> set (map nc_NodeID ncs) \<longrightarrow> peer_ids n = set (map nc_NodeID ncs) - {i}))"
proof -
  let ?step = "\<lambda>nc m. case gm_get m (nc_NodeID nc) of None \<Rightarrow> m
      | Some node \<Rightarrow> gm_put (nc_NodeID nc) (connectTo now (nc_NodeID nc) ncs node) m"
  let ?P = "\<lambda>done m. gm_ok m \<and> dom (gm_get m) = dom (gm_get nodes) \<and> (\<forall>i n. gm_get m i = Some n \<longrightarrow>
      rn_id n = i \<and> \<not> rn_shutdown n \<and> gm_ok (rn_peers n) \<and> peer_ids n = (if i \<in> done then set (map nc_NodeID ncs) - {i} else {}))"
  have loop: "?P (done \<union> set (map nc_NodeID xs)) (fold ?step xs m)" if "?P done m" for xs m "done"
    using that
  proof (induction xs arbitrary: m "done")
    case (Cons x xs)
    have "dom (gm_get (?step x m)) = dom (gm_get m)" by (auto split: option.splits if_splits)
    then have dom: "dom (gm_get (?step x m)) = dom (gm_get nodes)" using Cons.prems by simp
    have gok: "gm_ok (?step x m)" using Cons.prems by (simp split: option.splits)
    have node: "rn_id n = i \<and> \<not> rn_shutdown n \<and> gm_ok (rn_peers n) \<and>
        peer_ids n = (if i \<in> insert (nc_NodeID x) done then set (map nc_NodeID ncs) - {i} else {})"
      if get: "gm_get (?step x m) i = Some n" for i n
    proof (cases "i = nc_NodeID x \<and> gm_get m i \<noteq> None")
      case True
      then obtain node where node: "gm_get m i = Some node" "n = connectTo now i ncs node" using get by auto
      have "rn_id node = i \<and> \<not> rn_shutdown node \<and> gm_ok (rn_peers node) \<and>
          peer_ids node = (if i \<in> done then set (map nc_NodeID ncs) - {i} else {})" using Cons.prems node(1) by blast
      then show ?thesis using True unfolding node(2) connectTo_fields(1-3) by (simp add: connectTo_fields(4) split: if_splits)
    next
      case False
      then have "gm_get m i = Some n" "i \<noteq> nc_NodeID x" using get by (auto split: option.splits if_splits)
      then show ?thesis using Cons.prems by simp
    qed
    have "?P (insert (nc_NodeID x) done) (?step x m)" by (intro conjI allI) (rule gok, rule dom, rule impI, erule node)
    from Cons.IH [OF this] show ?case by simp
  qed simp
  have "?P {} nodes" using assms by (simp add: fresh_node_def)
  from loop [OF this, of ncs] show ?thesis unfolding connectAll_def by simp
qed

lemma mesh_member: "mesh cm \<Longrightarrow> i \<in> config_ids cm \<longleftrightarrow> gm_get (cm_nodes cm) i \<noteq> None"
  by (metis domIff mesh_def)

lemma mesh_Bootstrap:
  assumes "Bootstrap ios now draws (NewClusterManager config, d) = (None, cm, d')"
  shows "mesh cm \<and> config_ids cm = set (map nc_NodeID (cc_Nodes config))"
proof -
  obtain cm1 d1 where c: "createNodes ios (cc_Nodes config) (NewClusterManager config, d) = (None, cm1, d1)"
    and cm: "cm = cm1\<lparr>cm_nodes := mapNodes (\<lambda>i. RN_Start (draws i)) (connectAll now (cc_Nodes (cm_config cm1)) (cm_nodes cm1))\<rparr>"
    using assms by (auto simp: Bootstrap_def NewClusterManager_def split: prod.splits option.splits)
  have cn: "gm_ok (cm_nodes cm1)" "\<forall>i n. gm_get (cm_nodes cm1) i = Some n \<longrightarrow> fresh_node i n"
    "dom (gm_get (cm_nodes cm1)) = set (map nc_NodeID (cc_Nodes config))" "cm_config cm1 = config"
    using createNodes_succeeds [OF c] by (simp_all add: NewClusterManager_def)
  have ids: "config_ids cm = set (map nc_NodeID (cc_Nodes config))" by (simp add: cm config_ids_def cn(4))
  let ?nodes = "connectAll now (cc_Nodes config) (cm_nodes cm1)"
  note all = connectAll_spec [OF cn(1,2), of now "cc_Nodes config"]
  have get: "gm_get (cm_nodes cm) i = map_option (RN_Start (draws i)) (gm_get ?nodes i)" for i by (simp add: cm cn(4))
  have "dom (gm_get (cm_nodes cm)) = dom (gm_get ?nodes)" using get by (auto simp: dom_def)
  then have dom: "dom (gm_get (cm_nodes cm)) = config_ids cm" using all cn(3) ids by simp
  have "rn_id n = i \<and> \<not> rn_shutdown n \<and> gm_ok (rn_peers n) \<and> peer_ids n = config_ids cm - {i}"
    if n: "gm_get (cm_nodes cm) i = Some n" for i n
  proof -
    obtain n0 where n0: "gm_get ?nodes i = Some n0" "n = RN_Start (draws i) n0" using n get by auto
    have "i \<in> set (map nc_NodeID (cc_Nodes config))" using n dom ids by auto
    then show ?thesis using all n0 ids by simp
  qed
  moreover have "gm_ok (cm_nodes cm)" using all by (simp add: cm cn(4))
  ultimately show ?thesis using dom ids unfolding mesh_def by blast
qed

lemma mesh_AddNode:
  assumes ok: "mesh cm" and add: "AddNode io now draw nc (cm, d) = (None, cm', d')"
  shows "mesh cm' \<and> config_ids cm' = insert (nc_NodeID nc) (config_ids cm)"
proof -
  let ?i = "nc_NodeID nc"
  have new: "gm_get (cm_nodes cm) ?i = None" using add by (auto simp: AddNode_def Let_def split: if_splits)
  then obtain cm1 d1 where c: "createNode io nc (cm, d) = (None, cm1, d1)"
    and cm': "cm' = cm1\<lparr>cm_nodes := mapNodes (\<lambda>j n. if j = ?i then RN_Start draw n else n)
        (mapNodes (\<lambda>j n. if rn_id n \<noteq> ?i then addConfigPeer now nc n else n)
          (gm_put ?i (connectTo now ?i (cc_Nodes (cm_config cm1)) (the (gm_get (cm_nodes cm1) ?i))) (cm_nodes cm1))),
        cm_config := (cm_config cm1)\<lparr>cc_Nodes := cc_Nodes (cm_config cm1) @ [nc]\<rparr>\<rparr>"
    using add by (auto simp: AddNode_def Let_def split: prod.splits option.splits)
  obtain n0 where n0: "fresh_node ?i n0" "cm_nodes cm1 = gm_put ?i n0 (cm_nodes cm)" "cm_config cm1 = cm_config cm"
    using createNode_succeeds [OF c] by blast
  have ids: "config_ids cm' = insert ?i (config_ids cm)" by (simp add: cm' config_ids_def n0(3))
  have notin: "?i \<notin> config_ids cm" using ok new by (simp add: mesh_member)
  have get: "gm_get (cm_nodes cm') j = (if j = ?i then Some (RN_Start draw (connectTo now ?i (cc_Nodes (cm_config cm)) n0))
      else map_option (\<lambda>n. addConfigPeer now nc n) (gm_get (cm_nodes cm) j))" for j
    using n0(1) ok by (cases "gm_get (cm_nodes cm) j") (auto simp: cm' n0 fresh_node_def mesh_def)
  have "dom (gm_get (cm_nodes cm')) = insert ?i (dom (gm_get (cm_nodes cm)))" using get by (auto simp: dom_def)
  then have dom: "dom (gm_get (cm_nodes cm')) = config_ids cm'" using ok ids by (simp add: mesh_def)
  have "rn_id n = j \<and> \<not> rn_shutdown n \<and> gm_ok (rn_peers n) \<and> peer_ids n = config_ids cm' - {j}"
    if n: "gm_get (cm_nodes cm') j = Some n" for j n
  proof (cases "j = ?i")
    case True
    then have "n = RN_Start draw (connectTo now ?i (cc_Nodes (cm_config cm)) n0)" using n get by simp
    moreover have "set (map nc_NodeID (cc_Nodes (cm_config cm))) = config_ids cm" by (simp add: config_ids_def)
    ultimately show ?thesis using True n0(1) ids by (simp add: fresh_node_def insert_Diff_if)
  next
    case False
    then obtain m where m: "gm_get (cm_nodes cm) j = Some m" "n = addConfigPeer now nc m" using n get by auto
    then show ?thesis using False ok notin ids by (auto simp: mesh_def addConfigPeer_def)
  qed
  moreover have "gm_ok (cm_nodes cm')" using ok by (simp add: cm' n0 mesh_def)
  ultimately show ?thesis using dom ids unfolding mesh_def by blast
qed

lemma mesh_RemoveNode:
  assumes ok: "mesh cm" and rm: "RemoveNode i cm = Some (None, cm')"
  shows "mesh cm' \<and> config_ids cm' = config_ids cm - {i}"
proof -
  obtain node where node: "gm_get (cm_nodes cm) i = Some node" using rm by (auto simp: RemoveNode_def split: option.splits)
  have cm': "cm' = cm\<lparr>cm_nodes := gm_del i (mapNodes (\<lambda>j n. if rn_id n \<noteq> i then RemovePeer i n else n) (cm_nodes cm)),
      cm_config := (cm_config cm)\<lparr>cc_Nodes := filter (\<lambda>nc. nc_NodeID nc \<noteq> i) (cc_Nodes (cm_config cm))\<rparr>,
      cm_grpcServers := gm_del i (cm_grpcServers cm), cm_listeners := gm_del i (cm_listeners cm)\<rparr>"
    using rm node by (auto simp: RemoveNode_def split: option.splits if_splits)
  have ids: "config_ids cm' = config_ids cm - {i}" by (auto simp: cm' config_ids_def)
  have get: "gm_get (cm_nodes cm') j = (if j = i then None else map_option (RemovePeer i) (gm_get (cm_nodes cm) j))" for j
    using ok by (cases "gm_get (cm_nodes cm) j") (auto simp: cm' mesh_def)
  have "dom (gm_get (cm_nodes cm')) = dom (gm_get (cm_nodes cm)) - {i}" using get by (auto simp: dom_def)
  then have dom: "dom (gm_get (cm_nodes cm')) = config_ids cm'" using ok ids by (simp add: mesh_def)
  have "rn_id n = j \<and> \<not> rn_shutdown n \<and> gm_ok (rn_peers n) \<and> peer_ids n = config_ids cm' - {j}"
    if n: "gm_get (cm_nodes cm') j = Some n" for j n
  proof -
    obtain m where m: "gm_get (cm_nodes cm) j = Some m" "n = RemovePeer i m" "j \<noteq> i" using n get by (auto split: if_splits)
    have "dom (gm_get (gm_del i (rn_peers m))) = peer_ids m - {i}" by (auto split: if_splits)
    then show ?thesis using m ok ids by (auto simp: mesh_def RemovePeer_def)
  qed
  moreover have "gm_ok (cm_nodes cm')" using ok by (simp add: cm' mesh_def)
  ultimately show ?thesis using dom ids unfolding mesh_def by blast
qed

lemma RemoveNode_runs:
  assumes "mesh cm"
  shows "\<exists>err cm'. RemoveNode i cm = Some (err, cm') \<and> (err \<noteq> None \<longrightarrow> cm' = cm \<and> i \<notin> config_ids cm)"
proof (cases "gm_get (cm_nodes cm) i")
  case None
  then have "i \<notin> config_ids cm" using assms by (simp add: mesh_member)
  then show ?thesis using None by (simp add: RemoveNode_def)
next
  case (Some n)
  then have "i \<in> config_ids cm" "\<not> rn_shutdown n" using assms mesh_member [of cm i] by (auto simp: mesh_def)
  then have "cc_Nodes (cm_config cm) \<noteq> []" "\<not> rn_shutdown n" by (auto simp: config_ids_def)
  then show ?thesis using Some by (simp add: RemoveNode_def RN_Stop_def)
qed

text \<open>Joins and departures, one after the other, none of which fails.\<close>

datatype cm_op = OpAdd create_io gtime nat NodeConfig | OpRemove string

fun cm_step :: "cm_op \<Rightarrow> ClusterManager \<times> disk \<Rightarrow> (string option \<times> ClusterManager \<times> disk) option" where
  "cm_step (OpAdd io now draw nc) s = Some (AddNode io now draw nc s)"
| "cm_step (OpRemove i) (cm, d) = map_option (\<lambda>(err, cm). (err, cm, d)) (RemoveNode i cm)"

fun cm_run :: "cm_op list \<Rightarrow> ClusterManager \<times> disk \<Rightarrow> (ClusterManager \<times> disk) option" where
  "cm_run [] s = Some s"
| "cm_run (op # ops) s = (case cm_step op s of Some (None, s) \<Rightarrow> cm_run ops s | _ \<Rightarrow> None)"

lemma mesh_step: "mesh cm \<Longrightarrow> cm_step op (cm, d) = Some (None, cm', d') \<Longrightarrow> mesh cm'"
  by (cases op) (auto dest: mesh_AddNode mesh_RemoveNode)

lemma mesh_run: "mesh cm \<Longrightarrow> cm_run ops (cm, d) = Some (cm', d') \<Longrightarrow> mesh cm'"
proof (induction ops arbitrary: cm d)
  case (Cons op ops)
  then obtain cm1 d1 where "cm_step op (cm, d) = Some (None, cm1, d1)" "cm_run ops (cm1, d1) = Some (cm', d')"
    by (auto split: option.splits prod.splits)
  then show ?case using Cons.IH mesh_step [OF Cons.prems(1)] by blast
qed simp

lemma waitLoop_returns:
  assumes "\<And>i. fst (obs i) + 100 * millisecond \<le> fst (obs (Suc i))"
    and "deadline \<le> fst (obs 0) + int k * (100 * millisecond)"
  shows "\<exists>r i. waitLoop deadline obs = Some r \<and> i \<le> k \<and> (\<forall>j < i. snd (obs j) = []) \<and>
    (case r of Some l \<Rightarrow> l \<noteq> [] \<and> snd (obs i) = l \<and> fst (obs i) < deadline | None \<Rightarrow> deadline \<le> fst (obs i))"
  using assms
proof (induction k arbitrary: obs)
  case 0
  then have "waitLoop deadline obs = Some None" by (subst waitLoop.simps) simp
  then show ?case using 0 by (intro exI [of _ None] exI [of _ 0]) simp
next
  case (Suc k)
  consider "deadline \<le> fst (obs 0)" | "fst (obs 0) < deadline" "snd (obs 0) \<noteq> []" | "fst (obs 0) < deadline" "snd (obs 0) = []"
    by linarith
  then show ?case
  proof cases
    case 1
    then have "waitLoop deadline obs = Some None" by (subst waitLoop.simps) simp
    then show ?thesis using 1 by (intro exI [of _ None] exI [of _ 0]) simp
  next
    case 2
    then have "waitLoop deadline obs = Some (Some (snd (obs 0)))" by (subst waitLoop.simps) simp
    then show ?thesis using 2 by (intro exI [of _ "Some (snd (obs 0))"] exI [of _ 0]) simp
  next
    case 3
    then have step: "waitLoop deadline obs = waitLoop deadline (\<lambda>i. obs (Suc i))" by (subst waitLoop.simps) simp
    have "deadline \<le> fst (obs (Suc 0)) + int k * (100 * millisecond)"
      using Suc.prems(1) [of 0] Suc.prems(2) by (simp add: algebra_simps)
    then obtain r i where ri: "waitLoop deadline (\<lambda>i. obs (Suc i)) = Some r" "i \<le> k" "\<forall>j < i. snd (obs (Suc j)) = []"
      "case r of Some l \<Rightarrow> l \<noteq> [] \<and> snd (obs (Suc i)) = l \<and> fst (obs (Suc i)) < deadline | None \<Rightarrow> deadline \<le> fst (obs (Suc i))"
      using Suc.IH [of "\<lambda>i. obs (Suc i)"] Suc.prems(1) by blast
    have "snd (obs j) = []" if "j < Suc i" for j using that ri(3) 3(2) by (cases j) auto
    then show ?thesis using ri step by (intro exI [of _ r] exI [of _ "Suc i"]) simp
  qed
qed

section \<open>Properties\<close>

text \<open>
  C26. Membership: after a successful bootstrap and any sequence of successful joins and
  departures, the running nodes are exactly the configured ones, every node's peers are all the
  other members, and so every node computes its majority from the true size of the cluster.
\<close>

theorem cluster_is_full_mesh:
  assumes "Bootstrap ios now draws (NewClusterManager config, d) = (None, cm, d1)"
    and "cm_run ops (cm, d1) = Some (cm', d2)" and "gm_get (cm_nodes cm') i = Some n"
  shows "dom (gm_get (cm_nodes cm')) = config_ids cm' \<and> peer_ids n = config_ids cm' - {i} \<and>
    getMajority n = (card (config_ids cm') + 1) div 2"
proof -
  have ok: "mesh cm'" using mesh_run [OF _ assms(2)] mesh_Bootstrap [OF assms(1)] by blast
  then have n: "gm_ok (rn_peers n)" "peer_ids n = config_ids cm' - {i}" and i: "i \<in> config_ids cm'"
    and dom: "dom (gm_get (cm_nodes cm')) = config_ids cm'" using assms(3) mesh_member [OF ok] by (auto simp: mesh_def)
  have "length (rn_peers n) = card (config_ids cm') - 1" using gm_length_dom [OF n(1)] n(2) i by simp
  moreover have "0 < card (config_ids cm')" using i by (auto simp: config_ids_def card_gt_0_iff)
  ultimately show ?thesis using n dom by (simp add: getMajority_def)
qed

definition sampleIo :: "string option \<Rightarrow> create_io" where
  "sampleIo listenErr = \<lparr>ci_open = sampleOpen, ci_now = 0, ci_rand = 0, ci_listen = listenErr\<rparr>"

definition sampleNodeConfig :: "string \<Rightarrow> NodeConfig" where
  "sampleNodeConfig i = \<lparr>nc_NodeID = i, nc_Address = ''localhost'', nc_RaftPort = 7000, nc_GrpcPort = 9000\<rparr>"

definition sampleCluster :: "string list \<Rightarrow> ClusterConfig" where
  "sampleCluster is = \<lparr>cc_Nodes = map sampleNodeConfig is, cc_ElectionTimeout = 0, cc_HeartbeatTimeout = 0, cc_DataDir = ''data''\<rparr>"

text \<open>Opening a node for the first time, on a disk without its files.\<close>

lemma NewRaftNode_first:
  assumes "d (statePath i) = None" "d (metadataFile (empty_LogStorage i)) = None" "d (ls_logFile (empty_LogStorage i)) = None"
    and "rc_NodeID config = i"
  shows "\<exists>n. NewRaftNode sampleOpen now r config d =
    (Inr n, d(statePath i @ ''.tmp'' := None, statePath i \<mapsto> marshal_State initial_state))"
proof -
  obtain p q m where s: "statePath i = p @ ''state.json''" "ls_logFile (empty_LogStorage i) = q @ ''entries.json''"
    "metadataFile (empty_LogStorage i) = m @ ''metadata.json''"
    using statePath_suffix log_paths_suffix unfolding metadataFile_def by metis
  have ne: "rev (metadataFile (empty_LogStorage i)) \<noteq> rev (statePath i)" "rev (ls_logFile (empty_LogStorage i)) \<noteq> rev (statePath i)"
    by (simp_all add: s)
  then have ne: "metadataFile (empty_LogStorage i) \<noteq> statePath i" "ls_logFile (empty_LogStorage i) \<noteq> statePath i" by auto
  let ?d = "d(statePath i @ ''.tmp'' := None, statePath i \<mapsto> marshal_State initial_state)"
  have "NewPersistentState None None io_succeeds i d =
      (Inr \<lparr>ps_nodeID = i, ps_filePath = statePath i, ps_data = initial_state\<rparr>, ?d)"
    using assms(1) by (simp add: NewPersistentState_def ps_load_def ps_save_succeeds Let_def flip: statePath_def)
  moreover have "NewLogStorage None False None i ?d = Inr (empty_LogStorage i)"
    using assms(2,3) ne by (simp add: NewLogStorage_def loadLog_def Let_def)
  ultimately show ?thesis using assms(4) by (simp add: NewRaftNode_def sampleOpen_def)
qed

lemma sample_paths_b:
  "statePath ''b'' = ''data/raft/b/state.json''" "ls_logFile (empty_LogStorage ''b'') = ''data/raft/b/log/entries.json''"
  "metadataFile (empty_LogStorage ''b'') = ''data/raft/b/log/metadata.json''"
  by code_simp+

lemma sample_bootstrap:
  "\<exists>cm d1. Bootstrap (\<lambda>i. sampleIo None) 0 (\<lambda>i. 0) (NewClusterManager (sampleCluster [''a'', ''b'']), Map.empty) = (None, cm, d1)"
proof -
  let ?c = "sampleCluster [''a'', ''b'']"
  obtain n where a: "NewRaftNode sampleOpen 0 0 (nodeConfigOf (sampleNodeConfig ''a'') ?c) Map.empty =
      (Inr n, [statePath ''a'' \<mapsto> marshal_State initial_state])"
    using NewRaftNode_first [of Map.empty "''a''" "nodeConfigOf (sampleNodeConfig ''a'') ?c" 0 0]
    by (auto simp: nodeConfigOf_def sampleNodeConfig_def)
  let ?d = "[statePath ''a'' \<mapsto> marshal_State initial_state]"
  obtain m d1 where b: "NewRaftNode sampleOpen 0 0 (nodeConfigOf (sampleNodeConfig ''b'') ?c) ?d = (Inr m, d1)"
    using NewRaftNode_first [of ?d "''b''" "nodeConfigOf (sampleNodeConfig ''b'') ?c" 0 0]
    by (auto simp: nodeConfigOf_def sampleNodeConfig_def sample_paths sample_paths_b)
  have c: "cc_Nodes ?c = [sampleNodeConfig ''a'', sampleNodeConfig ''b'']" by (simp add: sampleCluster_def)
  show ?thesis
    by (simp add: Bootstrap_def NewClusterManager_def c createNode_def startGRPCServer_def sampleIo_def a b)
qed

theorem cluster_is_full_mesh_witness:
  "\<exists>cm d1 n. Bootstrap (\<lambda>i. sampleIo None) 0 (\<lambda>i. 0) (NewClusterManager (sampleCluster [''a'', ''b'']), Map.empty) = (None, cm, d1) \<and>
     gm_get (cm_nodes cm) ''a'' = Some n \<and> peer_ids n = {''b''}"
proof -
  obtain cm d1 where b: "Bootstrap (\<lambda>i. sampleIo None) 0 (\<lambda>i. 0) (NewClusterManager (sampleCluster [''a'', ''b'']), Map.empty) = (None, cm, d1)"
    using sample_bootstrap by blast
  have ids: "config_ids cm = {''a'', ''b''}" and m: "mesh cm"
    using mesh_Bootstrap [OF b] by (simp_all add: sampleCluster_def sampleNodeConfig_def)
  obtain n where n: "gm_get (cm_nodes cm) ''a'' = Some n" using mesh_member [OF m, of "''a''"] ids by auto
  have "cm_run [] (cm, d1) = Some (cm, d1)" by simp
  from cluster_is_full_mesh [OF b this n] n b ids show ?thesis by auto
qed

text \<open>
  A join that fails when its port cannot be opened leaves the node registered: a second attempt
  to join is refused because the node already exists, although it is in nobody's configuration;
  in an otherwise empty cluster, removing it then panics.
\<close>

theorem failed_join_leaves_node:
  "\<exists>err cm d.
     AddNode (sampleIo (Some ''EADDRINUSE'')) 0 0 (sampleNodeConfig ''a'') (NewClusterManager (sampleCluster []), Map.empty) = (Some err, cm, d) \<and>
     gm_get (cm_nodes cm) ''a'' \<noteq> None \<and> ''a'' \<notin> config_ids cm \<and>
     AddNode (sampleIo None) 0 0 (sampleNodeConfig ''a'') (cm, d) = (Some ''node a already exists in cluster'', cm, d) \<and>
     RemoveNode ''a'' cm = None"
proof -
  let ?c = "sampleCluster []"
  obtain n d1 where a: "NewRaftNode sampleOpen 0 0 (nodeConfigOf (sampleNodeConfig ''a'') ?c) Map.empty = (Inr n, d1)"
    using NewRaftNode_first [of Map.empty "''a''" "nodeConfigOf (sampleNodeConfig ''a'') ?c" 0 0]
    by (auto simp: nodeConfigOf_def sampleNodeConfig_def)
  have i: "nc_NodeID (sampleNodeConfig ''a'') = ''a''" by (simp add: sampleNodeConfig_def)
  let ?cm = "(NewClusterManager ?c)\<lparr>cm_nodes := [(''a'', n)]\<rparr>"
  have "\<exists>err. AddNode (sampleIo (Some ''EADDRINUSE'')) 0 0 (sampleNodeConfig ''a'') (NewClusterManager ?c, Map.empty) = (Some err, ?cm, d1)"
    by (simp add: AddNode_def NewClusterManager_def createNode_def startGRPCServer_def sampleIo_def a i)
  moreover have "AddNode (sampleIo None) 0 0 (sampleNodeConfig ''a'') (?cm, d1) = (Some ''node a already exists in cluster'', ?cm, d1)"
    by (simp add: AddNode_def i)
  moreover have "''a'' \<notin> config_ids ?cm" "RemoveNode ''a'' ?cm = None"
    by (simp_all add: config_ids_def RemoveNode_def NewClusterManager_def sampleCluster_def split: option.splits)
  moreover have "gm_get (cm_nodes ?cm) ''a'' \<noteq> None" by simp
  ultimately show ?thesis by blast
qed

text \<open>
  Waiting for a leader ends: as every round sleeps 100 milliseconds, it returns after at most
  one round more than fits the timeout, with the first leader seen before the deadline or, when none
  was seen, with a timeout after the deadline.
\<close>

theorem WaitForLeader_terminates:
  assumes "\<And>i. fst (obs i) + 100 * millisecond \<le> fst (obs (Suc i))" and "now \<le> fst (obs 0)"
    and "timeout \<le> int k * (100 * millisecond)"
  shows "\<exists>r i. WaitForLeader now timeout obs = Some r \<and> i \<le> k \<and> (\<forall>j < i. snd (obs j) = []) \<and>
    (case r of Some l \<Rightarrow> l \<noteq> [] \<and> snd (obs i) = l \<and> fst (obs i) < now + timeout | None \<Rightarrow> now + timeout \<le> fst (obs i))"
  unfolding WaitForLeader_def by (rule waitLoop_returns) (use assms in auto)

theorem WaitForLeader_terminates_witness:
  "\<exists>r. WaitForLeader 0 (250 * millisecond) (\<lambda>i. (int i * (100 * millisecond), if i = 2 then ''n1'' else [])) = Some r"
  using WaitForLeader_terminates [of "\<lambda>i. (int i * (100 * millisecond), if i = 2 then ''n1'' else [])" 0 "250 * millisecond" 3]
  by (auto simp: algebra_simps)

end
