(* ===== verification/Hash_Ring.thy ===== *)
theory Hash_Ring
  imports Sha256
begin

text \<open>
  The consistent hash ring of \<^verbatim>\<open>src/internal/partitioning/hash_ring.go\<close>. The operations take the
  hash function as their first argument; the program uses \<open>Hash\<close>, the first eight bytes of
  SHA-256. Every theorem holds for any hash function, so collisions are covered. Percentages are
  rational numbers (the code rounds them to \<^verbatim>\<open>float64\<close>).
\<close>

type_synonym w64 = "64 word"
type_synonym hash = "string \<Rightarrow> w64"

section \<open>Data\<close>

datatype NodeStatus = NodeStatusActive | NodeStatusInactive | NodeStatusFailed | NodeStatusDraining

record Node =
  nd_ID :: string
  nd_Address :: string
  nd_Port :: int
  nd_Weight :: int
  nd_Capacity :: int
  nd_Load :: int
  nd_Shards :: "32 word list"
  nd_Metadata :: "(string, string) gomap"
  nd_Status :: NodeStatus
  nd_LastSeen :: int

record KeyRange =
  kr_Start :: w64
  kr_End :: w64

datatype RebalanceType = RebalanceTypeAdd | RebalanceTypeRemove | RebalanceTypeRepair

record RebalanceOperation =
  ro_Type :: RebalanceType
  ro_SourceNode :: string
  ro_TargetNode :: string
  ro_Shard :: "32 word"
  ro_KeyRange :: KeyRange
  ro_Status :: string
  ro_Progress :: rat

record HashRing =
  hr_ring :: "(w64, string) gomap"
  hr_sortedHashes :: "w64 list"
  hr_nodes :: "(string, Node) gomap"
  hr_virtualNodes :: int

record HashRingStats =
  hrs_TotalNodes :: nat
  hrs_ActiveNodes :: nat
  hrs_VirtualNodes :: nat
  hrs_LoadDistribution :: "(string, rat) gomap"
  hrs_KeyDistribution :: "(string, rat) gomap"

section \<open>Operations\<close>

definition NewHashRing :: "int \<Rightarrow> HashRing" where
  "NewHashRing virtualNodes = \<lparr>hr_ring = [], hr_sortedHashes = [], hr_nodes = [],
     hr_virtualNodes = (if virtualNodes \<le> 0 then 150 else virtualNodes)\<rparr>"

text \<open>The first eight bytes of the digest as a big-endian number.\<close>

definition Hash :: hash where
  "Hash key = (let d = sha256 key in push_bit 32 (ucast (d ! 0)) OR ucast (d ! 1))"

definition virtualKey :: "string \<Rightarrow> nat \<Rightarrow> string" where
  "virtualKey nodeID i = nodeID @ '':'' @ dec_nat i"

definition addVirtual :: "hash \<Rightarrow> string \<Rightarrow> nat \<Rightarrow> HashRing \<Rightarrow> HashRing" where
  "addVirtual h nodeID i hr =
     hr\<lparr>hr_ring := gm_put (h (virtualKey nodeID i)) nodeID (hr_ring hr),
        hr_sortedHashes := hr_sortedHashes hr @ [h (virtualKey nodeID i)]\<rparr>"

definition addVirtuals :: "hash \<Rightarrow> string \<Rightarrow> HashRing \<Rightarrow> HashRing" where
  "addVirtuals h nodeID hr = fold (addVirtual h nodeID) [0..<nat (hr_virtualNodes hr)] hr"

definition sortHashes :: "HashRing \<Rightarrow> HashRing" where
  "sortHashes hr = hr\<lparr>hr_sortedHashes := sort (hr_sortedHashes hr)\<rparr>"

definition HR_AddNode :: "hash \<Rightarrow> Node \<Rightarrow> HashRing \<Rightarrow> string option \<times> HashRing" where
  "HR_AddNode h node hr =
     (if gm_get (hr_nodes hr) (nd_ID node) \<noteq> None then (Some (''node '' @ nd_ID node @ '' already exists''), hr)
      else (None, sortHashes (addVirtuals h (nd_ID node) (hr\<lparr>hr_nodes := gm_put (nd_ID node) node (hr_nodes hr)\<rparr>))))"

text \<open>The owner of a hash; a missing entry of the Go map reads as the empty string.\<close>

definition owner :: "(w64, string) gomap \<Rightarrow> w64 \<Rightarrow> string" where
  "owner ring x = (case gm_get ring x of None \<Rightarrow> [] | Some nodeID \<Rightarrow> nodeID)"

fun removeLoop :: "string \<Rightarrow> w64 list \<Rightarrow> (w64, string) gomap \<Rightarrow> w64 list \<times> (w64, string) gomap" where
  "removeLoop nodeID [] ring = ([], ring)"
| "removeLoop nodeID (x # xs) ring =
     (if owner ring x \<noteq> nodeID then (let (ys, ring') = removeLoop nodeID xs ring in (x # ys, ring'))
      else removeLoop nodeID xs (gm_del x ring))"

definition HR_RemoveNode :: "string \<Rightarrow> HashRing \<Rightarrow> string option \<times> HashRing" where
  "HR_RemoveNode nodeID hr =
     (if gm_get (hr_nodes hr) nodeID = None then (Some (''node '' @ nodeID @ '' not found''), hr)
      else (let (hashes, ring) = removeLoop nodeID (hr_sortedHashes hr) (hr_ring hr)
            in (None, hr\<lparr>hr_sortedHashes := hashes, hr_ring := ring, hr_nodes := gm_del nodeID (hr_nodes hr)\<rparr>)))"

text \<open>The binary search of \<^verbatim>\<open>sort.Search\<close> on the interval from \<open>i\<close> to \<open>j\<close>.\<close>

function sortSearch :: "(nat \<Rightarrow> bool) \<Rightarrow> nat \<Rightarrow> nat \<Rightarrow> nat" where
  "sortSearch f i j =
     (if i < j
      then (let m = (i + j) div 2 in if \<not> f m then sortSearch f (m + 1) j else sortSearch f i m)
      else i)"
  by pat_completeness auto
termination by (relation "measure (\<lambda>(f, i, j). j - i)") auto

declare sortSearch.simps [simp del]

definition position :: "w64 \<Rightarrow> HashRing \<Rightarrow> nat" where
  "position x hr =
     (let n = length (hr_sortedHashes hr);
          idx = sortSearch (\<lambda>i. x \<le> hr_sortedHashes hr ! i) 0 n
      in if idx = n then 0 else idx)"

definition HR_GetNode :: "hash \<Rightarrow> string \<Rightarrow> HashRing \<Rightarrow> string + string" where
  "HR_GetNode h key hr =
     (if hr_sortedHashes hr = [] then Inl ''no nodes available''
      else Inr (owner (hr_ring hr) (hr_sortedHashes hr ! position (h key) hr)))"

definition is_active :: "HashRing \<Rightarrow> string \<Rightarrow> bool" where
  "is_active hr nodeID = (case gm_get (hr_nodes hr) nodeID of None \<Rightarrow> False | Some node \<Rightarrow> nd_Status node = NodeStatusActive)"

text \<open>
  The loop that collects replicas walks the ring, possibly more than once around. It does not
  return when it never finds as many distinct nodes as there are.
\<close>

partial_function (option) getNodesLoop :: "HashRing \<Rightarrow> nat \<Rightarrow> nat \<Rightarrow> string list \<Rightarrow> string list \<Rightarrow> string list option" where
  "getNodesLoop hr count idx unique result =
     (if length result < count \<and> length unique < length (hr_nodes hr)
      then (if length (hr_sortedHashes hr) \<le> idx then None
            else (let nodeID = owner (hr_ring hr) (hr_sortedHashes hr ! idx);
                      seen = nodeID \<in> set unique
                  in getNodesLoop hr count ((idx + 1) mod length (hr_sortedHashes hr))
                       (if seen then unique else unique @ [nodeID])
                       (if \<not> seen \<and> is_active hr nodeID then result @ [nodeID] else result)))
      else Some result)"

definition HR_GetNodes :: "hash \<Rightarrow> string \<Rightarrow> int \<Rightarrow> HashRing \<Rightarrow> (string + string list) option" where
  "HR_GetNodes h key count hr =
     (if hr_nodes hr = [] then Some (Inl ''no nodes available'')
      else do {
        result \<leftarrow> getNodesLoop hr (if count \<le> 0 then 1 else nat count) (position (h key) hr) [] [];
        (if result = [] then Some (Inl ''no active nodes available'') else Some (Inr result))
      })"

definition HR_GetNodeInfo :: "string \<Rightarrow> HashRing \<Rightarrow> string + Node" where
  "HR_GetNodeInfo nodeID hr =
     (case gm_get (hr_nodes hr) nodeID of None \<Rightarrow> Inl (''node '' @ nodeID @ '' not found'') | Some node \<Rightarrow> Inr node)"

definition HR_GetAllNodes :: "HashRing \<Rightarrow> (string, Node) gomap" where
  "HR_GetAllNodes hr = fold (\<lambda>(i, node). gm_put i node) (hr_nodes hr) []"

definition HR_UpdateNodeStatus :: "string \<Rightarrow> NodeStatus \<Rightarrow> HashRing \<Rightarrow> string option \<times> HashRing" where
  "HR_UpdateNodeStatus nodeID status hr =
     (case gm_get (hr_nodes hr) nodeID of
        None \<Rightarrow> (Some (''node '' @ nodeID @ '' not found''), hr)
      | Some node \<Rightarrow> (None, hr\<lparr>hr_nodes := gm_put nodeID (node\<lparr>nd_Status := status\<rparr>) (hr_nodes hr)\<rparr>))"

definition HR_UpdateNodeLoad :: "string \<Rightarrow> int \<Rightarrow> HashRing \<Rightarrow> string option \<times> HashRing" where
  "HR_UpdateNodeLoad nodeID load hr =
     (case gm_get (hr_nodes hr) nodeID of
        None \<Rightarrow> (Some (''node '' @ nodeID @ '' not found''), hr)
      | Some node \<Rightarrow> (None, hr\<lparr>hr_nodes := gm_put nodeID (node\<lparr>nd_Load := load\<rparr>) (hr_nodes hr)\<rparr>))"

definition HR_GetLoadDistribution :: "HashRing \<Rightarrow> (string, rat) gomap" where
  "HR_GetLoadDistribution hr =
     (let active = filter (\<lambda>(i, node). nd_Status node = NodeStatusActive) (hr_nodes hr);
          totalLoad = fold (\<lambda>(i, node) t. i64 (t + nd_Load node)) active 0
      in fold (\<lambda>(i, node). gm_put i (if 0 < totalLoad then of_int (nd_Load node) / of_int totalLoad * 100 else 0)) active [])"

definition virtualNodeCount :: "HashRing \<Rightarrow> (string, nat) gomap" where
  "virtualNodeCount hr =
     fold (\<lambda>(x, nodeID) m. gm_put nodeID ((case gm_get m nodeID of None \<Rightarrow> 0 | Some c \<Rightarrow> c) + 1) m) (hr_ring hr) []"

definition HR_GetKeyDistribution :: "HashRing \<Rightarrow> (string, rat) gomap" where
  "HR_GetKeyDistribution hr =
     (if hr_nodes hr = [] then []
      else fold (\<lambda>(nodeID, count). gm_put nodeID (of_nat count / of_nat (length (hr_ring hr)) * 100)) (virtualNodeCount hr) [])"

definition HR_IsBalanced :: "rat \<Rightarrow> HashRing \<Rightarrow> bool" where
  "HR_IsBalanced threshold hr =
     (let distribution = HR_GetKeyDistribution hr
      in if distribution = [] then True
         else list_all (\<lambda>(nodeID, p). \<not> threshold < abs (p - 100 / of_nat (length distribution))) distribution)"

definition noRange :: KeyRange where
  "noRange = \<lparr>kr_Start = 0, kr_End = 0\<rparr>"

definition HR_GetRebalanceOperations :: "HashRing option \<Rightarrow> HashRing \<Rightarrow> RebalanceOperation list" where
  "HR_GetRebalanceOperations oldRing hr =
     (case oldRing of
        None \<Rightarrow> []
      | Some old \<Rightarrow>
          map (\<lambda>(nodeID, x). \<lparr>ro_Type = RebalanceTypeAdd, ro_SourceNode = [], ro_TargetNode = nodeID, ro_Shard = 0,
                 ro_KeyRange = noRange, ro_Status = ''pending'', ro_Progress = 0\<rparr>)
            (filter (\<lambda>(nodeID, x). gm_get (hr_nodes old) nodeID = None) (hr_nodes hr)) @
          map (\<lambda>(nodeID, x). \<lparr>ro_Type = RebalanceTypeRemove, ro_SourceNode = nodeID, ro_TargetNode = [], ro_Shard = 0,
                 ro_KeyRange = noRange, ro_Status = ''pending'', ro_Progress = 0\<rparr>)
            (filter (\<lambda>(nodeID, x). gm_get (hr_nodes hr) nodeID = None) (hr_nodes old)))"

definition HR_GetStats :: "HashRing \<Rightarrow> HashRingStats" where
  "HR_GetStats hr =
     \<lparr>hrs_TotalNodes = length (hr_nodes hr),
      hrs_ActiveNodes = length (filter (\<lambda>(i, node). nd_Status node = NodeStatusActive) (hr_nodes hr)),
      hrs_VirtualNodes = length (hr_ring hr), hrs_LoadDistribution = HR_GetLoadDistribution hr,
      hrs_KeyDistribution = HR_GetKeyDistribution hr\<rparr>"

definition HR_Clone :: "hash \<Rightarrow> HashRing \<Rightarrow> HashRing" where
  "HR_Clone h hr =
     (let new = (NewHashRing (hr_virtualNodes hr))\<lparr>hr_nodes := fold (\<lambda>(i, node). gm_put i node) (hr_nodes hr) []\<rparr>
      in sortHashes (fold (\<lambda>(i, node) r. fold (addVirtual h (nd_ID node)) [0..<nat (hr_virtualNodes hr)] r) (hr_nodes new) new))"

fun rangesFrom :: "string \<Rightarrow> (w64, string) gomap \<Rightarrow> w64 \<Rightarrow> w64 list \<Rightarrow> KeyRange list" where
  "rangesFrom nodeID ring start [] = []"
| "rangesFrom nodeID ring start (x # xs) =
     (if owner ring x = nodeID then [\<lparr>kr_Start = start, kr_End = x\<rparr>] else []) @ rangesFrom nodeID ring (x + 1) xs"

definition HR_GetHashRange :: "string \<Rightarrow> HashRing \<Rightarrow> string + KeyRange list" where
  "HR_GetHashRange nodeID hr =
     (if gm_get (hr_nodes hr) nodeID = None then Inl (''node '' @ nodeID @ '' not found'')
      else Inr (rangesFrom nodeID (hr_ring hr)
             (if 1 < length (hr_sortedHashes hr) then last (hr_sortedHashes hr) + 1 else 0) (hr_sortedHashes hr)))"

section \<open>Binary search\<close>

lemma sortSearch_spec:
  assumes "\<And>a b. i \<le> a \<Longrightarrow> a \<le> b \<Longrightarrow> b < j \<Longrightarrow> f a \<Longrightarrow> f b" and "i \<le> j"
  shows "i \<le> sortSearch f i j \<and> sortSearch f i j \<le> j \<and> (\<forall>k. i \<le> k \<and> k < sortSearch f i j \<longrightarrow> \<not> f k) \<and>
    (sortSearch f i j < j \<longrightarrow> f (sortSearch f i j))"
  using assms
proof (induction f i j rule: sortSearch.induct)
  case (1 f i j)
  let ?m = "(i + j) div 2"
  show ?case
  proof (cases "i < j")
    case True
    then have m: "i \<le> ?m" "?m < j" by auto
    show ?thesis
    proof (cases "f ?m")
      case False
      have low: "\<not> f k" if "i \<le> k" "k \<le> ?m" for k using "1.prems"(1) [of k ?m] that m False by blast
      define r where "r = sortSearch f (?m + 1) j"
      have "?m + 1 \<le> r \<and> r \<le> j \<and> (\<forall>k. ?m + 1 \<le> k \<and> k < r \<longrightarrow> \<not> f k) \<and> (r < j \<longrightarrow> f r)"
        unfolding r_def
      proof (rule "1.IH"(1) [OF True refl False])
        show "f b" if "?m + 1 \<le> a" "a \<le> b" "b < j" "f a" for a b using "1.prems"(1) [of a b] that m by simp
      qed (use m in simp)
      moreover have "\<not> f k" if "i \<le> k" "k < r" for k
        using calculation low that by (cases "k \<le> ?m") auto
      moreover have "sortSearch f i j = r"
        unfolding r_def using True False by (subst sortSearch.simps) (simp add: Let_def)
      ultimately show ?thesis using m by simp
    next
      case f: True
      define r where "r = sortSearch f i ?m"
      have "i \<le> r \<and> r \<le> ?m \<and> (\<forall>k. i \<le> k \<and> k < r \<longrightarrow> \<not> f k) \<and> (r < ?m \<longrightarrow> f r)"
        unfolding r_def
      proof (rule "1.IH"(2) [OF True refl])
        show "f b" if "i \<le> a" "a \<le> b" "b < ?m" "f a" for a b using "1.prems"(1) [of a b] that m by simp
      qed (use f m in simp_all)
      moreover have "f r" using calculation f by (cases "r = ?m") auto
      moreover have "sortSearch f i j = r" unfolding r_def using True f by (subst sortSearch.simps) (simp add: Let_def)
      ultimately show ?thesis using m by simp
    qed
  next
    case False
    then have "sortSearch f i j = i" by (subst sortSearch.simps) simp
    then show ?thesis using "1.prems"(2) False by auto
  qed
qed

lemma sortSearch_sorted:
  assumes "sorted xs"
  shows "sortSearch (\<lambda>i. x \<le> xs ! i) 0 (length xs) = length (takeWhile (\<lambda>y. y < x) xs)"
proof -
  let ?r = "sortSearch (\<lambda>i. x \<le> xs ! i) 0 (length xs)"
  have "?r \<le> length xs" "\<forall>k < ?r. xs ! k < x" "?r < length xs \<longrightarrow> x \<le> xs ! ?r"
    using sortSearch_spec [of 0 "length xs" "\<lambda>i. x \<le> xs ! i"] assms
    by (auto simp: not_le intro: order_trans sorted_nth_mono)
  then have "takeWhile (\<lambda>y. y < x) xs = take ?r xs"
    by (intro takeWhile_eq_take_P_nth) (auto simp: not_less)
  then show ?thesis using \<open>?r \<le> length xs\<close> by simp
qed

section \<open>The next hash clockwise\<close>

definition succ_hash :: "w64 set \<Rightarrow> w64 \<Rightarrow> w64" where
  "succ_hash S x = (if \<exists>y \<in> S. x \<le> y then Min {y \<in> S. x \<le> y} else Min S)"

lemma succ_hash_in: "finite S \<Longrightarrow> S \<noteq> {} \<Longrightarrow> succ_hash S x \<in> S"
proof -
  assume S: "finite S" "S \<noteq> {}"
  have "Min {y \<in> S. x \<le> y} \<in> {y \<in> S. x \<le> y}" if "\<exists>y \<in> S. x \<le> y" by (rule Min_in) (use S that in auto)
  then show ?thesis using Min_in [OF S] by (auto simp: succ_hash_def)
qed

lemma succ_hash_eqI:
  assumes "finite S" and "s \<in> S" and "x \<le> s \<and> (\<forall>y \<in> S. x \<le> y \<longrightarrow> s \<le> y) \<or> (\<forall>y \<in> S. y < x \<and> s \<le> y)"
  shows "succ_hash S x = s"
  using assms unfolding succ_hash_def by (auto intro!: Min_eqI simp: not_le)

lemma succ_hash_cases:
  assumes "finite S" "S \<noteq> {}"
  shows "x \<le> succ_hash S x \<and> (\<forall>y \<in> S. x \<le> y \<longrightarrow> succ_hash S x \<le> y) \<or> (\<forall>y \<in> S. y < x \<and> succ_hash S x \<le> y)"
proof (cases "\<exists>y \<in> S. x \<le> y")
  case True
  let ?T = "{y \<in> S. x \<le> y}"
  have "finite ?T" "?T \<noteq> {}" using assms True by auto
  from Min_in [OF this] Min_le [OF this(1)] show ?thesis using True by (auto simp: succ_hash_def)
next
  case False
  then show ?thesis using assms Min_le [OF assms(1)] by (auto simp: succ_hash_def not_le)
qed

lemma succ_hash_subset:
  assumes "finite T" "S \<subseteq> T" "succ_hash T x \<in> S"
  shows "succ_hash S x = succ_hash T x"
proof (rule succ_hash_eqI)
  have "T \<noteq> {}" using assms by auto
  from succ_hash_cases [OF assms(1) this, of x]
  show "x \<le> succ_hash T x \<and> (\<forall>y \<in> S. x \<le> y \<longrightarrow> succ_hash T x \<le> y) \<or> (\<forall>y \<in> S. y < x \<and> succ_hash T x \<le> y)"
    using assms(2) by blast
qed (use assms finite_subset in auto)

lemma position_find:
  assumes "sorted (hr_sortedHashes hr)" "hr_sortedHashes hr \<noteq> []"
  shows "position x hr < length (hr_sortedHashes hr)"
    "hr_sortedHashes hr ! position x hr =
      (case find (\<lambda>y. x \<le> y) (hr_sortedHashes hr) of Some y \<Rightarrow> y | None \<Rightarrow> hd (hr_sortedHashes hr))"
proof -
  let ?xs = "hr_sortedHashes hr" and ?n = "length (takeWhile (\<lambda>y. y < x) (hr_sortedHashes hr))"
  have pos: "position x hr = (if ?n = length ?xs then 0 else ?n)"
    by (simp add: position_def sortSearch_sorted [OF assms(1)] Let_def)
  show "position x hr < length ?xs"
    using pos assms(2) length_takeWhile_le [of "\<lambda>y. y < x" ?xs] by (auto simp: le_neq_implies_less)
  have "find (\<lambda>y. x \<le> y) xs = (let n = length (takeWhile (\<lambda>y. y < x) xs) in if n = length xs then None else Some (xs ! n))" for xs
    by (induction xs) (auto simp: Let_def)
  then show "?xs ! position x hr = (case find (\<lambda>y. x \<le> y) ?xs of Some y \<Rightarrow> y | None \<Rightarrow> hd ?xs)"
    using pos assms(2) by (simp add: Let_def hd_conv_nth)
qed

lemma position_succ:
  assumes "sorted (hr_sortedHashes hr)" "hr_sortedHashes hr \<noteq> []"
  shows "hr_sortedHashes hr ! position x hr = succ_hash (set (hr_sortedHashes hr)) x"
proof -
  let ?xs = "hr_sortedHashes hr"
  have "(case find (\<lambda>y. x \<le> y) xs of Some y \<Rightarrow> y | None \<Rightarrow> hd xs) = succ_hash (set xs) x" if "sorted xs" "xs \<noteq> []" for xs
  proof (cases "find (\<lambda>y. x \<le> y) xs")
    case None
    then have "\<forall>y \<in> set xs. y < x" by (auto simp: find_None_iff not_le)
    then show ?thesis using None that by (cases xs) (auto intro!: succ_hash_eqI [symmetric])
  next
    case (Some y)
    then have y: "y \<in> set xs" "x \<le> y" by (auto simp: find_Some_iff)
    have "y \<le> z" if "z \<in> set xs" "x \<le> z" for z
      using Some that \<open>sorted xs\<close> by (induction xs) (auto split: if_splits)
    then show ?thesis using Some y by (auto intro!: succ_hash_eqI [symmetric])
  qed
  then show ?thesis using assms position_find(2) by simp
qed

section \<open>Adding and removing nodes\<close>

definition node_hashes :: "hash \<Rightarrow> int \<Rightarrow> string \<Rightarrow> w64 set" where
  "node_hashes h n nodeID = (\<lambda>i. h (virtualKey nodeID i)) ` {0..<nat n}"

lemma addVirtuals_fields:
  "hr_nodes (addVirtuals h i hr) = hr_nodes hr" "hr_virtualNodes (addVirtuals h i hr) = hr_virtualNodes hr"
  "set (hr_sortedHashes (addVirtuals h i hr)) = set (hr_sortedHashes hr) \<union> node_hashes h (hr_virtualNodes hr) i"
  "gm_get (hr_ring (addVirtuals h i hr)) x =
     (if x \<in> node_hashes h (hr_virtualNodes hr) i then Some i else gm_get (hr_ring hr) x)"
proof -
  have "hr_nodes (fold (addVirtual h i) ks r) = hr_nodes r \<and> hr_virtualNodes (fold (addVirtual h i) ks r) = hr_virtualNodes r \<and>
      set (hr_sortedHashes (fold (addVirtual h i) ks r)) = set (hr_sortedHashes r) \<union> (\<lambda>k. h (virtualKey i k)) ` set ks \<and>
      gm_get (hr_ring (fold (addVirtual h i) ks r)) x =
        (if x \<in> (\<lambda>k. h (virtualKey i k)) ` set ks then Some i else gm_get (hr_ring r) x)" for ks r
    by (induction ks arbitrary: r) (auto simp: addVirtual_def)
  from this [of "[0..<nat (hr_virtualNodes hr)]" hr]
  show "hr_nodes (addVirtuals h i hr) = hr_nodes hr" "hr_virtualNodes (addVirtuals h i hr) = hr_virtualNodes hr"
    "set (hr_sortedHashes (addVirtuals h i hr)) = set (hr_sortedHashes hr) \<union> node_hashes h (hr_virtualNodes hr) i"
    "gm_get (hr_ring (addVirtuals h i hr)) x =
     (if x \<in> node_hashes h (hr_virtualNodes hr) i then Some i else gm_get (hr_ring hr) x)"
    by (simp_all add: addVirtuals_def node_hashes_def)
qed

lemma AddNode_fields:
  assumes "HR_AddNode h node hr = (None, hr')"
  shows "gm_get (hr_nodes hr) (nd_ID node) = None" "hr_nodes hr' = gm_put (nd_ID node) node (hr_nodes hr)"
    "hr_virtualNodes hr' = hr_virtualNodes hr" "sorted (hr_sortedHashes hr')"
    "set (hr_sortedHashes hr') = set (hr_sortedHashes hr) \<union> node_hashes h (hr_virtualNodes hr) (nd_ID node)"
    "gm_get (hr_ring hr') x = (if x \<in> node_hashes h (hr_virtualNodes hr) (nd_ID node) then Some (nd_ID node) else gm_get (hr_ring hr) x)"
proof -
  let ?r = "hr\<lparr>hr_nodes := gm_put (nd_ID node) node (hr_nodes hr)\<rparr>"
  show new: "gm_get (hr_nodes hr) (nd_ID node) = None" using assms by (auto simp: HR_AddNode_def split: if_splits)
  have hr': "hr' = sortHashes (addVirtuals h (nd_ID node) ?r)" using assms new by (simp add: HR_AddNode_def)
  show "hr_nodes hr' = gm_put (nd_ID node) node (hr_nodes hr)" "hr_virtualNodes hr' = hr_virtualNodes hr" "sorted (hr_sortedHashes hr')"
    "set (hr_sortedHashes hr') = set (hr_sortedHashes hr) \<union> node_hashes h (hr_virtualNodes hr) (nd_ID node)"
    "gm_get (hr_ring hr') x = (if x \<in> node_hashes h (hr_virtualNodes hr) (nd_ID node) then Some (nd_ID node) else gm_get (hr_ring hr) x)"
    by (simp_all add: hr' sortHashes_def addVirtuals_fields)
qed

lemma owner_del: "y \<noteq> x \<Longrightarrow> owner (gm_del x ring) y = owner ring y"
  by (simp add: owner_def)

lemma removeLoop_spec:
  assumes "distinct xs"
  shows "fst (removeLoop n xs ring) = filter (\<lambda>x. owner ring x \<noteq> n) xs \<and>
    gm_get (snd (removeLoop n xs ring)) = (\<lambda>y. if y \<in> set xs \<and> owner ring y = n then None else gm_get ring y)"
  using assms
proof (induction xs arbitrary: ring)
  case (Cons x xs)
  show ?case
  proof (cases "owner ring x = n")
    case True
    have own: "owner (gm_del x ring) y = owner ring y" if "y \<in> set xs" for y using Cons.prems that by (intro owner_del) auto
    then have "filter (\<lambda>y. owner (gm_del x ring) y \<noteq> n) xs = filter (\<lambda>y. owner ring y \<noteq> n) xs" by (intro filter_cong) simp_all
    then show ?thesis using Cons.IH [of "gm_del x ring"] Cons.prems True own by (auto simp: fun_eq_iff)
  next
    case False
    then show ?thesis using Cons.IH [of ring] Cons.prems by (auto simp: fun_eq_iff split: prod.splits)
  qed
qed simp

lemma RemoveNode_fields:
  assumes "HR_RemoveNode n hr = (None, hr')" and "distinct (hr_sortedHashes hr)"
  shows "gm_get (hr_nodes hr) n \<noteq> None" "hr_nodes hr' = gm_del n (hr_nodes hr)" "hr_virtualNodes hr' = hr_virtualNodes hr"
    "hr_sortedHashes hr' = filter (\<lambda>x. owner (hr_ring hr) x \<noteq> n) (hr_sortedHashes hr)"
    "gm_get (hr_ring hr') x = (if x \<in> set (hr_sortedHashes hr) \<and> owner (hr_ring hr) x = n then None else gm_get (hr_ring hr) x)"
  using assms removeLoop_spec [OF assms(2), of n "hr_ring hr"]
  by (auto simp: HR_RemoveNode_def Let_def split: if_splits prod.splits)

text \<open>A ring as the operations build it: the sorted hashes are those of the ring map.\<close>

definition ring_wf :: "HashRing \<Rightarrow> bool" where
  "ring_wf hr = (sorted (hr_sortedHashes hr) \<and> set (hr_sortedHashes hr) = dom (gm_get (hr_ring hr)))"

lemma GetNode_succ:
  assumes "ring_wf hr"
  shows "HR_GetNode h key hr =
    (if hr_sortedHashes hr = [] then Inl ''no nodes available''
     else Inr (owner (hr_ring hr) (succ_hash (set (hr_sortedHashes hr)) (h key))))"
  using assms position_succ [of hr "h key"] by (simp add: HR_GetNode_def ring_wf_def)

lemma GetNode_add:
  assumes wf: "ring_wf hr" and add: "HR_AddNode h node hr = (None, hr')" and before: "HR_GetNode h key hr = Inr m"
  shows "HR_GetNode h key hr' = Inr m \<or> HR_GetNode h key hr' = Inr (nd_ID node)"
proof -
  let ?N = "node_hashes h (hr_virtualNodes hr) (nd_ID node)" and ?S = "set (hr_sortedHashes hr)" and ?S' = "set (hr_sortedHashes hr')"
  note f = AddNode_fields [OF add]
  have wf': "ring_wf hr'" using wf f(4,5,6) by (auto simp: ring_wf_def dom_def)
  have ne: "hr_sortedHashes hr \<noteq> []" "?S' \<noteq> {}" "hr_sortedHashes hr' \<noteq> []"
    using before f(5) by (auto simp: HR_GetNode_def split: if_splits)
  have owner': "owner (hr_ring hr') x = (if x \<in> ?N then nd_ID node else owner (hr_ring hr) x)" for x
    by (simp add: owner_def f(6))
  show ?thesis
  proof (cases "succ_hash ?S' (h key) \<in> ?N")
    case True
    then show ?thesis using GetNode_succ [OF wf'] ne by (simp add: owner')
  next
    case False
    then have "succ_hash ?S' (h key) \<in> ?S" using succ_hash_in [of ?S' "h key"] ne f(5) by auto
    then have "succ_hash ?S (h key) = succ_hash ?S' (h key)" using f(5) by (intro succ_hash_subset) auto
    then show ?thesis using GetNode_succ [OF wf'] GetNode_succ [OF wf] before ne False by (simp add: owner')
  qed
qed

lemma GetNode_remove:
  assumes wf: "ring_wf hr" and rm: "HR_RemoveNode n hr = (None, hr')" and dist: "distinct (hr_sortedHashes hr)"
    and before: "HR_GetNode h key hr = Inr m" and other: "m \<noteq> n"
  shows "HR_GetNode h key hr' = Inr m"
proof -
  let ?S = "set (hr_sortedHashes hr)" and ?S' = "set (hr_sortedHashes hr')"
  note f = RemoveNode_fields [OF rm dist]
  have wf': "ring_wf hr'" using wf f(4,5) by (auto simp: ring_wf_def dom_def owner_def intro: sorted_wrt_filter split: option.splits)
  have ne: "?S \<noteq> {}" using before by (auto simp: HR_GetNode_def split: if_splits)
  let ?s = "succ_hash ?S (h key)"
  have m: "owner (hr_ring hr) ?s = m" using GetNode_succ [OF wf] before ne by (auto split: if_splits)
  have s: "?s \<in> ?S'" using succ_hash_in [OF _ ne] m other f(4) by auto
  have eq: "succ_hash ?S' (h key) = ?s" using f(4) s by (intro succ_hash_subset) auto
  have "owner (hr_ring hr') ?s = m" using m other by (simp add: owner_def f(5))
  then show ?thesis using GetNode_succ [OF wf'] eq s by auto
qed

section \<open>Replica sets\<close>

text \<open>First occurrences in a list, leaving out what was seen before.\<close>

fun fresh_from :: "'a list \<Rightarrow> 'a list \<Rightarrow> 'a list" where
  "fresh_from seen [] = []"
| "fresh_from seen (x # xs) = (if x \<in> set seen then fresh_from seen xs else x # fresh_from (seen @ [x]) xs)"

lemma fresh_from_set: "set (fresh_from seen xs) = set xs - set seen"
  by (induction seen xs rule: fresh_from.induct) auto

lemma fresh_from_distinct: "distinct (fresh_from seen xs)"
  by (induction seen xs rule: fresh_from.induct) (auto simp: fresh_from_set)

lemma fresh_from_none: "set xs \<subseteq> set seen \<Longrightarrow> fresh_from seen xs = []"
  by (induction seen xs rule: fresh_from.induct) auto

text \<open>The owners of the ring's hashes in clockwise order from a position.\<close>

definition walk :: "nat \<Rightarrow> HashRing \<Rightarrow> string list" where
  "walk idx hr = rotate idx (map (owner (hr_ring hr)) (hr_sortedHashes hr))"

lemma getNodesLoop_spec:
  assumes "\<forall>k < length ws. owner (hr_ring hr) (hr_sortedHashes hr ! ((idx + k) mod length (hr_sortedHashes hr))) = ws ! k"
    and "idx < length (hr_sortedHashes hr)" and "distinct unique"
    and "set unique \<union> set ws = dom (gm_get (hr_nodes hr))" and "gm_ok (hr_nodes hr)"
  shows "getNodesLoop hr c idx unique result = Some (result @ take (c - length result) (filter (is_active hr) (fresh_from unique ws)))"
  using assms(1-4)
proof (induction ws arbitrary: idx unique result)
  case Nil
  then have "length unique = length (hr_nodes hr)" using assms(5) by (metis Un_empty_right distinct_card gm_length_dom set_empty2)
  then show ?case by (subst getNodesLoop.simps) simp
next
  case (Cons w ws)
  let ?n = "length (hr_sortedHashes hr)"
  have w: "owner (hr_ring hr) (hr_sortedHashes hr ! idx) = w" using Cons.prems(1,2) by force
  consider "c \<le> length result" | "length (hr_nodes hr) \<le> length unique" "length result < c"
    | "length result < c" "length unique < length (hr_nodes hr)" by linarith
  then show ?case
  proof cases
    case 1
    then show ?thesis by (subst getNodesLoop.simps) simp
  next
    case 2
    have "card (set unique) = length unique" using Cons.prems(3) by (rule distinct_card)
    then have "card (dom (gm_get (hr_nodes hr))) \<le> card (set unique)" using 2(1) gm_length_dom [OF assms(5)] by simp
    then have "set unique = dom (gm_get (hr_nodes hr))"
      using Cons.prems(4) by (intro card_seteq) (auto simp: finite_dom_map_of)
    then have "fresh_from unique (w # ws) = []" using Cons.prems(4) by (intro fresh_from_none) auto
    then show ?thesis using 2 by (subst getNodesLoop.simps) (simp del: fresh_from.simps)
  next
    case 3
    let ?idx = "(idx + 1) mod ?n"
    have shift: "owner (hr_ring hr) (hr_sortedHashes hr ! ((?idx + k) mod ?n)) = ws ! k" if "k < length ws" for k
    proof -
      have "(?idx + k) mod ?n = (idx + Suc k) mod ?n" by (simp add: mod_add_left_eq)
      then show ?thesis using Cons.prems(1) that by (metis Suc_mono length_Cons nth_Cons_Suc)
    qed
    have idx: "?idx < ?n" using Cons.prems(2) by (intro mod_less_divisor) linarith
    have step: "getNodesLoop hr c idx unique result = getNodesLoop hr c ?idx (if w \<in> set unique then unique else unique @ [w])
        (if w \<notin> set unique \<and> is_active hr w then result @ [w] else result)"
      using 3 Cons.prems(2) w by (subst getNodesLoop.simps) (simp add: Let_def)
    show ?thesis
    proof (cases "w \<in> set unique")
      case True
      have "set unique \<union> set ws = dom (gm_get (hr_nodes hr))" using Cons.prems(4) True by auto
      then show ?thesis using Cons.IH [of ?idx unique result] shift idx Cons.prems(3) True step by simp
    next
      case False
      let ?result = "if is_active hr w then result @ [w] else result"
      have "getNodesLoop hr c ?idx (unique @ [w]) ?result =
          Some (?result @ take (c - length ?result) (filter (is_active hr) (fresh_from (unique @ [w]) ws)))"
        by (rule Cons.IH) (use shift idx Cons.prems(3,4) False in auto)
      moreover obtain m where "c - length result = Suc m" "c - Suc (length result) = m" using 3(1) by (metis Suc_diff_Suc)
      ultimately show ?thesis using False step by simp
    qed
  qed
qed

lemma walk_nth:
  assumes "k < length (hr_sortedHashes hr)"
  shows "owner (hr_ring hr) (hr_sortedHashes hr ! ((idx + k) mod length (hr_sortedHashes hr))) = walk idx hr ! k"
proof -
  have "(idx + k) mod length (hr_sortedHashes hr) < length (hr_sortedHashes hr)" using assms by (intro mod_less_divisor) linarith
  then show ?thesis using assms by (simp add: walk_def nth_rotate)
qed

text \<open>Every node owns a hash, and every hash belongs to a node.\<close>

definition ring_covers :: "HashRing \<Rightarrow> bool" where
  "ring_covers hr = (ring_wf hr \<and> gm_ok (hr_nodes hr) \<and>
     set (map (owner (hr_ring hr)) (hr_sortedHashes hr)) = dom (gm_get (hr_nodes hr)))"

lemma GetNodes_spec:
  assumes "ring_covers hr" and "hr_nodes hr \<noteq> []"
  shows "HR_GetNodes h key count hr =
    (let r = take (nat (max 1 count)) (filter (is_active hr) (fresh_from [] (walk (position (h key) hr) hr)))
     in Some (if r = [] then Inl ''no active nodes available'' else Inr r))"
proof -
  let ?xs = "hr_sortedHashes hr" and ?idx = "position (h key) hr" and ?c = "if count \<le> 0 then 1 else nat count"
  have "dom (gm_get (hr_nodes hr)) \<noteq> {}" using assms(2) by (cases "hr_nodes hr") auto
  then have ne: "?xs \<noteq> []" using assms(1) unfolding ring_covers_def by (metis list.set(1) list.simps(8))
  have idx: "?idx < length ?xs" using assms(1) ne by (intro position_find(1)) (auto simp: ring_covers_def ring_wf_def)
  have "getNodesLoop hr ?c ?idx [] [] =
      Some ([] @ take (?c - length ([] :: string list)) (filter (is_active hr) (fresh_from [] (walk ?idx hr))))"
  proof (rule getNodesLoop_spec)
    show "\<forall>k < length (walk ?idx hr). owner (hr_ring hr) (?xs ! ((?idx + k) mod length ?xs)) = walk ?idx hr ! k"
      using walk_nth [of _ hr ?idx] by (simp add: walk_def)
    show "set [] \<union> set (walk ?idx hr) = dom (gm_get (hr_nodes hr))" using assms(1) by (simp add: walk_def ring_covers_def)
  qed (use idx assms(1) in \<open>simp_all add: ring_covers_def\<close>)
  moreover have "?c = nat (max 1 count)" by auto
  ultimately show ?thesis using assms(2) by (simp add: HR_GetNodes_def Let_def)
qed

section \<open>Hash ranges\<close>

definition in_range :: "w64 \<Rightarrow> KeyRange \<Rightarrow> bool" where
  "in_range x r = (if kr_Start r \<le> kr_End r then kr_Start r \<le> x \<and> x \<le> kr_End r else kr_Start r \<le> x \<or> x \<le> kr_End r)"

lemma word_suc_le: "(a :: w64) < b \<Longrightarrow> a + 1 \<le> x \<longleftrightarrow> a < x"
  by (auto simp: inc_less_eq_iff)

lemma rangesFrom_tail:
  assumes "sorted (p # xs)" and "distinct (p # xs)"
  shows "(\<exists>r \<in> set (rangesFrom n ring (p + 1) xs). in_range x r) \<longleftrightarrow>
    p < x \<and> (\<exists>y \<in> set xs. owner ring y = n \<and> x \<le> y \<and> (\<forall>z \<in> set xs. x \<le> z \<longrightarrow> y \<le> z))"
  using assms
proof (induction xs arbitrary: p)
  case (Cons y ys)
  have py: "p < y" using Cons.prems by auto
  have range: "in_range x \<lparr>kr_Start = p + 1, kr_End = y\<rparr> \<longleftrightarrow> p < x \<and> x \<le> y"
    using word_suc_le [OF py] py by (simp add: in_range_def)
  have IH: "(\<exists>r \<in> set (rangesFrom n ring (y + 1) ys). in_range x r) \<longleftrightarrow>
      y < x \<and> (\<exists>z \<in> set ys. owner ring z = n \<and> x \<le> z \<and> (\<forall>w \<in> set ys. x \<le> w \<longrightarrow> z \<le> w))"
    by (rule Cons.IH) (use Cons.prems in auto)
  have le: "\<forall>z \<in> set ys. y < z" using Cons.prems by (auto simp: order_less_le)
  show ?case
  proof (cases "x \<le> y")
    case True
    then have "\<not> y < x" by simp
    moreover have "(\<exists>z \<in> set (y # ys). owner ring z = n \<and> x \<le> z \<and> (\<forall>w \<in> set (y # ys). x \<le> w \<longrightarrow> z \<le> w)) \<longleftrightarrow> owner ring y = n"
      using True le by (force simp: order_less_le)
    ultimately show ?thesis using IH range True by auto
  next
    case False
    then show ?thesis using IH range py by auto
  qed
qed simp

lemma ranges_succ:
  assumes "sorted xs" "distinct xs" "1 < length xs"
  shows "(\<exists>r \<in> set (rangesFrom n ring (last xs + 1) xs). in_range x r) \<longleftrightarrow> owner ring (succ_hash (set xs) x) = n"
proof -
  obtain y ys where xs: "xs = y # ys" "ys \<noteq> []" using assms(3) by (cases xs) (auto simp: Suc_lessI)
  have le: "\<forall>z \<in> set ys. y < z" using assms xs by (auto simp: order_less_le)
  have "sorted (butlast ys @ [last ys])" using assms(1) xs by simp
  then have "\<forall>z \<in> set (butlast ys @ [last ys]). z \<le> last ys" by (auto simp: sorted_append)
  then have last: "last ys \<in> set ys" "y < last ys" "\<forall>z \<in> set xs. z \<le> last ys"
    using xs le by (auto simp: order_less_le)
  have range: "in_range x \<lparr>kr_Start = last ys + 1, kr_End = y\<rparr> \<longleftrightarrow> x \<le> y \<or> last ys < x"
  proof (cases "last ys = -1")
    case True
    then show ?thesis by (auto simp: in_range_def)
  next
    case False
    then have "last ys + 1 \<le> x \<longleftrightarrow> last ys < x" "\<not> last ys + 1 \<le> y" using last(2) by (auto simp: inc_less_eq_iff)
    then show ?thesis by (auto simp: in_range_def)
  qed
  have tail: "(\<exists>r \<in> set (rangesFrom n ring (y + 1) ys). in_range x r) \<longleftrightarrow>
      y < x \<and> (\<exists>z \<in> set ys. owner ring z = n \<and> x \<le> z \<and> (\<forall>w \<in> set ys. x \<le> w \<longrightarrow> z \<le> w))"
    by (rule rangesFrom_tail) (use assms xs in auto)
  show ?thesis
  proof (cases "x \<le> y \<or> last ys < x")
    case True
    have "succ_hash (set xs) x = y"
      by (rule succ_hash_eqI) (use True le last xs in \<open>auto simp: order_less_le\<close>)
    moreover have "\<not> (\<exists>r \<in> set (rangesFrom n ring (y + 1) ys). in_range x r)" unfolding tail using True last(1) xs(1) last(3) by force
    ultimately show ?thesis using range True xs by auto
  next
    case False
    let ?s = "succ_hash (set xs) x"
    have "x \<le> ?s \<and> (\<forall>z \<in> set xs. x \<le> z \<longrightarrow> ?s \<le> z)"
      using succ_hash_cases [of "set xs" x] False last(1) xs by auto
    moreover have "?s \<in> set xs" using xs by (intro succ_hash_in) auto
    ultimately have s: "?s \<in> set ys" "x \<le> ?s" "\<forall>z \<in> set ys. x \<le> z \<longrightarrow> ?s \<le> z" using False xs by auto
    then have "(\<exists>z \<in> set ys. owner ring z = n \<and> x \<le> z \<and> (\<forall>w \<in> set ys. x \<le> w \<longrightarrow> z \<le> w)) \<longleftrightarrow> owner ring ?s = n"
      by (metis order_antisym)
    then show ?thesis using tail range False xs by auto
  qed
qed

section \<open>Rings built by the operations\<close>

datatype ring_op = AddOp Node | RemoveOp string | StatusOp string NodeStatus | LoadOp string int

fun ring_step :: "hash \<Rightarrow> ring_op \<Rightarrow> HashRing \<Rightarrow> HashRing" where
  "ring_step h (AddOp node) hr = snd (HR_AddNode h node hr)"
| "ring_step h (RemoveOp nodeID) hr = snd (HR_RemoveNode nodeID hr)"
| "ring_step h (StatusOp nodeID status) hr = snd (HR_UpdateNodeStatus nodeID status hr)"
| "ring_step h (LoadOp nodeID load) hr = snd (HR_UpdateNodeLoad nodeID load hr)"

definition ring_run :: "hash \<Rightarrow> int \<Rightarrow> ring_op list \<Rightarrow> HashRing" where
  "ring_run h n ops = fold (ring_step h) ops (NewHashRing n)"

fun op_ids :: "ring_op list \<Rightarrow> string list" where
  "op_ids (AddOp node # ops) = nd_ID node # op_ids ops"
| "op_ids (op # ops) = op_ids ops"
| "op_ids [] = []"

text \<open>No two virtual nodes of the given identifiers have the same hash.\<close>

definition no_collisions :: "hash \<Rightarrow> int \<Rightarrow> string list \<Rightarrow> bool" where
  "no_collisions h n ids = distinct (concat (map (\<lambda>i. map (\<lambda>k. h (virtualKey i k)) [0..<nat n]) (remdups ids)))"

text \<open>The ring is the union of the virtual nodes of its members.\<close>

definition ring_rep :: "hash \<Rightarrow> HashRing \<Rightarrow> bool" where
  "ring_rep h hr = (sorted (hr_sortedHashes hr) \<and> distinct (hr_sortedHashes hr) \<and> 0 < hr_virtualNodes hr \<and> gm_ok (hr_nodes hr) \<and>
     set (hr_sortedHashes hr) = dom (gm_get (hr_ring hr)) \<and>
     (\<forall>x i. gm_get (hr_ring hr) x = Some i \<longleftrightarrow> i \<in> dom (gm_get (hr_nodes hr)) \<and> x \<in> node_hashes h (hr_virtualNodes hr) i))"

lemma ring_repD:
  assumes "ring_rep h hr"
  shows "sorted (hr_sortedHashes hr)" "distinct (hr_sortedHashes hr)" "0 < hr_virtualNodes hr" "gm_ok (hr_nodes hr)"
    "set (hr_sortedHashes hr) = dom (gm_get (hr_ring hr))"
    "gm_get (hr_ring hr) x = Some i \<longleftrightarrow> i \<in> dom (gm_get (hr_nodes hr)) \<and> x \<in> node_hashes h (hr_virtualNodes hr) i"
  using assms by (simp_all add: ring_rep_def)

lemma no_collisions_distinct:
  assumes "no_collisions h n ids" "i \<in> set ids"
  shows "distinct (map (\<lambda>k. h (virtualKey i k)) [0..<nat n])"
  using assms unfolding no_collisions_def by (auto simp: distinct_concat_iff)

lemma no_collisions_disjoint:
  assumes "no_collisions h n ids" "i \<in> set ids" "j \<in> set ids" "i \<noteq> j"
  shows "node_hashes h n i \<inter> node_hashes h n j = {}"
proof -
  have "distinct (concat (map (\<lambda>i. map (\<lambda>k. h (virtualKey i k)) [0..<nat n]) js)) \<Longrightarrow> i \<in> set js \<Longrightarrow> j \<in> set js \<Longrightarrow> ?thesis" for js
  proof (induction js)
    case (Cons a js)
    then show ?case using assms(4) by (auto simp: node_hashes_def)
  qed simp
  from this [of "remdups ids"] show ?thesis using assms by (simp add: no_collisions_def)
qed

lemma AddNode_hashes:
  assumes "HR_AddNode h node hr = (None, hr')"
  shows "hr_sortedHashes hr' = sort (hr_sortedHashes hr @ map (\<lambda>k. h (virtualKey (nd_ID node) k)) [0..<nat (hr_virtualNodes hr)])"
proof -
  have "hr_sortedHashes (fold (addVirtual h i) ks r) = hr_sortedHashes r @ map (\<lambda>k. h (virtualKey i k)) ks" for i ks r
    by (induction ks arbitrary: r) (auto simp: addVirtual_def)
  then show ?thesis using assms by (auto simp: HR_AddNode_def sortHashes_def addVirtuals_def split: if_splits)
qed

lemma ring_rep_new: "ring_rep h (NewHashRing n)"
  by (auto simp: ring_rep_def NewHashRing_def)

lemma ring_rep_add:
  assumes rep: "ring_rep h hr" and add: "HR_AddNode h node hr = (None, hr')"
    and nc: "no_collisions h (hr_virtualNodes hr) ids" "nd_ID node \<in> set ids" "dom (gm_get (hr_nodes hr)) \<subseteq> set ids"
  shows "ring_rep h hr'"
proof -
  note f = AddNode_fields [OF add]
  let ?n = "hr_virtualNodes hr" and ?i = "nd_ID node"
  have disj: "x \<notin> node_hashes h ?n ?i" if "gm_get (hr_ring hr) x = Some j" for x j
  proof -
    have j: "j \<in> dom (gm_get (hr_nodes hr))" "x \<in> node_hashes h ?n j" using rep that by (auto simp: ring_rep_def)
    then have "node_hashes h ?n j \<inter> node_hashes h ?n ?i = {}" by (intro no_collisions_disjoint [OF nc(1)]) (use nc f(1) in auto)
    then show ?thesis using j by blast
  qed
  have "set (hr_sortedHashes hr) = dom (gm_get (hr_ring hr))" "distinct (hr_sortedHashes hr)" using rep by (simp_all add: ring_rep_def)
  then have old: "set (hr_sortedHashes hr) \<inter> node_hashes h ?n ?i = {}" "distinct (hr_sortedHashes hr)" using disj by auto
  have new: "set (map (\<lambda>k. h (virtualKey ?i k)) [0..<nat ?n]) = node_hashes h ?n ?i" by (simp add: node_hashes_def)
  have "distinct (hr_sortedHashes hr')"
    unfolding AddNode_hashes [OF add] distinct_sort distinct_append new using no_collisions_distinct [OF nc(1,2)] old by simp
  moreover have "gm_get (hr_ring hr') x = Some j \<longleftrightarrow> j \<in> dom (gm_get (hr_nodes hr')) \<and> x \<in> node_hashes h (hr_virtualNodes hr') j" for x j
  proof (cases "x \<in> node_hashes h ?n ?i")
    case True
    have "j = ?i" if "j \<in> dom (gm_get (hr_nodes hr))" "x \<in> node_hashes h ?n j"
      using no_collisions_disjoint [OF nc(1), of j ?i] nc(2,3) that True by blast
    then show ?thesis using True by (auto simp: f(2,3,6) update_conv')
  next
    case False
    then show ?thesis using rep f(1) by (auto simp: f(2,3,6) update_conv' ring_rep_def)
  qed
  moreover have "set (hr_sortedHashes hr') = dom (gm_get (hr_ring hr'))" using rep by (auto simp: f(5,6) ring_rep_def)
  moreover have "gm_ok (hr_nodes hr')" using rep by (simp add: f(2) ring_rep_def distinct_update)
  ultimately show ?thesis using rep f(3,4) by (simp add: ring_rep_def)
qed

lemma ring_rep_wf: "ring_rep h hr \<Longrightarrow> ring_wf hr"
  by (simp add: ring_rep_def ring_wf_def)

lemma ring_rep_covers:
  assumes "ring_rep h hr"
  shows "ring_covers hr"
proof -
  have "owner (hr_ring hr) ` set (hr_sortedHashes hr) = dom (gm_get (hr_nodes hr))"
  proof (intro equalityI subsetI)
    fix i assume "i \<in> dom (gm_get (hr_nodes hr))"
    moreover have "h (virtualKey i 0) \<in> node_hashes h (hr_virtualNodes hr) i" using assms by (auto simp: node_hashes_def ring_rep_def)
    ultimately have "gm_get (hr_ring hr) (h (virtualKey i 0)) = Some i" using assms by (simp add: ring_rep_def)
    moreover have "set (hr_sortedHashes hr) = dom (gm_get (hr_ring hr))" using assms by (simp add: ring_rep_def)
    ultimately show "i \<in> owner (hr_ring hr) ` set (hr_sortedHashes hr)"
      by (intro image_eqI [of _ _ "h (virtualKey i 0)"]) (auto simp: owner_def)
  next
    fix i assume "i \<in> owner (hr_ring hr) ` set (hr_sortedHashes hr)"
    moreover have "set (hr_sortedHashes hr) = dom (gm_get (hr_ring hr))" using assms by (simp add: ring_rep_def)
    ultimately obtain x where "gm_get (hr_ring hr) x = Some i" by (auto simp: owner_def)
    then show "i \<in> dom (gm_get (hr_nodes hr))" using assms by (simp add: ring_rep_def)
  qed
  then show ?thesis using assms by (simp add: ring_covers_def ring_rep_wf) (simp add: ring_rep_def)
qed

lemma ring_rep_remove:
  assumes rep: "ring_rep h hr" and rm: "HR_RemoveNode n hr = (None, hr')"
  shows "ring_rep h hr'"
proof -
  have dist: "distinct (hr_sortedHashes hr)" using rep by (simp add: ring_rep_def)
  note f = RemoveNode_fields [OF rm dist]
  have own: "x \<in> set (hr_sortedHashes hr) \<and> owner (hr_ring hr) x = n \<longleftrightarrow> gm_get (hr_ring hr) x = Some n" for x
    using ring_repD(5) [OF rep] by (auto simp: owner_def)
  have ring: "gm_get (hr_ring hr') x = (if gm_get (hr_ring hr) x = Some n then None else gm_get (hr_ring hr) x)" for x
    unfolding f(5) own ..
  have "gm_get (hr_ring hr') x = Some j \<longleftrightarrow> j \<in> dom (gm_get (hr_nodes hr')) \<and> x \<in> node_hashes h (hr_virtualNodes hr') j" for x j
  proof (cases "j = n")
    case False
    then show ?thesis using ring_repD(6) [OF rep, of x j] ring_repD(6) [OF rep, of x n] by (auto simp: ring f(2,3) delete_conv')
  qed (auto simp: ring f(2) delete_conv')
  moreover have "set (hr_sortedHashes hr') = dom (gm_get (hr_ring hr'))"
    using ring_repD(5) [OF rep] by (auto simp: f(4) ring owner_def split: if_splits)
  moreover have "gm_ok (hr_nodes hr')" using rep by (simp add: f(2) ring_rep_def distinct_delete)
  ultimately show ?thesis using rep f(3) by (simp add: ring_rep_def f(4) sorted_wrt_filter)
qed

lemma ring_step_ids: "dom (gm_get (hr_nodes (ring_step h op hr))) \<subseteq> dom (gm_get (hr_nodes hr)) \<union> set (op_ids [op])"
proof (cases op)
  case (RemoveOp i)
  then show ?thesis by (auto simp: HR_RemoveNode_def Let_def delete_conv' split: prod.splits if_splits)
qed (auto simp: HR_AddNode_def sortHashes_def addVirtuals_fields HR_UpdateNodeStatus_def HR_UpdateNodeLoad_def update_conv'
       split: if_splits option.splits)

lemma ring_step_rep:
  assumes "ring_rep h hr" "no_collisions h (hr_virtualNodes hr) ids" "dom (gm_get (hr_nodes hr)) \<subseteq> set ids" "set (op_ids [op]) \<subseteq> set ids"
  shows "ring_rep h (ring_step h op hr) \<and> hr_virtualNodes (ring_step h op hr) = hr_virtualNodes hr"
proof (cases op)
  case (AddOp node)
  show ?thesis
  proof (cases "HR_AddNode h node hr")
    case (Pair e hr')
    show ?thesis
    proof (cases e)
      case None
      then show ?thesis using ring_rep_add [of h hr node hr' ids] AddNode_fields(3) [of h node hr hr'] assms AddOp Pair by simp
    next
      case (Some msg)
      then have "hr' = hr" using Pair by (auto simp: HR_AddNode_def split: if_splits)
      then show ?thesis using assms AddOp Pair by simp
    qed
  qed
next
  case (RemoveOp n)
  show ?thesis
  proof (cases "HR_RemoveNode n hr")
    case (Pair e hr')
    show ?thesis
    proof (cases e)
      case None
      then show ?thesis using ring_rep_remove [of h hr n hr'] RemoveNode_fields(3) [of n hr hr'] assms RemoveOp Pair
        by (simp add: ring_rep_def)
    next
      case (Some msg)
      then have "hr' = hr" using Pair by (auto simp: HR_RemoveNode_def Let_def split: if_splits prod.splits)
      then show ?thesis using assms RemoveOp Pair by simp
    qed
  qed
next
  case (StatusOp n st)
  then show ?thesis using assms
    by (auto simp: HR_UpdateNodeStatus_def ring_rep_def update_conv' distinct_update split: option.splits)
next
  case (LoadOp n l)
  then show ?thesis using assms
    by (auto simp: HR_UpdateNodeLoad_def ring_rep_def update_conv' distinct_update split: option.splits)
qed

lemma op_ids_Cons: "set (op_ids (op # ops)) = set (op_ids [op]) \<union> set (op_ids ops)"
  by (cases op) auto

lemma ring_run_rep:
  assumes "no_collisions h (hr_virtualNodes (NewHashRing n)) (op_ids ops)"
  shows "ring_rep h (ring_run h n ops)"
proof -
  have "ring_rep h (fold (ring_step h) qs r)"
    if "ring_rep h r" "hr_virtualNodes r = hr_virtualNodes (NewHashRing n)" "dom (gm_get (hr_nodes r)) \<subseteq> set (op_ids ops)"
       "set (op_ids qs) \<subseteq> set (op_ids ops)" for qs r
    using that
  proof (induction qs arbitrary: r)
    case (Cons q qs)
    have q: "set (op_ids [q]) \<subseteq> set (op_ids ops)" "set (op_ids qs) \<subseteq> set (op_ids ops)" using Cons.prems(4) op_ids_Cons [of q qs] by auto
    have "ring_rep h (ring_step h q r) \<and> hr_virtualNodes (ring_step h q r) = hr_virtualNodes r"
      by (rule ring_step_rep [of h r "op_ids ops"]) (use Cons.prems q assms in auto)
    moreover have "dom (gm_get (hr_nodes (ring_step h q r))) \<subseteq> set (op_ids ops)"
      using ring_step_ids [of h q r] Cons.prems(3) q(1) by blast
    ultimately show ?case using Cons.IH [of "ring_step h q r"] Cons.prems(2) q(2) by simp
  qed simp
  then show ?thesis unfolding ring_run_def using ring_rep_new by (simp add: NewHashRing_def)
qed

section \<open>Properties of the ring\<close>

text \<open>A small hash function and nodes for the examples.\<close>

definition sample_hash :: hash where
  "sample_hash key = fold (\<lambda>c a. a * 256 + word_of_nat (of_char c)) key 0"

definition sample_node :: "string \<Rightarrow> Node" where
  "sample_node i = \<lparr>nd_ID = i, nd_Address = i, nd_Port = 0, nd_Weight = 1, nd_Capacity = 0, nd_Load = 0, nd_Shards = [],
     nd_Metadata = [], nd_Status = NodeStatusActive, nd_LastSeen = 0\<rparr>"

definition sample_ops :: "ring_op list" where
  "sample_ops = [AddOp (sample_node ''b''), AddOp (sample_node ''d''), AddOp (sample_node ''f''), RemoveOp ''d'']"

text \<open>
  C13. The ring never depends on its history: after any sequence of additions, removals and
  status or load updates whose virtual nodes do not collide, the hash list is sorted and
  duplicate free, and the ring maps exactly the hashes of the virtual nodes of the present members
  to their member.
\<close>

theorem ring_history_independent:
  assumes "no_collisions h (hr_virtualNodes (NewHashRing n)) (op_ids ops)" and "hr = ring_run h n ops"
  shows "sorted (hr_sortedHashes hr) \<and> distinct (hr_sortedHashes hr) \<and>
    set (hr_sortedHashes hr) = (\<Union>i \<in> dom (gm_get (hr_nodes hr)). node_hashes h (hr_virtualNodes hr) i) \<and>
    (gm_get (hr_ring hr) x = Some i \<longleftrightarrow> i \<in> dom (gm_get (hr_nodes hr)) \<and> x \<in> node_hashes h (hr_virtualNodes hr) i)"
proof -
  have rep: "ring_rep h hr" using ring_run_rep [OF assms(1)] assms(2) by simp
  have "set (hr_sortedHashes hr) = {x. \<exists>i. gm_get (hr_ring hr) x = Some i}" unfolding ring_repD(5) [OF rep] by auto
  also have "\<dots> = (\<Union>i \<in> dom (gm_get (hr_nodes hr)). node_hashes h (hr_virtualNodes hr) i)" unfolding ring_repD(6) [OF rep] by auto
  finally show ?thesis using ring_repD [OF rep] by simp
qed

theorem ring_history_independent_witness:
  "no_collisions sample_hash (hr_virtualNodes (NewHashRing 2)) (op_ids sample_ops) \<and>
   hr_sortedHashes (ring_run sample_hash 2 sample_ops) = map sample_hash [''b:0'', ''b:1'', ''f:0'', ''f:1''] \<and>
   sorted (hr_sortedHashes (ring_run sample_hash 2 sample_ops))"
proof -
  have nc: "no_collisions sample_hash (hr_virtualNodes (NewHashRing 2)) (op_ids sample_ops)" by code_simp
  have "hr_sortedHashes (ring_run sample_hash 2 sample_ops) = map sample_hash [''b:0'', ''b:1'', ''f:0'', ''f:1'']" by code_simp
  then show ?thesis using nc ring_history_independent [OF nc refl] by simp
qed

text \<open>
  C14. The binary search with wrap-around of \<open>GetNode\<close> returns the owner of the first hash at or
  after the key's hash in a left-to-right scan of the sorted hashes, and of the first hash of all
  when there is none, on every sorted ring.
\<close>

theorem GetNode_linear_scan:
  assumes "sorted (hr_sortedHashes hr)"
  shows "HR_GetNode h key hr =
    (case hr_sortedHashes hr of
       [] \<Rightarrow> Inl ''no nodes available''
     | first # rest \<Rightarrow> Inr (owner (hr_ring hr) (case find (\<lambda>y. h key \<le> y) (first # rest) of None \<Rightarrow> first | Some y \<Rightarrow> y)))"
proof (cases "hr_sortedHashes hr")
  case (Cons first rest)
  then show ?thesis using position_find(2) [OF assms, of "h key"] by (simp add: HR_GetNode_def split: option.splits)
qed (simp add: HR_GetNode_def)

theorem GetNode_linear_scan_witness:
  "sorted (hr_sortedHashes (ring_run sample_hash 2 sample_ops)) \<and>
   HR_GetNode sample_hash ''c:0'' (ring_run sample_hash 2 sample_ops) = Inr ''f'' \<and>
   HR_GetNode sample_hash ''x:0'' (ring_run sample_hash 2 sample_ops) = Inr ''b''"
proof -
  have sorted: "sorted (hr_sortedHashes (ring_run sample_hash 2 sample_ops))" by code_simp
  show ?thesis unfolding GetNode_linear_scan [OF sorted] by code_simp
qed

text \<open>
  C15. Consistent hashing moves as few keys as possible: adding a node changes the owner of a key
  only to the new node, and removing a node changes the owner only of the keys that node had.
\<close>

theorem few_keys_move:
  assumes "no_collisions h (hr_virtualNodes (NewHashRing n)) (op_ids ops)" and "hr = ring_run h n ops"
    and "HR_GetNode h key hr = Inr m"
  shows "(HR_AddNode h node hr = (None, hr') \<longrightarrow> HR_GetNode h key hr' \<in> {Inr m, Inr (nd_ID node)}) \<and>
    (HR_RemoveNode gone hr = (None, hr'') \<and> m \<noteq> gone \<longrightarrow> HR_GetNode h key hr'' = Inr m)"
proof -
  have rep: "ring_rep h hr" using ring_run_rep [OF assms(1)] assms(2) by simp
  show ?thesis
    using GetNode_add [OF ring_rep_wf [OF rep] _ assms(3), of node hr']
      GetNode_remove [OF ring_rep_wf [OF rep] _ ring_repD(2) [OF rep] assms(3), of gone hr''] by blast
qed

theorem few_keys_move_witness:
  "HR_GetNode sample_hash ''x:0'' (ring_run sample_hash 2 sample_ops) = Inr ''b'' \<and>
   HR_GetNode sample_hash ''x:0'' (snd (HR_AddNode sample_hash (sample_node ''y'') (ring_run sample_hash 2 sample_ops)))
     \<in> {Inr ''b'', Inr ''y''} \<and>
   HR_GetNode sample_hash ''x:0'' (snd (HR_RemoveNode ''f'' (ring_run sample_hash 2 sample_ops))) = Inr ''b''"
proof -
  let ?r = "ring_run sample_hash 2 sample_ops"
  have nc: "no_collisions sample_hash (hr_virtualNodes (NewHashRing 2)) (op_ids sample_ops)" by code_simp
  have get: "HR_GetNode sample_hash ''x:0'' ?r = Inr ''b''" by code_simp
  have add: "HR_AddNode sample_hash (sample_node ''y'') ?r = (None, snd (HR_AddNode sample_hash (sample_node ''y'') ?r))" by code_simp
  have rm: "HR_RemoveNode ''f'' ?r = (None, snd (HR_RemoveNode ''f'' ?r))" by code_simp
  have y: "nd_ID (sample_node ''y'') = ''y''" by (simp add: sample_node_def)
  show ?thesis using few_keys_move [OF nc refl get] add rm get y by fastforce
qed

text \<open>
  C24. Choosing replicas returns: on a ring built by the operations the walk of \<open>GetNodes\<close> ends
  after at most one turn, and it yields the first \<open>count\<close> distinct active nodes clockwise from the
  key, or the error when no node is active.
\<close>

theorem GetNodes_terminates:
  assumes "no_collisions h (hr_virtualNodes (NewHashRing n)) (op_ids ops)" and "hr = ring_run h n ops" and "hr_nodes hr \<noteq> []"
  shows "HR_GetNodes h key count hr =
    (let r = take (nat (max 1 count)) (filter (is_active hr) (fresh_from [] (walk (position (h key) hr) hr)))
     in Some (if r = [] then Inl ''no active nodes available'' else Inr r)) \<and>
    set (fresh_from [] (walk (position (h key) hr) hr)) = dom (gm_get (hr_nodes hr))"
proof -
  have rep: "ring_rep h hr" using ring_run_rep [OF assms(1)] assms(2) by simp
  have "set (fresh_from [] (walk (position (h key) hr) hr)) = dom (gm_get (hr_nodes hr))"
    using ring_rep_covers [OF rep] by (simp add: fresh_from_set walk_def ring_covers_def)
  then show ?thesis using GetNodes_spec [OF ring_rep_covers [OF rep] assms(3)] by simp
qed

theorem GetNodes_terminates_witness:
  "HR_GetNodes sample_hash ''c:0'' 3 (ring_run sample_hash 2 (sample_ops @ [StatusOp ''b'' NodeStatusDraining])) = Some (Inr [''f''])"
proof -
  let ?r = "ring_run sample_hash 2 (sample_ops @ [StatusOp ''b'' NodeStatusDraining])"
  have nc: "no_collisions sample_hash (hr_virtualNodes (NewHashRing 2)) (op_ids (sample_ops @ [StatusOp ''b'' NodeStatusDraining]))" by code_simp
  have ne: "hr_nodes ?r \<noteq> []" by code_simp
  have c: "nat (max 1 3) = 3" by simp
  have r: "take 3 (filter (is_active ?r) (fresh_from [] (walk (position (sample_hash ''c:0'') ?r) ?r))) = [''f'']" by code_simp
  show ?thesis using GetNodes_terminates [OF nc refl ne, of "''c:0''" 3] unfolding c r by simp
qed



end
