(* ===== verification/Shard_Manager.thy ===== *)
theory Shard_Manager
  imports Cluster_Manager Hash_Ring
begin

text \<open>
  The shard manager of \<^verbatim>\<open>src/internal/partitioning/shard_manager.go\<close>: a map from 32-bit shard
  identifiers to shards, each with a range of 64-bit hashes, a replica list and a Raft group
  (a \<open>ClusterManager\<close> of its own). Clock readings and the outcomes of starting nodes are arguments;
  a call that never returns or panics is \<^term>\<open>None\<close>. The nodes of a Raft group run on their own
  between the calls of the manager.
\<close>

section \<open>Data\<close>

datatype ShardStatus = ShardStatusActive | ShardStatusInitializing | ShardStatusRebalancing | ShardStatusDraining | ShardStatusFailed

fun ShardStatus_String :: "ShardStatus \<Rightarrow> string" where
  "ShardStatus_String ShardStatusActive = ''active''"
| "ShardStatus_String ShardStatusInitializing = ''initializing''"
| "ShardStatus_String ShardStatusRebalancing = ''rebalancing''"
| "ShardStatus_String ShardStatusDraining = ''draining''"
| "ShardStatus_String ShardStatusFailed = ''failed''"

type_synonym shard_id = "32 word"

record Shard =
  sh_ID :: shard_id
  sh_RaftGroup :: "ClusterManager option"
  sh_Replicas :: "string list"
  sh_Leader :: string
  sh_Status :: ShardStatus
  sh_KeyRange :: KeyRange
  sh_CreatedAt :: gtime
  sh_UpdatedAt :: gtime
  sh_Metadata :: "(string, string) gomap"

record ShardManagerConfig =
  smc_DefaultReplicas :: int
  smc_MaxShardsPerNode :: int
  smc_ShardSplitThreshold :: int
  smc_ElectionTimeout :: duration
  smc_HeartbeatTimeout :: duration
  smc_EnableAutoSplit :: bool
  smc_EnableAutoMerge :: bool

text \<open>The rebalancer is only stored: the model keeps whether there is one.\<close>

record ShardManager =
  smg_shards :: "(shard_id, Shard) gomap"
  smg_hashRing :: HashRing
  smg_config :: ShardManagerConfig
  smg_nodeID :: string
  smg_rebalancer :: bool

record ShardManagerStats =
  sms_TotalShards :: nat
  sms_LocalShards :: nat
  sms_ShardsByStatus :: "(ShardStatus, nat) gomap"
  sms_ReplicationStats :: "(nat, nat) gomap"

section \<open>Creating and finding shards\<close>

definition NewShardManager :: "string \<Rightarrow> HashRing \<Rightarrow> ShardManagerConfig \<Rightarrow> ShardManager" where
  "NewShardManager nodeID hashRing config =
     \<lparr>smg_shards = [], smg_hashRing = hashRing,
      smg_config = config
        \<lparr>smc_DefaultReplicas := (if smc_DefaultReplicas config = 0 then 3 else smc_DefaultReplicas config),
         smc_MaxShardsPerNode := (if smc_MaxShardsPerNode config = 0 then 10 else smc_MaxShardsPerNode config),
         smc_ElectionTimeout := (if smc_ElectionTimeout config = 0 then 200 * millisecond else smc_ElectionTimeout config),
         smc_HeartbeatTimeout := (if smc_HeartbeatTimeout config = 0 then 50 * millisecond else smc_HeartbeatTimeout config)\<rparr>,
      smg_nodeID = nodeID, smg_rebalancer = False\<rparr>"

definition SetRebalancer :: "bool \<Rightarrow> ShardManager \<Rightarrow> ShardManager" where
  "SetRebalancer rebalancer sm = sm\<lparr>smg_rebalancer := rebalancer\<rparr>"

definition isNodeInReplicas :: "string \<Rightarrow> string list \<Rightarrow> bool" where
  "isNodeInReplicas nodeID reps = list_ex (\<lambda>replica. replica = nodeID) reps"

text \<open>Conversion to a signed 32-bit number, for the ports.\<close>

definition i32 :: "int \<Rightarrow> int" where
  "i32 x = (x + 2 ^ 31) mod 2 ^ 32 - 2 ^ 31"

definition dec_id :: "shard_id \<Rightarrow> string" where
  "dec_id i = dec_nat (unat i)"

definition shardNode :: "shard_id \<Rightarrow> nat \<Rightarrow> string \<Rightarrow> NodeConfig" where
  "shardNode shardID i replicaID =
     \<lparr>nc_NodeID = replicaID, nc_Address = ''localhost'', nc_RaftPort = i32 (8000 + uint shardID * 100 + int i),
      nc_GrpcPort = i32 (9000 + uint shardID * 100 + int i)\<rparr>"

definition shardCluster :: "shard_id \<Rightarrow> string list \<Rightarrow> ShardManager \<Rightarrow> ClusterConfig" where
  "shardCluster shardID reps sm =
     \<lparr>cc_Nodes = map (\<lambda>(i, r). shardNode shardID i r) (enumerate 0 reps), cc_ElectionTimeout = smc_ElectionTimeout (smg_config sm),
      cc_HeartbeatTimeout = smc_HeartbeatTimeout (smg_config sm), cc_DataDir = ''data/shard_'' @ dec_id shardID\<rparr>"

text \<open>
  What starting the Raft group of a shard takes from outside: the outcomes of creating its nodes,
  the clock, the random draws, and the leaders seen while waiting for one.
\<close>

record group_io =
  gi_create :: "nat \<Rightarrow> create_io"
  gi_now :: gtime
  gi_draws :: "string \<Rightarrow> nat"
  gi_waitFrom :: gtime
  gi_leader :: "nat \<Rightarrow> gtime \<times> string"

definition startGroup :: "group_io \<Rightarrow> shard_id \<Rightarrow> string list \<Rightarrow> ShardManager \<Rightarrow> disk \<Rightarrow>
    ((string + ClusterManager \<times> string) \<times> disk) option" where
  "startGroup io shardID reps sm d =
     (let raftCluster = NewClusterManager (shardCluster shardID reps sm)
      in if isNodeInReplicas (smg_nodeID sm) reps then
           (case Bootstrap (gi_create io) (gi_now io) (gi_draws io) (raftCluster, d) of
              (Some err, cm, d) \<Rightarrow> Some (Inl (''failed to bootstrap shard '' @ dec_id shardID @ '': '' @ err), d)
            | (None, cm, d) \<Rightarrow> do {
                leader \<leftarrow> WaitForLeader (gi_waitFrom io) (5 * 1000000000) (gi_leader io);
                Some (Inr (cm, case leader of Some l \<Rightarrow> l | None \<Rightarrow> []), d)
              })
         else Some (Inr (raftCluster, []), d))"

definition CreateShard :: "group_io \<Rightarrow> (nat \<Rightarrow> gtime) \<Rightarrow> shard_id \<Rightarrow> string list \<Rightarrow> KeyRange \<Rightarrow> ShardManager \<Rightarrow> disk \<Rightarrow>
    (string option \<times> ShardManager \<times> disk) option" where
  "CreateShard io clk shardID reps keyRange sm d =
     (if gm_get (smg_shards sm) shardID \<noteq> None then Some (Some (''shard '' @ dec_id shardID @ '' already exists''), sm, d)
      else if reps = [] then Some (Some ''at least one replica must be specified'', sm, d)
      else do {
        (r, d) \<leftarrow> startGroup io shardID reps sm d;
        (case r of
           Inl err \<Rightarrow> Some (Some err, sm, d)
         | Inr (raftCluster, leader) \<Rightarrow>
             Some (None, sm\<lparr>smg_shards := gm_put shardID
               \<lparr>sh_ID = shardID, sh_RaftGroup = Some raftCluster, sh_Replicas = reps, sh_Leader = leader,
                sh_Status = ShardStatusActive, sh_KeyRange = keyRange, sh_CreatedAt = clk 0, sh_UpdatedAt = clk 2,
                sh_Metadata = []\<rparr> (smg_shards sm)\<rparr>, d))
      })"

definition notFound :: "shard_id \<Rightarrow> string" where
  "notFound shardID = ''shard '' @ dec_id shardID @ '' not found''"

definition GetShard :: "shard_id \<Rightarrow> ShardManager \<Rightarrow> string + Shard" where
  "GetShard shardID sm = (case gm_get (smg_shards sm) shardID of None \<Rightarrow> Inl (notFound shardID) | Some shard \<Rightarrow> Inr shard)"

definition inShard :: "w64 \<Rightarrow> Shard \<Rightarrow> bool" where
  "inShard x shard = (kr_Start (sh_KeyRange shard) \<le> x \<and> x \<le> kr_End (sh_KeyRange shard))"

definition GetShardForKey :: "hash \<Rightarrow> string \<Rightarrow> ShardManager \<Rightarrow> string + Shard" where
  "GetShardForKey h key sm =
     (case HR_GetNode h key (smg_hashRing sm) of
        Inl err \<Rightarrow> Inl (''failed to find node for key: '' @ err)
      | Inr nodeID \<Rightarrow>
          (case find (\<lambda>(i, shard). isNodeInReplicas nodeID (sh_Replicas shard) \<and> inShard (h key) shard) (smg_shards sm) of
             Some (i, shard) \<Rightarrow> Inr shard
           | None \<Rightarrow> Inl (''no shard found for key '' @ key @ '' (node: '' @ nodeID @ '')'')))"

definition GetAllShards :: "ShardManager \<Rightarrow> (shard_id, Shard) gomap" where
  "GetAllShards sm = fold (\<lambda>(i, shard). gm_put i shard) (smg_shards sm) []"

definition GetLocalShards :: "ShardManager \<Rightarrow> (shard_id, Shard) gomap" where
  "GetLocalShards sm =
     fold (\<lambda>(i, shard) m. if isNodeInReplicas (smg_nodeID sm) (sh_Replicas shard) then gm_put i shard m else m) (smg_shards sm) []"

section \<open>Replicas\<close>

text \<open>The replica list is rolled back when the Raft group refuses the node, the group is not.\<close>

definition AddReplica :: "create_io \<Rightarrow> gtime \<Rightarrow> gtime \<Rightarrow> nat \<Rightarrow> shard_id \<Rightarrow> string \<Rightarrow> ShardManager \<Rightarrow> disk \<Rightarrow>
    string option \<times> ShardManager \<times> disk" where
  "AddReplica io updated now draw shardID nodeID sm d =
     (case gm_get (smg_shards sm) shardID of
        None \<Rightarrow> (Some (notFound shardID), sm, d)
      | Some shard \<Rightarrow>
          if isNodeInReplicas nodeID (sh_Replicas shard)
          then (Some (''node '' @ nodeID @ '' is already a replica of shard '' @ dec_id shardID), sm, d)
          else
            (let grown = shard\<lparr>sh_Replicas := sh_Replicas shard @ [nodeID], sh_UpdatedAt := updated\<rparr>;
                 nodeConfig = shardNode shardID (length (sh_Replicas grown)) nodeID
             in case sh_RaftGroup shard of
                  None \<Rightarrow> (None, sm\<lparr>smg_shards := gm_put shardID grown (smg_shards sm)\<rparr>, d)
                | Some grp \<Rightarrow>
                    (case AddNode io now draw nodeConfig (grp, d) of
                       (Some err, grp, d) \<Rightarrow>
                         (Some (''failed to add node to Raft cluster: '' @ err),
                          sm\<lparr>smg_shards := gm_put shardID (grown\<lparr>sh_Replicas := butlast (sh_Replicas grown),
                               sh_RaftGroup := Some grp\<rparr>) (smg_shards sm)\<rparr>, d)
                     | (None, grp, d) \<Rightarrow>
                         (None, sm\<lparr>smg_shards := gm_put shardID (grown\<lparr>sh_RaftGroup := Some grp\<rparr>) (smg_shards sm)\<rparr>, d))))"

definition RemoveReplica :: "gtime \<Rightarrow> shard_id \<Rightarrow> string \<Rightarrow> ShardManager \<Rightarrow> (string option \<times> ShardManager) option" where
  "RemoveReplica updated shardID nodeID sm =
     (case gm_get (smg_shards sm) shardID of
        None \<Rightarrow> Some (Some (notFound shardID), sm)
      | Some shard \<Rightarrow>
          if \<not> isNodeInReplicas nodeID (sh_Replicas shard)
          then Some (Some (''node '' @ nodeID @ '' is not a replica of shard '' @ dec_id shardID), sm)
          else if length (sh_Replicas shard) \<le> 1
          then Some (Some (''cannot remove the last replica from shard '' @ dec_id shardID), sm)
          else
            (let shard = shard\<lparr>sh_Replicas := filter (\<lambda>replica. replica \<noteq> nodeID) (sh_Replicas shard), sh_UpdatedAt := updated\<rparr>
             in case sh_RaftGroup shard of
                  None \<Rightarrow> Some (None, sm\<lparr>smg_shards := gm_put shardID shard (smg_shards sm)\<rparr>)
                | Some grp \<Rightarrow> do {
                    (err, grp) \<leftarrow> RemoveNode nodeID grp;
                    Some (None, sm\<lparr>smg_shards := gm_put shardID (shard\<lparr>sh_RaftGroup := Some grp\<rparr>) (smg_shards sm)\<rparr>)
                  }))"

section \<open>Splitting and merging\<close>

definition generateShardID :: "ShardManager \<Rightarrow> shard_id" where
  "generateShardID sm = fold (\<lambda>(i, shard) maxID. if maxID < i then i else maxID) (smg_shards sm) 0 + 1"

definition SplitShard :: "hash \<Rightarrow> (nat \<Rightarrow> gtime) \<Rightarrow> shard_id \<Rightarrow> string \<Rightarrow> ShardManager \<Rightarrow> (string + shard_id) \<times> ShardManager" where
  "SplitShard h clk shardID splitKey sm =
     (case gm_get (smg_shards sm) shardID of
        None \<Rightarrow> (Inl (notFound shardID), sm)
      | Some shard \<Rightarrow>
          if sh_Status shard \<noteq> ShardStatusActive
          then (Inl (''cannot split shard '' @ dec_id shardID @ '': status is '' @ ShardStatus_String (sh_Status shard)), sm)
          else
            (let splitHash = h splitKey; original = sh_KeyRange shard
             in if splitHash \<le> kr_Start original \<or> kr_End original \<le> splitHash
                then (Inl (''split key '' @ splitKey @ '' is outside shard '' @ dec_id shardID @ '' range''), sm)
                else
                  (let newShardID = generateShardID sm;
                       newShard = \<lparr>sh_ID = newShardID, sh_RaftGroup = None, sh_Replicas = sh_Replicas shard, sh_Leader = [],
                         sh_Status = ShardStatusInitializing, sh_KeyRange = \<lparr>kr_Start = splitHash + 1, kr_End = kr_End original\<rparr>,
                         sh_CreatedAt = clk 0, sh_UpdatedAt = clk 1, sh_Metadata = []\<rparr>;
                       shard = shard\<lparr>sh_KeyRange := \<lparr>kr_Start = kr_Start original, kr_End = splitHash\<rparr>, sh_UpdatedAt := clk 2\<rparr>
                   in (Inr newShardID, sm\<lparr>smg_shards := gm_put newShardID newShard (gm_put shardID shard (smg_shards sm))\<rparr>))))"

definition MergeShards :: "gtime \<Rightarrow> shard_id \<Rightarrow> shard_id \<Rightarrow> ShardManager \<Rightarrow> string option \<times> ShardManager" where
  "MergeShards now shard1ID shard2ID sm =
     (case (gm_get (smg_shards sm) shard1ID, gm_get (smg_shards sm) shard2ID) of
        (Some shard1, Some shard2) \<Rightarrow>
          if sh_Status shard1 \<noteq> ShardStatusActive \<or> sh_Status shard2 \<noteq> ShardStatusActive
          then (Some ''cannot merge non-active shards'', sm)
          else if kr_End (sh_KeyRange shard1) + 1 \<noteq> kr_Start (sh_KeyRange shard2)
          then (Some (''shards '' @ dec_id shard1ID @ '' and '' @ dec_id shard2ID @ '' are not adjacent''), sm)
          else
            (let merged = shard1\<lparr>sh_KeyRange := (sh_KeyRange shard1)\<lparr>kr_End := kr_End (sh_KeyRange shard2)\<rparr>, sh_UpdatedAt := now\<rparr>
             in (None, sm\<lparr>smg_shards := gm_del shard2ID (gm_put shard1ID merged (smg_shards sm))\<rparr>))
      | _ \<Rightarrow> (Some ''one or both shards not found'', sm))"

section \<open>Stopping, statistics and leaders\<close>

text \<open>Stopping a group a second time panics.\<close>

definition SM_Stop :: "ShardManager \<Rightarrow> ShardManager option" where
  "SM_Stop sm =
     (if list_ex (\<lambda>(i, shard). case sh_RaftGroup shard of Some grp \<Rightarrow> CM_Stop grp = None | None \<Rightarrow> False) (smg_shards sm) then None
      else Some (sm\<lparr>smg_shards := map (\<lambda>(i, shard). (i, shard\<lparr>sh_RaftGroup := sh_RaftGroup shard \<bind> CM_Stop\<rparr>)) (smg_shards sm)\<rparr>))"

definition count_up :: "'k \<Rightarrow> ('k, nat) gomap \<Rightarrow> ('k, nat) gomap" where
  "count_up k m = gm_put k ((case gm_get m k of None \<Rightarrow> 0 | Some c \<Rightarrow> c) + 1) m"

definition SM_Stats :: "ShardManager \<Rightarrow> ShardManagerStats" where
  "SM_Stats sm =
     \<lparr>sms_TotalShards = length (smg_shards sm),
      sms_LocalShards = length (filter (\<lambda>(i, shard). isNodeInReplicas (smg_nodeID sm) (sh_Replicas shard)) (smg_shards sm)),
      sms_ShardsByStatus = fold (\<lambda>(i, shard). count_up (sh_Status shard)) (smg_shards sm) [],
      sms_ReplicationStats = fold (\<lambda>(i, shard). count_up (length (sh_Replicas shard))) (smg_shards sm) []\<rparr>"

definition UpdateShardLeader :: "gtime \<Rightarrow> shard_id \<Rightarrow> string \<Rightarrow> ShardManager \<Rightarrow> string option \<times> ShardManager" where
  "UpdateShardLeader now shardID leaderID sm =
     (case gm_get (smg_shards sm) shardID of
        None \<Rightarrow> (Some (notFound shardID), sm)
      | Some shard \<Rightarrow>
          if sh_Leader shard \<noteq> leaderID
          then (None, sm\<lparr>smg_shards := gm_put shardID (shard\<lparr>sh_Leader := leaderID, sh_UpdatedAt := now\<rparr>) (smg_shards sm)\<rparr>)
          else (None, sm))"

definition GetShardLeader :: "shard_id \<Rightarrow> ShardManager \<Rightarrow> string + string" where
  "GetShardLeader shardID sm =
     (case gm_get (smg_shards sm) shardID of
        None \<Rightarrow> Inl (notFound shardID)
      | Some shard \<Rightarrow>
          (case sh_RaftGroup shard of
             Some grp \<Rightarrow> Inr (if CM_GetLeader grp \<noteq> [] then CM_GetLeader grp else sh_Leader shard)
           | None \<Rightarrow> Inr (sh_Leader shard)))"

section \<open>Ranges\<close>

text \<open>
  The ranges of the shards, by identifier; a range is a closed interval of hashes. In a good set of
  ranges none is empty and no hash lies in two.
\<close>

type_synonym ranges = "shard_id \<rightharpoonup> KeyRange"

definition range_of :: "ShardManager \<Rightarrow> ranges" where
  "range_of sm i = map_option sh_KeyRange (gm_get (smg_shards sm) i)"

definition hashes :: "KeyRange \<Rightarrow> w64 set" where
  "hashes k = {kr_Start k..kr_End k}"

definition ranges_ok :: "ranges \<Rightarrow> bool" where
  "ranges_ok r = ((\<forall>i k. r i = Some k \<longrightarrow> kr_Start k \<le> kr_End k) \<and>
     (\<forall>i j k l. r i = Some k \<longrightarrow> r j = Some l \<longrightarrow> i \<noteq> j \<longrightarrow> hashes k \<inter> hashes l = {}))"

definition covered :: "ranges \<Rightarrow> w64 set" where
  "covered r = (\<Union>k \<in> ran r. hashes k)"

lemma ranges_ok_disjoint:
  "ranges_ok r \<Longrightarrow> r i = Some k \<Longrightarrow> r j = Some l \<Longrightarrow> i \<noteq> j \<Longrightarrow> hashes k \<inter> hashes l = {}"
  unfolding ranges_ok_def by blast

lemma ranges_ok_nonempty: "ranges_ok r \<Longrightarrow> r i = Some k \<Longrightarrow> kr_Start k \<le> kr_End k"
  unfolding ranges_ok_def by blast

lemma ranges_okI:
  assumes "\<And>i k. r i = Some k \<Longrightarrow> kr_Start k \<le> kr_End k"
    and "\<And>i j k l. r i = Some k \<Longrightarrow> r j = Some l \<Longrightarrow> i \<noteq> j \<Longrightarrow> hashes k \<inter> hashes l = {}"
  shows "ranges_ok r"
  using assms unfolding ranges_ok_def by blast

lemma word_less_suc: "(a :: 'a :: len word) \<noteq> - 1 \<Longrightarrow> a < a + 1"
  using inc_less_eq_iff [of a a] by (simp add: not_le [symmetric])

lemma covered_iff: "x \<in> covered r \<longleftrightarrow> (\<exists>i k. r i = Some k \<and> x \<in> hashes k)"
  unfolding covered_def ran_def by blast

lemma covered_upd: "covered (r(i \<mapsto> k)) = hashes k \<union> covered (r(i := None))"
proof (rule set_eqI)
  fix x
  have "(\<exists>j l. (r(i \<mapsto> k)) j = Some l \<and> x \<in> hashes l) \<longleftrightarrow> x \<in> hashes k \<or> (\<exists>j l. j \<noteq> i \<and> r j = Some l \<and> x \<in> hashes l)"
    unfolding fun_upd_apply by (metis option.inject)
  moreover have "(\<exists>j l. (r(i := None)) j = Some l \<and> x \<in> hashes l) \<longleftrightarrow> (\<exists>j l. j \<noteq> i \<and> r j = Some l \<and> x \<in> hashes l)"
    unfolding fun_upd_apply by (metis option.distinct(1))
  ultimately show "x \<in> covered (r(i \<mapsto> k)) \<longleftrightarrow> x \<in> hashes k \<union> covered (r(i := None))" unfolding covered_iff Un_iff by blast
qed

lemma covered_without: "r i = Some k \<Longrightarrow> covered r = hashes k \<union> covered (r(i := None))"
  using covered_upd [of r i k] by (simp add: fun_upd_idem)

text \<open>Ranges that differ from a good set only by a finer or coarser cover of the same hashes.\<close>

lemma ranges_ok_upd:
  assumes ok: "ranges_ok r" and k: "kr_Start k \<le> kr_End k"
    and disj: "\<And>j l. r j = Some l \<Longrightarrow> j \<noteq> i \<Longrightarrow> hashes k \<inter> hashes l = {}"
  shows "ranges_ok (r(i \<mapsto> k))"
proof (rule ranges_okI)
  fix j l assume "(r(i \<mapsto> k)) j = Some l"
  then show "kr_Start l \<le> kr_End l" using k ranges_ok_nonempty [OF ok, of j l] by (cases "j = i") simp_all
next
  fix a b l m assume "(r(i \<mapsto> k)) a = Some l" "(r(i \<mapsto> k)) b = Some m" "a \<noteq> b"
  then show "hashes l \<inter> hashes m = {}"
    using disj [of b m] disj [of a l] ranges_ok_disjoint [OF ok, of a l b m] by (cases "a = i"; cases "b = i") (simp_all add: Int_commute)
qed

lemma ranges_ok_del:
  assumes "ranges_ok r"
  shows "ranges_ok (r(i := None))"
proof (rule ranges_okI)
  fix j l assume "(r(i := None)) j = Some l"
  then show "kr_Start l \<le> kr_End l" using ranges_ok_nonempty [OF assms, of j l] by (cases "j = i") simp_all
next
  fix a b l m assume "(r(i := None)) a = Some l" "(r(i := None)) b = Some m" "a \<noteq> b"
  then show "hashes l \<inter> hashes m = {}" using ranges_ok_disjoint [OF assms, of a l b m] by (cases "a = i"; cases "b = i") simp_all
qed

lemma hashes_split:
  assumes "m < kr_End k" "kr_Start k \<le> m"
  shows "hashes k = hashes \<lparr>kr_Start = kr_Start k, kr_End = m\<rparr> \<union> hashes \<lparr>kr_Start = m + 1, kr_End = kr_End k\<rparr>"
    "hashes \<lparr>kr_Start = kr_Start k, kr_End = m\<rparr> \<inter> hashes \<lparr>kr_Start = m + 1, kr_End = kr_End k\<rparr> = {}"
proof -
  have up: "{m + 1..kr_End k} = {m<..kr_End k}" unfolding set_eq_iff atLeastAtMost_iff greaterThanAtMost_iff word_suc_le [OF assms(1)] by blast
  show "hashes k = hashes \<lparr>kr_Start = kr_Start k, kr_End = m\<rparr> \<union> hashes \<lparr>kr_Start = m + 1, kr_End = kr_End k\<rparr>"
    using ivl_disj_un(22) [of "kr_Start k" m "kr_End k"] assms by (simp add: hashes_def up)
  show "hashes \<lparr>kr_Start = kr_Start k, kr_End = m\<rparr> \<inter> hashes \<lparr>kr_Start = m + 1, kr_End = kr_End k\<rparr> = {}"
    unfolding hashes_def KeyRange.simps up by (auto dest: leD)
qed

lemma split_ranges:
  assumes ok: "ranges_ok r" and i: "r i = Some k" and m: "kr_Start k < m" "m < kr_End k" and n: "r n = None"
  defines "lo \<equiv> \<lparr>kr_Start = kr_Start k, kr_End = m\<rparr>" and "hi \<equiv> \<lparr>kr_Start = m + 1, kr_End = kr_End k\<rparr>"
  shows "ranges_ok (r(i \<mapsto> lo, n \<mapsto> hi))" "covered (r(i \<mapsto> lo, n \<mapsto> hi)) = covered r"
proof -
  have parts: "hashes k = hashes lo \<union> hashes hi" "hashes lo \<inter> hashes hi = {}"
    using hashes_split [of m k] m by (simp_all add: lo_def hi_def)
  have ne: "kr_Start lo \<le> kr_End lo" "kr_Start hi \<le> kr_End hi"
    using m word_suc_le [OF m(2)] by (auto simp: lo_def hi_def)
  have other: "hashes lo \<inter> hashes l = {}" "hashes hi \<inter> hashes l = {}" if "r j = Some l" "j \<noteq> i" for j l
    using ranges_ok_disjoint [OF ok i that(1)] that(2) parts(1) by blast+
  have low: "ranges_ok (r(i \<mapsto> lo))" using ne(1) other(1) by (intro ranges_ok_upd [OF ok]) auto
  show "ranges_ok (r(i \<mapsto> lo, n \<mapsto> hi))"
  proof (rule ranges_ok_upd [OF low ne(2)])
    fix j l assume "(r(i \<mapsto> lo)) j = Some l"
    then show "hashes hi \<inter> hashes l = {}" using other(2) [of j l] parts(2) by (cases "j = i") (auto simp: Int_commute)
  qed
  have "(r(i \<mapsto> lo))(n := None) = r(i \<mapsto> lo)" using n i by (intro ext) auto
  then show "covered (r(i \<mapsto> lo, n \<mapsto> hi)) = covered r"
    unfolding covered_upd [of "r(i \<mapsto> lo)"] covered_without [of r, OF i] parts(1) by (simp add: covered_upd Un_assoc Un_left_commute)
qed

lemma merge_ranges:
  assumes ok: "ranges_ok r" and i: "r i = Some k" and j: "r j = Some l" and adj: "kr_End k + 1 = kr_Start l" and last: "kr_End k \<noteq> - 1"
  defines "all \<equiv> k\<lparr>kr_End := kr_End l\<rparr>"
  shows "i \<noteq> j" "ranges_ok (r(i \<mapsto> all, j := None))" "covered (r(i \<mapsto> all, j := None)) = covered r"
proof -
  have ne: "kr_Start k \<le> kr_End k" "kr_Start l \<le> kr_End l" using ranges_ok_nonempty [OF ok] i j by blast+
  have lt: "kr_End k < kr_Start l" unfolding adj [symmetric] by (rule word_less_suc [OF last])
  show ij: "i \<noteq> j" using i j ne lt by auto
  have all: "hashes all = hashes k \<union> hashes l"
  proof (rule set_eqI)
    fix x
    have "x \<le> kr_End k \<or> kr_Start l \<le> x" using word_suc_le [OF lt, of x] by (auto simp: adj not_le)
    then show "x \<in> hashes all \<longleftrightarrow> x \<in> hashes k \<union> hashes l" using ne lt by (auto simp: hashes_def all_def)
  qed
  have "ranges_ok (r(j := None, i \<mapsto> all))"
  proof (rule ranges_ok_upd [OF ranges_ok_del [OF ok]])
    show "kr_Start all \<le> kr_End all" using ne lt by (simp add: all_def)
  next
    fix a m assume "(r(j := None)) a = Some m" "a \<noteq> i"
    then show "hashes all \<inter> hashes m = {}"
      using ranges_ok_disjoint [OF ok i, of a m] ranges_ok_disjoint [OF ok j, of a m] all by (auto split: if_splits)
  qed
  then show "ranges_ok (r(i \<mapsto> all, j := None))" using ij by (simp add: fun_upd_twist)
  have "r(i \<mapsto> all, j := None) = r(j := None, i \<mapsto> all)" using ij by (simp add: fun_upd_twist)
  moreover have "covered r = hashes l \<union> (hashes k \<union> covered (r(j := None, i := None)))"
    using covered_without [of r, OF j] covered_without [of "r(j := None)" i k] i ij by simp
  ultimately show "covered (r(i \<mapsto> all, j := None)) = covered r" by (simp add: covered_upd all Un_ac)
qed

section \<open>Histories of a shard manager\<close>

datatype shard_event =
    EvCreate group_io "nat \<Rightarrow> gtime" shard_id "string list" KeyRange
  | EvAddReplica create_io gtime gtime nat shard_id string
  | EvRemoveReplica gtime shard_id string
  | EvSplit "nat \<Rightarrow> gtime" shard_id string
  | EvMerge gtime shard_id shard_id
  | EvLeader gtime shard_id string

inductive shard_step :: "hash \<Rightarrow> shard_event \<Rightarrow> ShardManager \<times> disk \<Rightarrow> ShardManager \<times> disk \<Rightarrow> bool" for h where
  create: "CreateShard io clk i reps k sm d = Some (err, sm', d') \<Longrightarrow> shard_step h (EvCreate io clk i reps k) (sm, d) (sm', d')"
| add: "AddReplica io updated now draw i n sm d = (err, sm', d') \<Longrightarrow> shard_step h (EvAddReplica io updated now draw i n) (sm, d) (sm', d')"
| remove: "RemoveReplica updated i n sm = Some (err, sm') \<Longrightarrow> shard_step h (EvRemoveReplica updated i n) (sm, d) (sm', d)"
| split: "SplitShard h clk i key sm = (res, sm') \<Longrightarrow> shard_step h (EvSplit clk i key) (sm, d) (sm', d)"
| merge: "MergeShards now i j sm = (err, sm') \<Longrightarrow> shard_step h (EvMerge now i j) (sm, d) (sm', d)"
| leader: "UpdateShardLeader now i l sm = (err, sm') \<Longrightarrow> shard_step h (EvLeader now i l) (sm, d) (sm', d)"

text \<open>
  What the callers have to see to: a new shard takes hashes no shard has, a split happens while the
  largest identifier is free, and the first of two shards to be merged does not end at the largest
  hash.
\<close>

fun shard_ok :: "shard_event \<Rightarrow> ShardManager \<times> disk \<Rightarrow> bool" where
  "shard_ok (EvCreate io clk i reps k) (sm, d) = (kr_Start k \<le> kr_End k \<and> hashes k \<inter> covered (range_of sm) = {})"
| "shard_ok (EvSplit clk i key) (sm, d) = (range_of sm (- 1) = None)"
| "shard_ok (EvMerge now i j) (sm, d) = (\<forall>k. range_of sm i = Some k \<longrightarrow> kr_End k \<noteq> - 1)"
| "shard_ok e s = True"

lemma range_of_put: "range_of (sm\<lparr>smg_shards := gm_put i s (smg_shards sm)\<rparr>) = (range_of sm)(i \<mapsto> sh_KeyRange s)"
  by (auto simp: range_of_def)

lemma range_of_same: "gm_get (smg_shards sm) i = Some s \<Longrightarrow> sh_KeyRange t = sh_KeyRange s \<Longrightarrow> (range_of sm)(i \<mapsto> sh_KeyRange t) = range_of sm"
  by (auto simp: range_of_def)

lemma generateShardID_fresh:
  assumes "range_of sm (- 1) = None"
  shows "range_of sm (generateShardID sm) = None"
proof -
  let ?f = "\<lambda>(i :: shard_id, shard :: Shard) maxID. if maxID < i then i else maxID"
  have "(\<forall>p \<in> set m. fst p \<le> fold ?f m a) \<and> a \<le> fold ?f m a \<and> (fold ?f m a = a \<or> fold ?f m a \<in> fst ` set m)" for m a
  proof (induction m arbitrary: a)
    case (Cons p m)
    show ?case using Cons [of "?f p a"] by (cases p) (auto split: if_splits intro: order_trans less_imp_le)
  qed simp
  from this [where m = "smg_shards sm" and a = 0] obtain top where top: "top = fold ?f (smg_shards sm) 0"
    and max: "\<forall>p \<in> set (smg_shards sm). fst p \<le> top" and mem: "top = 0 \<or> top \<in> fst ` set (smg_shards sm)" by blast
  have "- 1 \<notin> fst ` set (smg_shards sm)" using assms by (simp add: range_of_def map_of_eq_None_iff)
  moreover have "(0 :: shard_id) \<noteq> - 1" by simp
  ultimately have "top \<noteq> - 1" using mem by metis
  then have "top < generateShardID sm" unfolding generateShardID_def top [symmetric] by (rule word_less_suc)
  then have "\<forall>p \<in> set (smg_shards sm). fst p \<noteq> generateShardID sm" using max by (metis leD)
  then have "generateShardID sm \<notin> fst ` set (smg_shards sm)" by (metis imageE)
  then show ?thesis by (simp add: range_of_def map_of_eq_None_iff)
qed

text \<open>The ranges after each call.\<close>

lemma CreateShard_ranges:
  assumes "CreateShard io clk i reps k sm d = Some (err, sm', d')"
  shows "range_of sm' = range_of sm \<or> range_of sm i = None \<and> range_of sm' = (range_of sm)(i \<mapsto> k)"
proof (cases "gm_get (smg_shards sm) i \<noteq> None \<or> reps = []")
  case True
  then show ?thesis using assms by (auto simp: CreateShard_def split: if_splits)
next
  case False
  then obtain r where "startGroup io i reps sm d = Some r" using assms by (cases "startGroup io i reps sm d") (auto simp: CreateShard_def)
  then show ?thesis using assms False
    by (cases r; cases "fst r") (auto simp: CreateShard_def range_of_put range_of_def [of sm i] split: prod.splits)
qed

lemma AddReplica_ranges:
  assumes "AddReplica io updated now draw i n sm d = (err, sm', d')"
  shows "range_of sm' = range_of sm"
  using assms by (auto simp: AddReplica_def Let_def range_of_put range_of_same split: option.splits if_splits prod.splits)

lemma RemoveReplica_ranges:
  assumes "RemoveReplica updated i n sm = Some (err, sm')"
  shows "range_of sm' = range_of sm"
  using assms by (auto simp: RemoveReplica_def Let_def range_of_put range_of_same bind_eq_Some_conv split: option.splits if_splits)

lemma UpdateShardLeader_ranges:
  assumes "UpdateShardLeader now i l sm = (err, sm')"
  shows "range_of sm' = range_of sm"
  using assms by (auto simp: UpdateShardLeader_def range_of_put range_of_same split: option.splits if_splits)

lemma SplitShard_ranges:
  assumes "SplitShard h clk i key sm = (res, sm')"
  shows "range_of sm' = range_of sm \<or> (\<exists>k. range_of sm i = Some k \<and> kr_Start k < h key \<and> h key < kr_End k \<and>
    range_of sm' = (range_of sm)(i \<mapsto> \<lparr>kr_Start = kr_Start k, kr_End = h key\<rparr>,
      generateShardID sm \<mapsto> \<lparr>kr_Start = h key + 1, kr_End = kr_End k\<rparr>))"
  using assms by (auto simp: SplitShard_def Let_def range_of_def fun_eq_iff not_le split: option.splits if_splits)

lemma MergeShards_ranges:
  assumes "MergeShards now i j sm = (err, sm')"
  shows "range_of sm' = range_of sm \<or> (\<exists>k l. range_of sm i = Some k \<and> range_of sm j = Some l \<and> kr_End k + 1 = kr_Start l \<and>
    range_of sm' = (range_of sm)(i \<mapsto> k\<lparr>kr_End := kr_End l\<rparr>, j := None))"
  using assms by (auto simp: MergeShards_def Let_def range_of_def fun_eq_iff split: option.splits if_splits)

lemma shards_gm_ok:
  assumes "gm_ok (smg_shards sm)"
  shows "CreateShard io clk i reps k sm d = Some (err, sm', d') \<Longrightarrow> gm_ok (smg_shards sm')"
    "AddReplica cio updated now draw i n sm d = (err, sm', d') \<Longrightarrow> gm_ok (smg_shards sm')"
    "RemoveReplica updated i n sm = Some (err, sm') \<Longrightarrow> gm_ok (smg_shards sm')"
    "SplitShard h clk i key sm = (res, sm') \<Longrightarrow> gm_ok (smg_shards sm')"
    "MergeShards now i j sm = (err, sm') \<Longrightarrow> gm_ok (smg_shards sm')"
    "UpdateShardLeader now i l sm = (err, sm') \<Longrightarrow> gm_ok (smg_shards sm')"
proof -
  show "CreateShard io clk i reps k sm d = Some (err, sm', d') \<Longrightarrow> gm_ok (smg_shards sm')"
    using assms by (cases "startGroup io i reps sm d") (auto simp: CreateShard_def split: if_splits sum.splits)
qed (use assms in \<open>auto simp: AddReplica_def RemoveReplica_def SplitShard_def MergeShards_def UpdateShardLeader_def Let_def
       bind_eq_Some_conv split: option.splits if_splits prod.splits\<close>)

definition shard_inv :: "ShardManager \<times> disk \<Rightarrow> bool" where
  "shard_inv s = (gm_ok (smg_shards (fst s)) \<and> ranges_ok (range_of (fst s)))"

definition covers_leq :: "ShardManager \<times> disk \<Rightarrow> ShardManager \<times> disk \<Rightarrow> bool" where
  "covers_leq s s' = (covered (range_of (fst s)) \<subseteq> covered (range_of (fst s')))"

lemma create_ranges:
  assumes "ranges_ok r" "r i = None" "kr_Start k \<le> kr_End k" "hashes k \<inter> covered r = {}"
  shows "ranges_ok (r(i \<mapsto> k))" "covered r \<subseteq> covered (r(i \<mapsto> k))"
proof -
  have "hashes k \<inter> hashes l = {}" if "r j = Some l" for j l using assms(4) that unfolding covered_iff disjoint_iff by blast
  then show "ranges_ok (r(i \<mapsto> k))" using assms by (intro ranges_ok_upd) auto
  show "covered r \<subseteq> covered (r(i \<mapsto> k))" using assms(2) by (simp add: covered_upd fun_upd_idem)
qed

lemma shard_step_ranges:
  assumes "shard_step h e s s'" "shard_ok e s" "ranges_ok (range_of (fst s))"
  shows "ranges_ok (range_of (fst s')) \<and> covered (range_of (fst s)) \<subseteq> covered (range_of (fst s'))"
  using assms(1)
proof cases
  case (create io clk i reps k sm d err sm' d')
  then show ?thesis using CreateShard_ranges [OF create(4)] create_ranges [of "range_of sm" i k] assms(2,3) by auto
next
  case (split clk i key sm res sm' d)
  from SplitShard_ranges [OF split(4)] show ?thesis
  proof
    assume "\<exists>k. range_of sm i = Some k \<and> kr_Start k < h key \<and> h key < kr_End k \<and>
      range_of sm' = (range_of sm)(i \<mapsto> \<lparr>kr_Start = kr_Start k, kr_End = h key\<rparr>,
        generateShardID sm \<mapsto> \<lparr>kr_Start = h key + 1, kr_End = kr_End k\<rparr>)"
    then obtain k where k: "range_of sm i = Some k" "kr_Start k < h key" "h key < kr_End k"
      "range_of sm' = (range_of sm)(i \<mapsto> \<lparr>kr_Start = kr_Start k, kr_End = h key\<rparr>,
        generateShardID sm \<mapsto> \<lparr>kr_Start = h key + 1, kr_End = kr_End k\<rparr>)" by blast
    have "range_of sm (generateShardID sm) = None" using assms(2) split by (intro generateShardID_fresh) simp
    then show ?thesis using split_ranges [of "range_of sm", OF _ k(1,2,3)] assms(3) k(4) split by simp
  qed (use assms(3) split in simp)
next
  case (merge now i j sm err sm' d)
  from MergeShards_ranges [OF merge(4)] show ?thesis
  proof
    assume "\<exists>k l. range_of sm i = Some k \<and> range_of sm j = Some l \<and> kr_End k + 1 = kr_Start l \<and>
      range_of sm' = (range_of sm)(i \<mapsto> k\<lparr>kr_End := kr_End l\<rparr>, j := None)"
    then obtain k l where k: "range_of sm i = Some k" "range_of sm j = Some l" "kr_End k + 1 = kr_Start l"
      "range_of sm' = (range_of sm)(i \<mapsto> k\<lparr>kr_End := kr_End l\<rparr>, j := None)" by blast
    have "kr_End k \<noteq> - 1" using assms(2) merge k(1) by simp
    then show ?thesis using merge_ranges [of "range_of sm", OF _ k(1,2,3)] assms(3) k(4) merge by simp
  qed (use assms(3) merge in simp)
qed (use assms(3) in \<open>auto dest: AddReplica_ranges RemoveReplica_ranges UpdateShardLeader_ranges\<close>)

interpretation shard_runs: step_system "shard_step h" shard_ok shard_inv covers_leq for h
proof
  fix e s s' assume step: "shard_step h e s s'" "shard_ok e s" "shard_inv s"
  have "gm_ok (smg_shards (fst s'))" using step(1,3) by cases (auto simp: shard_inv_def dest: shards_gm_ok)
  then show "shard_inv s'" "covers_leq s s'"
    using shard_step_ranges [OF step(1,2)] step(3) by (simp_all add: shard_inv_def covers_leq_def)
qed (auto simp: covers_leq_def)

lemma shard_inv_new: "shard_inv (NewShardManager nodeID ring config, d)"
  by (simp add: shard_inv_def NewShardManager_def ranges_ok_def range_of_def)

lemma find_SomeD: "find P xs = Some x \<Longrightarrow> P x \<and> x \<in> set xs"
  by (auto simp: find_Some_iff)

lemma inShard_hashes: "inShard x s \<longleftrightarrow> x \<in> hashes (sh_KeyRange s)"
  by (simp add: inShard_def hashes_def)

section \<open>Properties of the shard manager\<close>

definition sampleShard :: "shard_id \<Rightarrow> w64 \<Rightarrow> w64 \<Rightarrow> Shard" where
  "sampleShard i x y = \<lparr>sh_ID = i, sh_RaftGroup = None, sh_Replicas = [''b'', ''f''], sh_Leader = ''b'', sh_Status = ShardStatusActive,
     sh_KeyRange = \<lparr>kr_Start = x, kr_End = y\<rparr>, sh_CreatedAt = 0, sh_UpdatedAt = 0, sh_Metadata = []\<rparr>"

definition sampleShardConfig :: ShardManagerConfig where
  "sampleShardConfig = \<lparr>smc_DefaultReplicas = 0, smc_MaxShardsPerNode = 0, smc_ShardSplitThreshold = 0, smc_ElectionTimeout = 0,
     smc_HeartbeatTimeout = 0, smc_EnableAutoSplit = False, smc_EnableAutoMerge = False\<rparr>"

definition sampleShards :: "(shard_id, Shard) gomap \<Rightarrow> ShardManager" where
  "sampleShards shards = (NewShardManager ''c'' (ring_run sample_hash 2 sample_ops) sampleShardConfig)\<lparr>smg_shards := shards\<rparr>"

definition sampleGroupIo :: group_io where
  "sampleGroupIo = \<lparr>gi_create = \<lambda>i. sampleIo None, gi_now = 0, gi_draws = \<lambda>i. 0, gi_waitFrom = 0, gi_leader = \<lambda>i. (0, [])\<rparr>"


lemma sample_create:
  "CreateShard sampleGroupIo (\<lambda>i. 0) 1 [''b'', ''f''] \<lparr>kr_Start = 0, kr_End = - 1\<rparr>
     (NewShardManager ''c'' (ring_run sample_hash 2 sample_ops) sampleShardConfig) Map.empty =
   Some (None, sampleShards [(1, (sampleShard 1 0 (- 1))\<lparr>sh_Leader := [],
     sh_RaftGroup := Some (NewClusterManager (shardCluster 1 [''b'', ''f''] (sampleShards [])))\<rparr>)], Map.empty)"
  by (simp add: CreateShard_def startGroup_def sampleShards_def sampleShard_def NewShardManager_def isNodeInReplicas_def shardCluster_def)

lemma sample_run:
  "runs (shard_step sample_hash) shard_ok (NewShardManager ''c'' (ring_run sample_hash 2 sample_ops) sampleShardConfig, Map.empty)
     [EvCreate sampleGroupIo (\<lambda>i. 0) 1 [''b'', ''f''] \<lparr>kr_Start = 0, kr_End = - 1\<rparr>]
     (sampleShards [(1, (sampleShard 1 0 (- 1))\<lparr>sh_Leader := [],
        sh_RaftGroup := Some (NewClusterManager (shardCluster 1 [''b'', ''f''] (sampleShards [])))\<rparr>)], Map.empty)"
  using shard_step.create [OF sample_create]
  by (auto simp: runs_Cons_iff covered_iff range_of_def NewShardManager_def)




text \<open>
  A merge across the largest hash loses keys: the test for adjacent ranges adds one to the end of
  the first range and wraps around, so the two halves of the hash space merge, in the wrong order,
  into a shard without any hash. A shard with the whole hash space merged with itself disappears.
\<close>

theorem wrapping_merge_loses_keys:
  "covered (range_of (sampleShards [(1, sampleShard 1 0 9), (2, sampleShard 2 10 (- 1))])) = UNIV \<and>
   (\<exists>sm. MergeShards 0 2 1 (sampleShards [(1, sampleShard 1 0 9), (2, sampleShard 2 10 (- 1))]) = (None, sm) \<and> covered (range_of sm) = {}) \<and>
   (\<exists>sm. MergeShards 0 1 1 (sampleShards [(1, sampleShard 1 0 (- 1))]) = (None, sm) \<and> smg_shards sm = [])"
proof -
  let ?a = "sampleShards [(1, sampleShard 1 0 9), (2, sampleShard 2 10 (- 1))]"
  have none: "covered (\<lambda>i. None) = {}" by (simp add: covered_def)
  have "range_of ?a = (\<lambda>i. None)(1 \<mapsto> \<lparr>kr_Start = 0, kr_End = 9\<rparr>, 2 \<mapsto> \<lparr>kr_Start = 10, kr_End = - 1\<rparr>)"
    by (auto simp: range_of_def sampleShards_def sampleShard_def)
  then have "covered (range_of ?a) = {10..- 1} \<union> {0..9}" by (simp add: covered_upd none hashes_def fun_upd_twist)
  moreover have "x \<in> {10..- 1} \<union> {0..9}" for x :: w64 using word_suc_le [of 9 10 x] by (auto simp: not_le)
  ultimately have all: "covered (range_of ?a) = UNIV" by blast
  let ?m = "(sampleShard 2 10 (- 1))\<lparr>sh_KeyRange := \<lparr>kr_Start = 10, kr_End = 9\<rparr>\<rparr>"
  have merge: "MergeShards 0 2 1 ?a = (None, sampleShards [(2, ?m)])"
    by (simp add: MergeShards_def sampleShards_def sampleShard_def)
  have "range_of (sampleShards [(2, ?m)]) = (\<lambda>i. None)(2 \<mapsto> \<lparr>kr_Start = 10, kr_End = 9\<rparr>)"
    by (auto simp: range_of_def sampleShards_def)
  then have "covered (range_of (sampleShards [(2, ?m)])) = {}" by (simp add: covered_upd none hashes_def)
  moreover have "MergeShards 0 1 1 (sampleShards [(1, sampleShard 1 0 (- 1))]) = (None, sampleShards [])"
    by (simp add: MergeShards_def sampleShards_def sampleShard_def)
  moreover have "smg_shards (sampleShards []) = []" by (simp add: sampleShards_def)
  ultimately show ?thesis using all merge by blast
qed

end
