(* ===== verification/Router.thy ===== *)
theory Router
  imports Shard_Manager Go_Lib
begin

text \<open>
  The router of \<^verbatim>\<open>src/internal/partitioning/router.go\<close>: it finds the shard of a key, keeps the routes it
  found in a cache, and executes an operation on the shard, with retries. The shard manager and the
  disk are shared with other components and passed along. The deadline of an operation has no effect,
  as nothing the router calls looks at it. The outcome of a call that never returns is \<open>None\<close>: the
  search for nodes on the hash ring may not end.
\<close>

section \<open>Data\<close>

record RouterConfig =
  rtc_EnableCaching :: bool
  rtc_CacheTimeout :: duration
  rtc_MaxCacheSize :: int
  rtc_RetryAttempts :: int
  rtc_RetryDelay :: duration
  rtc_RequestTimeout :: duration
  rtc_EnableMetrics :: bool

record RouteInfo =
  rti_Key :: string
  rti_ShardID :: shard_id
  rti_PrimaryNode :: string
  rti_Replicas :: "string list"
  rti_CachedAt :: gtime
  rti_IsLocal :: bool

record OperationContext =
  oc_Operation :: string
  oc_Key :: string
  oc_Value :: bytes
  oc_Options :: "(string, string) gomap"
  oc_Timeout :: duration
  oc_Consistency :: string

record RoutingResult =
  rtr_Success :: bool
  rtr_Value :: bytes
  rtr_Error :: string
  rtr_Route :: RouteInfo
  rtr_Latency :: duration
  rtr_Attempts :: int
  rtr_Metadata :: "(string, string) gomap"

record RoutedResult =
  ror_Success :: bool
  ror_Value :: bytes
  ror_Error :: string
  ror_Metadata :: "(string, string) gomap"

record Router =
  rt_nodeID :: string
  rt_config :: RouterConfig
  rt_routeCache :: "(string, RouteInfo) gomap"
  rt_cacheTimeout :: duration

record RouterCacheStats =
  rcs_Size :: nat
  rcs_MaxSize :: int
  rcs_Timeout :: duration
  rcs_HitRate :: rat

record RouterStats =
  rts_CacheStats :: RouterCacheStats
  rts_Config :: RouterConfig

definition zeroRoute :: RouteInfo where
  "zeroRoute = \<lparr>rti_Key = [], rti_ShardID = 0, rti_PrimaryNode = [], rti_Replicas = [], rti_CachedAt = zeroTime, rti_IsLocal = False\<rparr>"

definition NewRouter :: "string \<Rightarrow> RouterConfig \<Rightarrow> Router" where
  "NewRouter nodeID config =
     (let config = config
        \<lparr>rtc_CacheTimeout := (if rtc_CacheTimeout config = 0 then 300 * second else rtc_CacheTimeout config),
         rtc_MaxCacheSize := (if rtc_MaxCacheSize config = 0 then 10000 else rtc_MaxCacheSize config),
         rtc_RetryAttempts := (if rtc_RetryAttempts config = 0 then 3 else rtc_RetryAttempts config),
         rtc_RetryDelay := (if rtc_RetryDelay config = 0 then 100 * millisecond else rtc_RetryDelay config),
         rtc_RequestTimeout := (if rtc_RequestTimeout config = 0 then 5 * second else rtc_RequestTimeout config)\<rparr>
      in \<lparr>rt_nodeID = nodeID, rt_config = config, rt_routeCache = [], rt_cacheTimeout = rtc_CacheTimeout config\<rparr>)"

section \<open>The route cache\<close>

definition getCachedRoute :: "gtime \<Rightarrow> string \<Rightarrow> Router \<Rightarrow> RouteInfo option \<times> Router" where
  "getCachedRoute now key r =
     (case gm_get (rt_routeCache r) key of
        None \<Rightarrow> (None, r)
      | Some route \<Rightarrow>
          if rt_cacheTimeout r < timeSub now (rti_CachedAt route)
          then (None, r\<lparr>rt_routeCache := gm_del key (rt_routeCache r)\<rparr>) else (Some route, r))"

text \<open>The search starts with the empty key, which it takes for \<open>none found\<close> at the end.\<close>

definition oldestEntry :: "(string, RouteInfo) gomap \<Rightarrow> string" where
  "oldestEntry m =
     fst (fold (\<lambda>(key, route) (oldestKey, oldestTime).
            case oldestTime of
              None \<Rightarrow> (key, Some (rti_CachedAt route))
            | Some t \<Rightarrow> if rti_CachedAt route < t then (key, Some (rti_CachedAt route)) else (oldestKey, oldestTime)) m ([], None))"

definition evictOldestEntry :: "Router \<Rightarrow> Router" where
  "evictOldestEntry r =
     (let oldestKey = oldestEntry (rt_routeCache r)
      in if oldestKey \<noteq> [] then r\<lparr>rt_routeCache := gm_del oldestKey (rt_routeCache r)\<rparr> else r)"

definition cacheRoute :: "string \<Rightarrow> RouteInfo \<Rightarrow> Router \<Rightarrow> Router" where
  "cacheRoute key route r =
     (let r = (if rtc_MaxCacheSize (rt_config r) \<le> int (length (rt_routeCache r)) then evictOldestEntry r else r)
      in r\<lparr>rt_routeCache := gm_put key route (rt_routeCache r)\<rparr>)"

definition invalidateRoute :: "string \<Rightarrow> Router \<Rightarrow> Router" where
  "invalidateRoute key r = r\<lparr>rt_routeCache := gm_del key (rt_routeCache r)\<rparr>"

definition InvalidateCache :: "Router \<Rightarrow> Router" where
  "InvalidateCache r = r\<lparr>rt_routeCache := []\<rparr>"

definition GetCacheStats :: "Router \<Rightarrow> RouterCacheStats" where
  "GetCacheStats r = \<lparr>rcs_Size = length (rt_routeCache r), rcs_MaxSize = rtc_MaxCacheSize (rt_config r),
     rcs_Timeout = rt_cacheTimeout r, rcs_HitRate = 0\<rparr>"

definition Router_GetStats :: "Router \<Rightarrow> RouterStats" where
  "Router_GetStats r = \<lparr>rts_CacheStats = GetCacheStats r, rts_Config = rt_config r\<rparr>"

section \<open>Finding the route of a key\<close>

definition isLocalNode :: "string \<Rightarrow> Router \<Rightarrow> bool" where
  "isLocalNode nodeID r = (nodeID = rt_nodeID r)"

definition getHashRingRoute :: "hash \<Rightarrow> HashRing \<Rightarrow> gtime \<Rightarrow> string \<Rightarrow> Router \<Rightarrow> (string + RouteInfo) option" where
  "getHashRingRoute h hr now key r = do {
     nodes \<leftarrow> HR_GetNodes h key 3 hr;
     Some (case nodes of
        Inl err \<Rightarrow> Inl (''failed to get nodes from hash ring: '' @ err)
      | Inr [] \<Rightarrow> Inl ''no nodes available''
      | Inr (n # ns) \<Rightarrow> Inr \<lparr>rti_Key = key, rti_ShardID = 0, rti_PrimaryNode = n, rti_Replicas = n # ns,
          rti_CachedAt = now, rti_IsLocal = isLocalNode n r\<rparr>)
   }"

definition shardRoute :: "gtime \<Rightarrow> string \<Rightarrow> Shard \<Rightarrow> ShardManager \<Rightarrow> Router \<Rightarrow> RouteInfo" where
  "shardRoute now key shard sm r =
     (let leader = (case GetShardLeader (sh_ID shard) sm of
            Inr l \<Rightarrow> l
          | Inl err \<Rightarrow> (case sh_Replicas shard of rep # _ \<Rightarrow> rep | [] \<Rightarrow> []))
      in \<lparr>rti_Key = key, rti_ShardID = sh_ID shard, rti_PrimaryNode = leader, rti_Replicas = sh_Replicas shard,
          rti_CachedAt = now, rti_IsLocal = isLocalNode leader r\<rparr>)"

definition GetRoute :: "hash \<Rightarrow> HashRing \<Rightarrow> (nat \<Rightarrow> gtime) \<Rightarrow> string \<Rightarrow> ShardManager \<Rightarrow> Router \<Rightarrow> ((string + RouteInfo) \<times> Router) option" where
  "GetRoute h hr clk key sm r =
     (let (cached, r) = (if rtc_EnableCaching (rt_config r) then getCachedRoute (clk 0) key r else (None, r))
      in case cached of
           Some route \<Rightarrow> Some (Inr route, r)
         | None \<Rightarrow>
             (case GetShardForKey h key sm of
                Inl err \<Rightarrow> map_option (\<lambda>route. (route, r)) (getHashRingRoute h hr (clk 1) key r)
              | Inr shard \<Rightarrow>
                  (let route = shardRoute (clk 1) key shard sm r
                   in Some (Inr route, if rtc_EnableCaching (rt_config r) then cacheRoute key route r else r))))"

definition GetRouteInfo :: "hash \<Rightarrow> HashRing \<Rightarrow> (nat \<Rightarrow> gtime) \<Rightarrow> string \<Rightarrow> ShardManager \<Rightarrow> Router \<Rightarrow> ((string + RouteInfo) \<times> Router) option" where
  "GetRouteInfo h hr clk key sm r = GetRoute h hr clk key sm r"

section \<open>Executing an operation\<close>

definition shardMeta :: "string \<Rightarrow> Shard \<Rightarrow> (string, string) gomap" where
  "shardMeta operation shard = [(''operation'', operation), (''shard_id'', dec_id (sh_ID shard)), (''leader'', sh_Leader shard)]"

definition executeGet :: "OperationContext \<Rightarrow> Shard \<Rightarrow> RoutedResult" where
  "executeGet opCtx shard =
     \<lparr>ror_Success = True, ror_Value = ''value_for_'' @ oc_Key opCtx, ror_Error = [], ror_Metadata = shardMeta ''GET'' shard\<rparr>"

text \<open>
  The entry goes to the log of the leader's node of the group, when the router runs on the leader and
  the shard has a group; the node is updated in place.
\<close>

definition submitEntry :: "raft_env \<Rightarrow> string \<Rightarrow> bytes \<Rightarrow> Shard \<Rightarrow> Router \<Rightarrow> ShardManager \<Rightarrow> disk \<Rightarrow> string option \<times> ShardManager \<times> disk" where
  "submitEntry en entryType data shard r sm d =
     (case sh_RaftGroup shard of
        None \<Rightarrow> (None, sm, d)
      | Some grp \<Rightarrow>
          if sh_Leader shard \<noteq> rt_nodeID r then (None, sm, d)
          else
            (case CM_GetNode (sh_Leader shard) grp of
               None \<Rightarrow> (None, sm, d)
             | Some leaderNode \<Rightarrow>
                 (case AppendEntry en entryType data leaderNode d of
                    (res, leaderNode, d) \<Rightarrow>
                      ((case res of Inl err \<Rightarrow> Some err | Inr index \<Rightarrow> None),
                       sm\<lparr>smg_shards := gm_put (sh_ID shard) (shard\<lparr>sh_RaftGroup :=
                         Some (grp\<lparr>cm_nodes := gm_put (sh_Leader shard) leaderNode (cm_nodes grp)\<rparr>)\<rparr>) (smg_shards sm)\<rparr>, d))))"

definition executePut :: "raft_env \<Rightarrow> int \<Rightarrow> OperationContext \<Rightarrow> Shard \<Rightarrow> Router \<Rightarrow> ShardManager \<Rightarrow> disk \<Rightarrow>
    (string + RoutedResult) \<times> ShardManager \<times> disk" where
  "executePut en unixNow opCtx shard r sm d =
     (case submitEntry en ''PUT'' (CreatePutOperation unixNow (oc_Key opCtx) (oc_Value opCtx)) shard r sm d of
        (Some err, sm, d) \<Rightarrow> (Inl (''failed to append entry: '' @ err), sm, d)
      | (None, sm, d) \<Rightarrow>
          (Inr \<lparr>ror_Success = True, ror_Value = [], ror_Error = [], ror_Metadata = shardMeta ''PUT'' shard\<rparr>, sm, d))"

definition executeDelete :: "raft_env \<Rightarrow> int \<Rightarrow> OperationContext \<Rightarrow> Shard \<Rightarrow> Router \<Rightarrow> ShardManager \<Rightarrow> disk \<Rightarrow>
    (string + RoutedResult) \<times> ShardManager \<times> disk" where
  "executeDelete en unixNow opCtx shard r sm d =
     (case submitEntry en ''DELETE'' (CreateDeleteOperation unixNow (oc_Key opCtx)) shard r sm d of
        (Some err, sm, d) \<Rightarrow> (Inl (''failed to append delete entry: '' @ err), sm, d)
      | (None, sm, d) \<Rightarrow>
          (Inr \<lparr>ror_Success = True, ror_Value = [], ror_Error = [], ror_Metadata = shardMeta ''DELETE'' shard\<rparr>, sm, d))"

definition executeLocalOperation :: "raft_env \<Rightarrow> int \<Rightarrow> OperationContext \<Rightarrow> RouteInfo \<Rightarrow> Router \<Rightarrow> ShardManager \<Rightarrow> disk \<Rightarrow>
    (string + RoutedResult) \<times> ShardManager \<times> disk" where
  "executeLocalOperation en unixNow opCtx route r sm d =
     (case GetShard (rti_ShardID route) sm of
        Inl err \<Rightarrow> (Inl (''shard '' @ dec_id (rti_ShardID route) @ '' not found: '' @ err), sm, d)
      | Inr shard \<Rightarrow>
          if oc_Operation opCtx = ''GET'' then (Inr (executeGet opCtx shard), sm, d)
          else if oc_Operation opCtx = ''PUT'' then executePut en unixNow opCtx shard r sm d
          else if oc_Operation opCtx = ''DELETE'' then executeDelete en unixNow opCtx shard r sm d
          else (Inl (''unsupported operation: '' @ oc_Operation opCtx), sm, d))"

definition executeRemoteOperation :: "OperationContext \<Rightarrow> RouteInfo \<Rightarrow> RoutedResult" where
  "executeRemoteOperation opCtx route =
     \<lparr>ror_Success = True, ror_Value = ''remote_result_'' @ oc_Key opCtx, ror_Error = [],
      ror_Metadata = [(''node'', rti_PrimaryNode route), (''shard_id'', dec_id (rti_ShardID route)), (''remote'', ''true'')]\<rparr>"

definition executeOperation :: "raft_env \<Rightarrow> int \<Rightarrow> OperationContext \<Rightarrow> RouteInfo \<Rightarrow> Router \<Rightarrow> ShardManager \<Rightarrow> disk \<Rightarrow>
    (string + RoutedResult) \<times> ShardManager \<times> disk" where
  "executeOperation en unixNow opCtx route r sm d =
     (if rti_IsLocal route then executeLocalOperation en unixNow opCtx route r sm d
      else (Inr (executeRemoteOperation opCtx route), sm, d))"

section \<open>Retries\<close>

definition findSubstring :: "string \<Rightarrow> string \<Rightarrow> bool" where
  "findSubstring s substr = list_ex (\<lambda>i. take (length substr) (drop i s) = substr) [0..<Suc (length s) - length substr]"

definition contains :: "string \<Rightarrow> string \<Rightarrow> bool" where
  "contains s substr =
     (length substr \<le> length s \<and> (s = substr \<or> length substr < length s \<and> findSubstring s substr))"

definition shouldRetry :: "string \<Rightarrow> bool" where
  "shouldRetry errorStr = (if contains errorStr ''not found'' \<or> contains errorStr ''invalid'' then False else True)"

text \<open>What an attempt takes from outside: the clock of the search for a route, and what the Raft node takes.\<close>

record attempt_io =
  ai_clk :: "nat \<Rightarrow> gtime"
  ai_unix :: int
  ai_env :: raft_env

type_synonym route_state = "Router \<times> ShardManager \<times> disk"

function routeLoop :: "hash \<Rightarrow> HashRing \<Rightarrow> (int \<Rightarrow> attempt_io) \<Rightarrow> OperationContext \<Rightarrow> int \<Rightarrow> int \<Rightarrow> RouteInfo \<Rightarrow> RoutingResult \<Rightarrow>
    route_state \<Rightarrow> (RoutingResult \<times> route_state) option" where
  "routeLoop h hr io opCtx retryAttempts attempt route result (r, sm, d) =
     (if retryAttempts < attempt then Some (result, r, sm, d)
      else
        (let result = result\<lparr>rtr_Attempts := attempt\<rparr>;
             (res, sm, d) = executeOperation (ai_env (io attempt)) (ai_unix (io attempt)) opCtx route r sm d
         in case res of
              Inr ok \<Rightarrow> Some (result\<lparr>rtr_Success := True, rtr_Value := ror_Value ok,
                rtr_Metadata := fold (\<lambda>(k, v). gm_put k v) (ror_Metadata ok) (rtr_Metadata result)\<rparr>, r, sm, d)
            | Inl err \<Rightarrow>
                if attempt < retryAttempts \<and> shouldRetry err then
                  (let r = (if rtc_EnableCaching (rt_config r) then invalidateRoute (oc_Key opCtx) r else r)
                   in case GetRoute h hr (ai_clk (io attempt)) (oc_Key opCtx) sm r of
                        None \<Rightarrow> None
                      | Some (Inl e, r) \<Rightarrow> Some (result\<lparr>rtr_Error := ''failed to get route on retry: '' @ e\<rparr>, r, sm, d)
                      | Some (Inr route, r) \<Rightarrow>
                          routeLoop h hr io opCtx retryAttempts (attempt + 1) route (result\<lparr>rtr_Route := route\<rparr>) (r, sm, d))
                else Some (result\<lparr>rtr_Error := err\<rparr>, r, sm, d)))"
  by pat_completeness auto
termination
  by (relation "measure (\<lambda>(h, hr, io, opCtx, retryAttempts, attempt, route, result, st). nat (retryAttempts + 1 - attempt))") auto

text \<open>
  The error of a failed operation is returned beside the result. The latency is the difference of two
  readings of the clock.
\<close>

definition RouteOperation :: "hash \<Rightarrow> HashRing \<Rightarrow> gtime \<times> gtime \<Rightarrow> (int \<Rightarrow> attempt_io) \<Rightarrow> OperationContext \<Rightarrow> route_state \<Rightarrow>
    (RoutingResult \<times> string option \<times> route_state) option" where
  "RouteOperation h hr se io opCtx st =
     (let (r, sm, d) = st;
          latency = timeSub (snd se) (fst se);
          result = \<lparr>rtr_Success = False, rtr_Value = [], rtr_Error = [], rtr_Route = zeroRoute, rtr_Latency = 0, rtr_Attempts = 0,
            rtr_Metadata = []\<rparr>
      in case GetRoute h hr (ai_clk (io 0)) (oc_Key opCtx) sm r of
           None \<Rightarrow> None
         | Some (Inl err, r) \<Rightarrow>
             Some (result\<lparr>rtr_Error := ''failed to get route: '' @ err, rtr_Latency := latency\<rparr>, Some err, r, sm, d)
         | Some (Inr route, r) \<Rightarrow>
             map_option (\<lambda>(result, st). (result\<lparr>rtr_Latency := latency\<rparr>,
               (if rtr_Success result then None
                else Some (''operation failed after '' @ dec_int (rtr_Attempts result) @ '' attempts: '' @ rtr_Error result)), st))
               (routeLoop h hr io opCtx (rtc_RetryAttempts (rt_config r)) 1 route (result\<lparr>rtr_Route := route\<rparr>) (r, sm, d)))"

section \<open>What the parts do\<close>

lemma findSubstring_iff: "findSubstring s substr \<and> length substr \<le> length s \<longleftrightarrow> Contains s substr"
proof
  assume "findSubstring s substr \<and> length substr \<le> length s"
  then obtain i where "take (length substr) (drop i s) = substr" by (auto simp: findSubstring_def list_ex_iff)
  then have "s = take i s @ substr @ drop (length substr) (drop i s)" by (metis append_take_drop_id)
  then show "Contains s substr" unfolding Contains_iff by blast
next
  assume "Contains s substr"
  then obtain xs ys where "s = xs @ substr @ ys" by (auto simp: Contains_iff)
  then show "findSubstring s substr \<and> length substr \<le> length s"
    by (auto simp: findSubstring_def list_ex_iff intro!: bexI [of _ "length xs"])
qed

lemma contains_iff: "contains s substr \<longleftrightarrow> Contains s substr"
proof -
  have "Contains s s" unfolding Contains_iff by (intro exI [of _ "[]"]) simp
  moreover have "s = substr" if "Contains s substr" "length s \<le> length substr"
    using that by (auto simp: Contains_iff)
  ultimately show ?thesis using findSubstring_iff [of s substr] by (auto simp: contains_def not_le [symmetric])
qed

lemma shardRoute_cong: "rt_nodeID r = rt_nodeID r' \<Longrightarrow> shardRoute now key shard sm r = shardRoute now key shard sm r'"
  by (simp add: shardRoute_def isLocalNode_def)

lemma cache_frame [simp]:
  "rt_nodeID (cacheRoute key route r) = rt_nodeID r" "rt_config (cacheRoute key route r) = rt_config r"
  "rt_cacheTimeout (cacheRoute key route r) = rt_cacheTimeout r"
  "rt_nodeID (evictOldestEntry r) = rt_nodeID r" "rt_config (evictOldestEntry r) = rt_config r"
  "rt_nodeID (invalidateRoute key r) = rt_nodeID r" "rt_config (invalidateRoute key r) = rt_config r"
  "rt_cacheTimeout (invalidateRoute key r) = rt_cacheTimeout r"
  "rt_nodeID (snd (getCachedRoute now key r)) = rt_nodeID r" "rt_config (snd (getCachedRoute now key r)) = rt_config r"
  "rt_cacheTimeout (snd (getCachedRoute now key r)) = rt_cacheTimeout r"
  by (auto simp: cacheRoute_def evictOldestEntry_def invalidateRoute_def getCachedRoute_def Let_def split: option.split)

text \<open>A search either answers from the cache, or looks the shard up and caches what it finds, or asks the ring.\<close>

lemma GetRoute_cases:
  assumes "GetRoute h hr clk key sm r = Some (res, r')"
  obtains (cached) route where "res = Inr route" "gm_get (rt_routeCache r) key = Some route" "rtc_EnableCaching (rt_config r)"
      "timeSub (clk 0) (rti_CachedAt route) \<le> rt_cacheTimeout r" "r' = r"
    | (shard) shard r1 where "GetShardForKey h key sm = Inr shard" "res = Inr (shardRoute (clk 1) key shard sm r)"
      "r1 = r \<or> r1 = r\<lparr>rt_routeCache := gm_del key (rt_routeCache r)\<rparr>" "r' = r1 \<or> r' = cacheRoute key (shardRoute (clk 1) key shard sm r) r1"
    | (ring) err where "GetShardForKey h key sm = Inl err" "getHashRingRoute h hr (clk 1) key r = Some res"
      "r' = r \<or> r' = r\<lparr>rt_routeCache := gm_del key (rt_routeCache r)\<rparr>"
proof -
  define c where "c = (if rtc_EnableCaching (rt_config r) then getCachedRoute (clk 0) key r else (None, r))"
  have r1: "snd c = r \<or> snd c = r\<lparr>rt_routeCache := gm_del key (rt_routeCache r)\<rparr>"
    by (auto simp: c_def getCachedRoute_def split: option.split)
  have node: "rt_nodeID (snd c) = rt_nodeID r" by (simp add: c_def)
  show thesis
  proof (cases "fst c")
    case (Some route)
    then have "rtc_EnableCaching (rt_config r)" "gm_get (rt_routeCache r) key = Some route"
      "timeSub (clk 0) (rti_CachedAt route) \<le> rt_cacheTimeout r" "snd c = r"
      by (auto simp: c_def getCachedRoute_def split: if_splits option.splits)
    moreover have "res = Inr route" "r' = snd c"
      using assms Some by (simp_all add: GetRoute_def Let_def c_def [symmetric] case_prod_beta)
    ultimately show thesis by (intro cached) simp_all
  next
    case None
    show thesis
    proof (cases "GetShardForKey h key sm")
      case (Inl err)
      then have "getHashRingRoute h hr (clk 1) key (snd c) = Some res" "snd c = r'"
        using assms None by (auto simp: GetRoute_def Let_def c_def [symmetric] case_prod_beta)
      moreover have "getHashRingRoute h hr (clk 1) key (snd c) = getHashRingRoute h hr (clk 1) key r"
        unfolding getHashRingRoute_def isLocalNode_def node ..
      ultimately show thesis using r1 Inl by (intro ring) simp_all
    next
      case (Inr s)
      have e: "shardRoute t key s sm (snd c) = shardRoute t key s sm r" for t by (rule shardRoute_cong [OF node])
      have "res = Inr (shardRoute (clk 1) key s sm r)" "r' = snd c \<or> r' = cacheRoute key (shardRoute (clk 1) key s sm r) (snd c)"
        using assms None Inr by (auto simp: GetRoute_def Let_def c_def [symmetric] case_prod_beta e split: if_splits)
      then show thesis using shard [OF Inr _ r1] by blast
    qed
  qed
qed

section \<open>How old a route may be\<close>

datatype route_event =
    RE_GetRoute HashRing "nat \<Rightarrow> gtime" string ShardManager
  | RE_invalidateRoute string
  | RE_InvalidateCache

fun route_step :: "hash \<Rightarrow> route_event \<Rightarrow> Router \<Rightarrow> Router" where
  "route_step h (RE_GetRoute hr clk key sm) r = (case GetRoute h hr clk key sm r of Some (res, r') \<Rightarrow> r' | None \<Rightarrow> r)"
| "route_step h (RE_invalidateRoute key) r = invalidateRoute key r"
| "route_step h RE_InvalidateCache r = InvalidateCache r"

text \<open>Every cached route is the route some earlier search found.\<close>

definition routes_from :: "hash \<Rightarrow> route_event list \<Rightarrow> Router \<Rightarrow> bool" where
  "routes_from h es r \<longleftrightarrow> (\<forall>key route. gm_get (rt_routeCache r) key = Some route \<longrightarrow>
     (\<exists>hr clk sm shard. RE_GetRoute hr clk key sm \<in> set es \<and> GetShardForKey h key sm = Inr shard \<and>
        route = shardRoute (clk 1) key shard sm r))"

definition frame :: "Router \<Rightarrow> Router \<Rightarrow> bool" where
  "frame r r' \<longleftrightarrow> rt_nodeID r' = rt_nodeID r \<and> rt_config r' = rt_config r \<and> rt_cacheTimeout r' = rt_cacheTimeout r"

lemma cacheRoute_get:
  "gm_get (rt_routeCache (cacheRoute key route r)) k = Some x \<Longrightarrow> k = key \<and> x = route \<or> gm_get (rt_routeCache r) k = Some x"
  by (auto simp: cacheRoute_def evictOldestEntry_def Let_def split: if_splits)

lemma route_step_frame: "frame r (route_step h e r)"
proof (cases e)
  case (RE_GetRoute hr clk key sm)
  show ?thesis
  proof (cases "GetRoute h hr clk key sm r")
    case (Some a)
    obtain res r' where "a = (res, r')" by force
    with Some have "GetRoute h hr clk key sm r = Some (res, r')" by simp
    then show ?thesis using Some RE_GetRoute \<open>a = (res, r')\<close>
      by (cases rule: GetRoute_cases) (auto simp: frame_def)
  qed (simp add: RE_GetRoute frame_def)
qed (simp_all add: frame_def InvalidateCache_def)

lemma routes_from_step:
  assumes "routes_from h es r"
  shows "routes_from h (es @ [e]) (route_step h e r)"
proof -
  have keep: "\<exists>hr clk sm shard. RE_GetRoute hr clk key sm \<in> set (es @ [e]) \<and> GetShardForKey h key sm = Inr shard \<and>
      route = shardRoute (clk 1) key shard sm (route_step h e r)" if old: "gm_get (rt_routeCache r) key = Some route" for key route
  proof -
    obtain hr clk sm shard where "RE_GetRoute hr clk key sm \<in> set es" "GetShardForKey h key sm = Inr shard"
      "route = shardRoute (clk 1) key shard sm r"
      using assms old unfolding routes_from_def by blast
    moreover have "shardRoute (clk 1) key shard sm (route_step h e r) = shardRoute (clk 1) key shard sm r"
      using route_step_frame [of r h e] by (intro shardRoute_cong) (simp add: frame_def)
    ultimately show ?thesis by (metis Un_iff set_append)
  qed
  have "gm_get (rt_routeCache r) k = Some route \<or> (\<exists>hr clk sm shard. e = RE_GetRoute hr clk k sm \<and> GetShardForKey h k sm = Inr shard \<and>
      route = shardRoute (clk 1) k shard sm r)" if *: "gm_get (rt_routeCache (route_step h e r)) k = Some route" for k route
  proof (cases e)
    case (RE_GetRoute hr clk key sm)
    show ?thesis
    proof (cases "GetRoute h hr clk key sm r")
      case (Some a)
      obtain res r' where a: "a = (res, r')" by force
      with Some have "GetRoute h hr clk key sm r = Some (res, r')" by simp
      then show ?thesis using Some RE_GetRoute a *
        by (cases rule: GetRoute_cases) (auto split: if_splits dest!: cacheRoute_get)
    qed (use * RE_GetRoute in simp)
  qed (use * in \<open>auto simp: invalidateRoute_def InvalidateCache_def split: if_splits\<close>)
  then show ?thesis
    using keep route_step_frame [of r h e] unfolding routes_from_def frame_def
    by (metis in_set_conv_decomp list.set_intros(1) set_append Un_iff shardRoute_cong)
qed

lemma routes_from_run:
  "routes_from h es0 r0 \<Longrightarrow> routes_from h (es0 @ es) (fold (route_step h) es r0) \<and> frame r0 (fold (route_step h) es r0)"
proof (induction es arbitrary: es0 r0)
  case (Cons e es)
  then show ?case
    using Cons.IH [OF routes_from_step [OF Cons.prems, of e]] route_step_frame [of r0 h e] by (simp add: frame_def)
qed (simp add: frame_def)

section \<open>The size of the cache\<close>

lemma oldestEntry_fold:
  "fst (fold (\<lambda>(key, route) (oldestKey, oldestTime).
      case oldestTime of
        None \<Rightarrow> (key, Some (rti_CachedAt route))
      | Some t \<Rightarrow> if rti_CachedAt route < t then (key, Some (rti_CachedAt route)) else (oldestKey, oldestTime)) m (k, t)) \<in>
     fst ` set m \<union> (if t = None \<and> m \<noteq> [] then {} else {k})"
proof (induction m arbitrary: k t)
  case (Cons p m)
  obtain a b where p: "p = (a, b)" by force
  show ?case
  proof (cases "t = None \<or> rti_CachedAt b < the t")
    case True
    then show ?thesis using Cons.IH [of a "Some (rti_CachedAt b)"] by (auto simp: p split: option.split)
  next
    case False
    then obtain u where "t = Some u" "\<not> rti_CachedAt b < u" by auto
    then show ?thesis using Cons.IH [of k t] by (auto simp: p)
  qed
qed simp

lemma oldestEntry_mem: "m \<noteq> [] \<Longrightarrow> oldestEntry m \<in> fst ` set m"
  using oldestEntry_fold [of m "[]" None] by (simp add: oldestEntry_def)

definition cache_ok :: "int \<Rightarrow> Router \<Rightarrow> bool" where
  "cache_ok n r \<longleftrightarrow> gm_ok (rt_routeCache r) \<and> [] \<notin> fst ` set (rt_routeCache r) \<and> int (length (rt_routeCache r)) \<le> n \<and>
     rtc_MaxCacheSize (rt_config r) = n"

lemma cache_ok_del: "cache_ok n r \<Longrightarrow> cache_ok n (r\<lparr>rt_routeCache := gm_del k (rt_routeCache r)\<rparr>)"
  using keys_del [of k "rt_routeCache r"] length_gm_del [of "rt_routeCache r" k] by (auto simp: cache_ok_def split: if_splits)

lemma cache_ok_cacheRoute:
  assumes ok: "cache_ok n r" and k: "key \<noteq> []" and n: "0 < n"
  shows "cache_ok n (cacheRoute key route r)"
proof -
  define r1 where "r1 = (if rtc_MaxCacheSize (rt_config r) \<le> int (length (rt_routeCache r)) then evictOldestEntry r else r)"
  have "cache_ok n r1 \<and> int (length (rt_routeCache r1)) < n"
  proof (cases "n \<le> int (length (rt_routeCache r))")
    case True
    define o1 where "o1 = oldestEntry (rt_routeCache r)"
    have mem: "o1 \<in> fst ` set (rt_routeCache r)" using True n by (auto simp: o1_def intro!: oldestEntry_mem)
    then have o1: "o1 \<noteq> []" "gm_get (rt_routeCache r) o1 \<noteq> None" using ok unfolding cache_ok_def map_of_eq_None_iff by blast+
    have "r1 = r\<lparr>rt_routeCache := gm_del o1 (rt_routeCache r)\<rparr>"
      using True ok o1 by (simp add: r1_def evictOldestEntry_def o1_def [symmetric] cache_ok_def)
    then show ?thesis
      using cache_ok_del [OF ok, of o1] length_gm_del [of "rt_routeCache r" o1] ok o1 n by (auto simp: cache_ok_def)
  qed (use ok in \<open>simp add: r1_def cache_ok_def\<close>)
  then show ?thesis
    using k keys_put [of key route "rt_routeCache r1"] length_gm_put [of key route "rt_routeCache r1"]
    by (auto simp: cacheRoute_def r1_def [symmetric] Let_def cache_ok_def)
qed

fun non_empty_key :: "route_event \<Rightarrow> bool" where
  "non_empty_key (RE_GetRoute hr clk key sm) = (key \<noteq> [])"
| "non_empty_key e = True"

lemma cache_ok_step:
  assumes ok: "cache_ok n r" and k: "non_empty_key e" and n: "0 < n"
  shows "cache_ok n (route_step h e r)"
proof (cases e)
  case (RE_GetRoute hr clk key sm)
  show ?thesis
  proof (cases "GetRoute h hr clk key sm r")
    case (Some a)
    obtain res r' where a: "a = (res, r')" by force
    with Some have "GetRoute h hr clk key sm r = Some (res, r')" by simp
    then have "cache_ok n r'"
      by (cases rule: GetRoute_cases) (use ok k n RE_GetRoute in \<open>auto intro!: cache_ok_cacheRoute cache_ok_del\<close>)
    then show ?thesis using Some RE_GetRoute a by simp
  qed (use ok RE_GetRoute in simp)
qed (use ok n cache_ok_del [OF ok] in \<open>auto simp: invalidateRoute_def InvalidateCache_def cache_ok_def\<close>)

lemma cache_ok_run: "cache_ok n r \<Longrightarrow> list_all non_empty_key es \<Longrightarrow> 0 < n \<Longrightarrow> cache_ok n (fold (route_step h) es r)"
  by (induction es arbitrary: r) (auto intro: cache_ok_step)

section \<open>Local writes\<close>

lemma route_first_attempt:
  assumes "GetRoute h hr (ai_clk (io 0)) (oc_Key opCtx) sm r = Some (Inr route, r1)" and "1 \<le> rtc_RetryAttempts (rt_config r1)"
    and "executeOperation (ai_env (io 1)) (ai_unix (io 1)) opCtx route r1 sm d = (Inr ok, sm', d')"
  obtains result where "RouteOperation h hr se io opCtx (r, sm, d) = Some (result, None, r1, sm', d')"
    "rtr_Success result" "rtr_Attempts result = 1" "rtr_Route result = route"
  using assms that by (simp add: RouteOperation_def Let_def)

lemma AppendEntry_leader:
  assumes "AppendEntry en ty data node d = (Inr index, node', d')"
  shows "rn_log node' = rn_log node @ [\<lparr>le_Index = index, le_Term = rn_currentTerm node, le_Type = ty, le_Data = data,
    le_Timestamp = en_now en div 1000000000\<rparr>]"
  using assms by (auto simp: AppendEntry_def Let_def split: if_splits prod.splits option.splits)

definition groupNode :: "shard_id \<Rightarrow> string \<Rightarrow> ShardManager \<Rightarrow> RaftNode option" where
  "groupNode shardID nodeID sm = do {
     shard \<leftarrow> gm_get (smg_shards sm) shardID;
     grp \<leftarrow> sh_RaftGroup shard;
     CM_GetNode nodeID grp
   }"

lemma GetRoute_frame: "GetRoute h hr clk key sm r = Some (res, r') \<Longrightarrow> rt_nodeID r' = rt_nodeID r \<and> rt_config r' = rt_config r"
  by (erule GetRoute_cases) auto

section \<open>Example\<close>

declare getNodesLoop.simps [code]

definition sampleRouterConfig :: RouterConfig where
  "sampleRouterConfig = \<lparr>rtc_EnableCaching = True, rtc_CacheTimeout = 10, rtc_MaxCacheSize = 1, rtc_RetryAttempts = 0, rtc_RetryDelay = 0,
     rtc_RequestTimeout = 0, rtc_EnableMetrics = False\<rparr>"

definition sampleGroup :: ClusterManager where
  "sampleGroup = \<lparr>cm_nodes = [(''b'', (sampleNode ''b'' [] [])\<lparr>rn_state := Leader, rn_currentTerm := 1\<rparr>)], cm_config = sampleCluster [''b''],
     cm_grpcServers = [], cm_listeners = [], cm_shutdown = False\<rparr>"

definition sampleManager :: "string \<Rightarrow> ShardManager" where
  "sampleManager leader = sampleShards [(1, (sampleShard 1 0 (- 1))\<lparr>sh_RaftGroup := Some sampleGroup, sh_Leader := leader\<rparr>)]"

definition sampleAttempt :: attempt_io where
  "sampleAttempt = \<lparr>ai_clk = \<lambda>i. 5, ai_unix = 0, ai_env = sampleEnv\<rparr>"

definition samplePut :: OperationContext where
  "samplePut = \<lparr>oc_Operation = ''PUT'', oc_Key = ''d'', oc_Value = ''v'', oc_Options = [], oc_Timeout = 0, oc_Consistency = []\<rparr>"

definition sampleRoute :: RouteInfo where
  "sampleRoute = \<lparr>rti_Key = ''d'', rti_ShardID = 1, rti_PrimaryNode = ''b'', rti_Replicas = [''b'', ''f''], rti_CachedAt = 5, rti_IsLocal = True\<rparr>"

abbreviation sampleRouter :: Router where
  "sampleRouter \<equiv> NewRouter ''b'' sampleRouterConfig"

abbreviation sampleRing :: HashRing where
  "sampleRing \<equiv> ring_run sample_hash 2 sample_ops"

lemma sample_routes:
  "GetRoute sample_hash sampleRing (\<lambda>i. 5) ''d'' (sampleManager ''b'') sampleRouter = Some (Inr sampleRoute, cacheRoute ''d'' sampleRoute sampleRouter)"
  "GetRoute sample_hash sampleRing (\<lambda>i. 5) ''d'' (sampleManager ''f'') sampleRouter = Some (Inr sampleRoute, cacheRoute ''d'' sampleRoute sampleRouter)"
  by code_simp+

lemma sample_append:
  "\<exists>node' d'. AppendEntry sampleEnv ''PUT'' (CreatePutOperation 0 ''d'' ''v'') (the (groupNode 1 ''b'' (sampleManager ''b''))) Map.empty = (Inr 1, node', d')"
proof -
  have "fst (AppendEntry sampleEnv ''PUT'' (CreatePutOperation 0 ''d'' ''v'') (the (groupNode 1 ''b'' (sampleManager ''b''))) Map.empty) = Inr 1"
    by (simp add: AppendEntry_def sampleEnv_def io_ok_def LS_AppendEntries_def persist_def Let_def groupNode_def
        sampleManager_def sampleShards_def sampleShard_def sampleGroup_def CM_GetNode_def sample_defs empty_LogStorage_def getLastLogIndex_def i64_def)
  then show ?thesis by (metis prod.collapse)
qed

section \<open>Properties\<close>

text \<open>
  C19. A cached route is never older than the time-out of the cache. After any history of searches,
  while shards and leaders change, and invalidations, a search returns the route that a router without
  a cache would return now, or the one that it returned for the same key in an earlier search of the history,
  at most the time-out before.
\<close>

theorem routes_boundedly_stale:
  assumes "r = fold (route_step h) es (NewRouter nodeID config)" and "GetRoute h hr clk key sm r = Some (Inr route, r')"
    and "uncached = NewRouter nodeID (config\<lparr>rtc_EnableCaching := False\<rparr>)"
  shows "GetRoute h hr clk key sm uncached = Some (Inr route, uncached) \<or>
    (\<exists>hr' clk' sm'. RE_GetRoute hr' clk' key sm' \<in> set es \<and> GetRoute h hr' clk' key sm' uncached = Some (Inr route, uncached) \<and>
       timeSub (clk 0) (clk' 1) \<le> rt_cacheTimeout uncached)"
proof -
  have off: "\<not> rtc_EnableCaching (rt_config uncached)" by (simp add: assms(3) NewRouter_def Let_def)
  have "routes_from h ([] @ es) r \<and> frame (NewRouter nodeID config) r"
    unfolding assms(1) by (rule routes_from_run) (simp add: routes_from_def NewRouter_def Let_def)
  then have from_es: "routes_from h es r" and node: "rt_nodeID r = rt_nodeID uncached"
    and timeout: "rt_cacheTimeout r = rt_cacheTimeout uncached"
    by (simp_all add: frame_def assms(3) NewRouter_def Let_def)
  have fresh: "GetRoute h hr clk key sm uncached = Some (Inr (shardRoute (clk 1) key shard sm r), uncached)"
    if "GetShardForKey h key sm = Inr shard" for hr clk sm shard
    using that off shardRoute_cong [OF node] by (simp add: GetRoute_def Let_def)
  from assms(2) show ?thesis
  proof (cases rule: GetRoute_cases)
    case (cached route')
    then obtain hr' clk' sm' shard where "RE_GetRoute hr' clk' key sm' \<in> set es" "GetShardForKey h key sm' = Inr shard"
      "route = shardRoute (clk' 1) key shard sm' r"
      using from_es unfolding routes_from_def by blast
    moreover have "rti_CachedAt (shardRoute (clk' 1) key shard sm' r) = clk' 1" by (simp add: shardRoute_def Let_def)
    ultimately show ?thesis using fresh [of sm' shard hr' clk'] cached timeout by (metis sum.inject(2))
  next
    case (shard s r1)
    then show ?thesis using fresh [of sm s hr clk] by simp
  next
    case (ring err)
    have "getHashRingRoute h hr (clk 1) key r = getHashRingRoute h hr (clk 1) key uncached"
      unfolding getHashRingRoute_def isLocalNode_def node ..
    then show ?thesis using ring off by (simp add: GetRoute_def Let_def)
  qed
qed

theorem routes_boundedly_stale_witness:
  "GetRoute sample_hash sampleRing (\<lambda>i. 9) ''d'' (sampleShards [])
     (fold (route_step sample_hash) [RE_GetRoute sampleRing (\<lambda>i. 5) ''d'' (sampleManager ''b'')] sampleRouter) =
     Some (Inr sampleRoute, cacheRoute ''d'' sampleRoute sampleRouter) \<and>
   GetRoute sample_hash sampleRing (\<lambda>i. 9) ''d'' (sampleShards []) (NewRouter ''b'' (sampleRouterConfig\<lparr>rtc_EnableCaching := False\<rparr>)) \<noteq>
     Some (Inr sampleRoute, NewRouter ''b'' (sampleRouterConfig\<lparr>rtc_EnableCaching := False\<rparr>)) \<and>
   (\<exists>hr' clk' sm'. RE_GetRoute hr' clk' ''d'' sm' \<in> set [RE_GetRoute sampleRing (\<lambda>i. 5) ''d'' (sampleManager ''b'')] \<and>
      timeSub 9 (clk' 1) \<le> 10)"
proof -
  let ?u = "NewRouter ''b'' (sampleRouterConfig\<lparr>rtc_EnableCaching := False\<rparr>)"
  have a: "GetRoute sample_hash sampleRing (\<lambda>i. 9) ''d'' (sampleShards [])
     (fold (route_step sample_hash) [RE_GetRoute sampleRing (\<lambda>i. 5) ''d'' (sampleManager ''b'')] sampleRouter) =
     Some (Inr sampleRoute, cacheRoute ''d'' sampleRoute sampleRouter)" by code_simp
  have b: "GetRoute sample_hash sampleRing (\<lambda>i. 9) ''d'' (sampleShards []) ?u \<noteq> Some (Inr sampleRoute, ?u)" by code_simp
  have "rt_cacheTimeout ?u = 10" by code_simp
  with routes_boundedly_stale [OF refl a refl] b a show ?thesis by metis
qed

text \<open>
  The cache of routes never holds more entries than configured, over any history in which the
  empty key is not looked up. (An entry for the empty key is never evicted.)
\<close>

theorem route_cache_bounded:
  assumes "0 \<le> rtc_MaxCacheSize config" and "list_all non_empty_key es"
  shows "int (length (rt_routeCache (fold (route_step h) es (NewRouter nodeID config)))) \<le>
    (if rtc_MaxCacheSize config = 0 then 10000 else rtc_MaxCacheSize config)"
proof -
  let ?n = "if rtc_MaxCacheSize config = 0 then 10000 else rtc_MaxCacheSize config"
  have "cache_ok ?n (fold (route_step h) es (NewRouter nodeID config))"
    using assms by (intro cache_ok_run) (auto simp: cache_ok_def NewRouter_def Let_def)
  then show ?thesis by (simp add: cache_ok_def)
qed

theorem route_cache_bounded_witness:
  "length (rt_routeCache (fold (route_step sample_hash) [RE_GetRoute sampleRing (\<lambda>i. 5) ''d'' (sampleManager ''b''),
     RE_GetRoute sampleRing (\<lambda>i. 6) ''x'' (sampleManager ''b'')] sampleRouter)) \<le> 1"
  using route_cache_bounded [of sampleRouterConfig "[RE_GetRoute sampleRing (\<lambda>i. 5) ''d'' (sampleManager ''b''),
     RE_GetRoute sampleRing (\<lambda>i. 6) ''x'' (sampleManager ''b'')]" sample_hash "''b''"]
  by (simp add: sampleRouterConfig_def)



text \<open>
  C36. A write can be acknowledged and lost. The route of a key follows the leader that the nodes of the
  Raft group report, the write checks the leader recorded in the shard. While the two differ the local node
  reports success at the first attempt and has written nothing: no log and no file has changed.
\<close>

theorem stale_leader_drops_put:
  assumes "GetRoute h hr (ai_clk (io 0)) (oc_Key opCtx) sm r = Some (Inr route, r1)" and "rti_IsLocal route"
    and "1 \<le> rtc_RetryAttempts (rt_config r)" and "oc_Operation opCtx = ''PUT''"
    and "gm_get (smg_shards sm) (rti_ShardID route) = Some shard" and "sh_Leader shard \<noteq> rt_nodeID r"
  shows "\<exists>result. RouteOperation h hr se io opCtx (r, sm, d) = Some (result, None, r1, sm, d) \<and> rtr_Success result \<and> rtr_Attempts result = 1"
proof -
  have r1: "rt_nodeID r1 = rt_nodeID r" "rt_config r1 = rt_config r" using GetRoute_frame [OF assms(1)] by simp_all
  obtain ok where "executeOperation (ai_env (io 1)) (ai_unix (io 1)) opCtx route r1 sm d = (Inr ok, sm, d)"
    using assms(2,4,5,6) r1
    by (cases "sh_RaftGroup shard")
      (simp_all add: executeOperation_def executeLocalOperation_def GetShard_def executePut_def submitEntry_def)
  from route_first_attempt [OF assms(1) _ this, of se] show ?thesis using assms(3) r1(2) by auto
qed

theorem stale_leader_drops_put_witness:
  "\<exists>result r'. RouteOperation sample_hash sampleRing (0, 1) (\<lambda>i. sampleAttempt) samplePut (sampleRouter, sampleManager ''f'', Map.empty) =
     Some (result, None, r', sampleManager ''f'', Map.empty) \<and> rtr_Success result \<and> CM_GetLeader sampleGroup = ''b''"
proof -
  have "CM_GetLeader sampleGroup = ''b''" by code_simp
  moreover define io where "io = (\<lambda>i :: int. sampleAttempt)"
  have "GetRoute sample_hash sampleRing (ai_clk (io 0)) (oc_Key samplePut) (sampleManager ''f'') sampleRouter =
      Some (Inr sampleRoute, cacheRoute ''d'' sampleRoute sampleRouter)" "rti_IsLocal sampleRoute" "1 \<le> rtc_RetryAttempts (rt_config sampleRouter)"
    "oc_Operation samplePut = ''PUT''"
    "gm_get (smg_shards (sampleManager ''f'')) (rti_ShardID sampleRoute) =
       Some ((sampleShard 1 0 (- 1))\<lparr>sh_RaftGroup := Some sampleGroup, sh_Leader := ''f''\<rparr>)"
    "sh_Leader ((sampleShard 1 0 (- 1))\<lparr>sh_RaftGroup := Some sampleGroup, sh_Leader := ''f''\<rparr>) \<noteq> rt_nodeID sampleRouter"
    using sample_routes(2)
    by (simp_all add: io_def sampleAttempt_def samplePut_def sampleRoute_def NewRouter_def sampleRouterConfig_def sampleManager_def
        sampleShards_def sampleShard_def Let_def)
  from stale_leader_drops_put [of sample_hash sampleRing io, OF this, of "(0, 1)" Map.empty] have "\<exists>result. RouteOperation sample_hash sampleRing (0, 1) io samplePut
      (sampleRouter, sampleManager ''f'', Map.empty) = Some (result, None, cacheRoute ''d'' sampleRoute sampleRouter, sampleManager ''f'', Map.empty) \<and>
      rtr_Success result \<and> rtr_Attempts result = 1" .
  ultimately show ?thesis unfolding io_def by blast
qed

end
