(* ===== verification/Coordinator.thy ===== *)
theory Coordinator
  imports Router Step_System "HOL-Library.Multiset"
begin

text \<open>
  The coordinator of transactions over several shards of \<^verbatim>\<open>src/internal/partitioning/coordinator.go\<close>:
  two-phase commit and queries over several shards. The two phases are defined for any way of asking
  the shards, of which the functions the program uses are an instance. They consist of sections
  under the lock of the coordinator, which are definitions of their own, so that a clean-up can be put
  between them. The order in which the shards answer is an argument.
\<close>

section \<open>Data\<close>

datatype TransactionStatus = TxStatusPending | TxStatusPreparing | TxStatusPrepared | TxStatusCommitted | TxStatusAborted | TxStatusTimeout

datatype OperationStatus = OpStatusPending | OpStatusExecuting | OpStatusCompleted | OpStatusFailed

datatype VoteResult = VoteCommit | VoteAbort

datatype QueryStatus = QueryStatusPending | QueryStatusExecuting | QueryStatusCompleted | QueryStatusFailed | QueryStatusTimeout

record CoordinatorConfig =
  coc_TransactionTimeout :: duration
  coc_CleanupInterval :: duration
  coc_MaxTransactions :: int
  coc_EnableDeadlock :: bool
  coc_RetryAttempts :: int
  coc_RetryDelay :: duration

record TransactionOperation =
  to_Type :: string
  to_Key :: string
  to_Value :: bytes
  to_ShardID :: shard_id
  to_Status :: OperationStatus
  to_Result :: "RoutedResult option"
  to_Metadata :: "(string, string) gomap"

record Transaction =
  tx_ID :: string
  tx_StartTime :: gtime
  tx_Status :: TransactionStatus
  tx_Operations :: "TransactionOperation list"
  tx_Participants :: "(shard_id, bool) gomap"
  tx_Votes :: "(shard_id, VoteResult) gomap"
  tx_Coordinator :: string
  tx_Timeout :: duration
  tx_LastActivity :: gtime
  tx_Metadata :: "(string, string) gomap"

record Coordinator =
  co_nodeID :: string
  co_transactions :: "(string, Transaction) gomap"
  co_config :: CoordinatorConfig
  co_txCounter :: w64
  co_ticker :: bool
  co_stopped :: bool

record CoordinatorStats =
  cos_ActiveTransactions :: nat
  cos_TotalTransactions :: nat
  cos_TransactionsByStatus :: "(TransactionStatus, nat) gomap"

record QueryResult =
  qr_ShardID :: shard_id
  qr_Success :: bool
  qr_Data :: string
  qr_Error :: string
  qr_Latency :: duration
  qr_Metadata :: "(string, string) gomap"

record CrossShardQuery =
  csq_ID :: string
  csq_Query :: string
  csq_Shards :: "shard_id list"
  csq_Results :: "(shard_id, QueryResult) gomap"
  csq_Status :: QueryStatus
  csq_StartTime :: gtime
  csq_Timeout :: duration

fun TransactionStatus_String :: "TransactionStatus \<Rightarrow> string" where
  "TransactionStatus_String TxStatusPending = ''pending''"
| "TransactionStatus_String TxStatusPreparing = ''preparing''"
| "TransactionStatus_String TxStatusPrepared = ''prepared''"
| "TransactionStatus_String TxStatusCommitted = ''committed''"
| "TransactionStatus_String TxStatusAborted = ''aborted''"
| "TransactionStatus_String TxStatusTimeout = ''timeout''"

section \<open>Creating a coordinator\<close>

definition NewCoordinator :: "string \<Rightarrow> CoordinatorConfig \<Rightarrow> Coordinator" where
  "NewCoordinator nodeID config =
     \<lparr>co_nodeID = nodeID, co_transactions = [],
      co_config = config
        \<lparr>coc_TransactionTimeout := (if coc_TransactionTimeout config = 0 then 30 * second else coc_TransactionTimeout config),
         coc_CleanupInterval := (if coc_CleanupInterval config = 0 then 60 * second else coc_CleanupInterval config),
         coc_MaxTransactions := (if coc_MaxTransactions config = 0 then 1000 else coc_MaxTransactions config),
         coc_RetryAttempts := (if coc_RetryAttempts config = 0 then 3 else coc_RetryAttempts config),
         coc_RetryDelay := (if coc_RetryDelay config = 0 then 100 * millisecond else coc_RetryDelay config)\<rparr>,
      co_txCounter = 0, co_ticker = False, co_stopped = False\<rparr>"

text \<open>A ticker panics when its interval is not positive, closing a closed channel panics.\<close>

definition CO_Start :: "Coordinator \<Rightarrow> Coordinator option" where
  "CO_Start c = (if coc_CleanupInterval (co_config c) \<le> 0 then None else Some (c\<lparr>co_ticker := True\<rparr>))"

definition CO_Stop :: "Coordinator \<Rightarrow> Coordinator option" where
  "CO_Stop c = (if co_stopped c then None else Some (c\<lparr>co_ticker := False, co_stopped := True\<rparr>))"

section \<open>Building a transaction\<close>

definition newTxID :: "gtime \<Rightarrow> Coordinator \<Rightarrow> string" where
  "newTxID now c = co_nodeID c @ ''_'' @ dec_int (now div second) @ ''_'' @ dec_nat (unat (co_txCounter c))"

definition BeginTransaction :: "(nat \<Rightarrow> gtime) \<Rightarrow> duration \<Rightarrow> Coordinator \<Rightarrow> (string + Transaction) \<times> Coordinator" where
  "BeginTransaction clk timeout c =
     (if coc_MaxTransactions (co_config c) \<le> int (length (co_transactions c)) then (Inl ''maximum transaction limit reached'', c)
      else
        (let c = c\<lparr>co_txCounter := co_txCounter c + 1\<rparr>;
             txID = newTxID (clk 0) c;
             tx = \<lparr>tx_ID = txID, tx_StartTime = clk 1, tx_Status = TxStatusPending, tx_Operations = [], tx_Participants = [],
               tx_Votes = [], tx_Coordinator = co_nodeID c,
               tx_Timeout = (if timeout = 0 then coc_TransactionTimeout (co_config c) else timeout), tx_LastActivity = clk 2,
               tx_Metadata = []\<rparr>
         in (Inr tx, c\<lparr>co_transactions := gm_put txID tx (co_transactions c)\<rparr>)))"

definition txNotFound :: "string \<Rightarrow> string" where
  "txNotFound txID = ''transaction '' @ txID @ '' not found''"

definition addRouted :: "gtime \<Rightarrow> shard_id \<Rightarrow> TransactionOperation \<Rightarrow> Transaction \<Rightarrow> Transaction" where
  "addRouted now shardID operation tx =
     tx\<lparr>tx_Operations := tx_Operations tx @ [operation\<lparr>to_ShardID := shardID, to_Status := OpStatusPending\<rparr>],
        tx_Participants := gm_put shardID True (tx_Participants tx), tx_LastActivity := now\<rparr>"

definition AddOperation :: "hash \<Rightarrow> HashRing \<Rightarrow> (nat \<Rightarrow> gtime) \<Rightarrow> string \<Rightarrow> TransactionOperation \<Rightarrow> ShardManager \<Rightarrow> Router \<Rightarrow> Coordinator \<Rightarrow>
    (string option \<times> Router \<times> Coordinator) option" where
  "AddOperation h hr clk txID operation sm r c =
     (case gm_get (co_transactions c) txID of
        None \<Rightarrow> Some (Some (txNotFound txID), r, c)
      | Some tx \<Rightarrow>
          if tx_Status tx \<noteq> TxStatusPending
          then Some (Some (''cannot add operations to transaction in status '' @ TransactionStatus_String (tx_Status tx)), r, c)
          else
            (case GetRouteInfo h hr clk (to_Key operation) sm r of
               None \<Rightarrow> None
             | Some (Inl err, r) \<Rightarrow> Some (Some (''failed to route operation: '' @ err), r, c)
             | Some (Inr route, r) \<Rightarrow>
                 Some (None, r, c\<lparr>co_transactions :=
                   gm_put txID (addRouted (clk 2) (rti_ShardID route) operation tx) (co_transactions c)\<rparr>)))"

section \<open>Two-phase commit\<close>

definition setStatus :: "gtime \<Rightarrow> TransactionStatus \<Rightarrow> Transaction \<Rightarrow> Transaction" where
  "setStatus now status tx = tx\<lparr>tx_Status := status, tx_LastActivity := now\<rparr>"

definition sendPrepareRequest :: "Transaction \<Rightarrow> shard_id \<Rightarrow> string + VoteResult" where
  "sendPrepareRequest tx shardID = Inr VoteCommit"

definition sendCommitRequest :: "Transaction \<Rightarrow> shard_id \<Rightarrow> string option" where
  "sendCommitRequest tx shardID = None"

definition sendAbortRequest :: "Transaction \<Rightarrow> shard_id \<Rightarrow> string option" where
  "sendAbortRequest tx shardID = None"

text \<open>One shard of the first phase: its vote is recorded, and what goes into the channel of errors.\<close>

definition prepareShard :: "(Transaction \<Rightarrow> shard_id \<Rightarrow> string + VoteResult) \<Rightarrow> shard_id \<Rightarrow> Transaction \<times> string list \<Rightarrow> Transaction \<times> string list" where
  "prepareShard send sID = (\<lambda>(tx, errors).
     case send tx sID of
       Inl err \<Rightarrow> (tx, errors @ [''prepare failed for shard '' @ dec_id sID @ '': '' @ err])
     | Inr vote \<Rightarrow>
         (tx\<lparr>tx_Votes := gm_put sID vote (tx_Votes tx)\<rparr>,
          if vote = VoteAbort then errors @ [''shard '' @ dec_id sID @ '' voted to abort''] else errors))"

definition finishPrepare :: "gtime \<Rightarrow> string list \<Rightarrow> Transaction \<Rightarrow> string option \<times> Transaction" where
  "finishPrepare now errors tx =
     (case errors of
        err # _ \<Rightarrow> (Some err, tx)
      | [] \<Rightarrow>
          (case find (\<lambda>(shardID, vote). vote \<noteq> VoteCommit) (tx_Votes tx) of
             Some (shardID, vote) \<Rightarrow> (Some (''shard '' @ dec_id shardID @ '' did not vote to commit''), tx)
           | None \<Rightarrow> (None, setStatus now TxStatusPrepared tx)))"

definition preparePhase :: "(Transaction \<Rightarrow> shard_id \<Rightarrow> string + VoteResult) \<Rightarrow> shard_id list \<Rightarrow> (nat \<Rightarrow> gtime) \<Rightarrow> Transaction \<Rightarrow>
    string option \<times> Transaction" where
  "preparePhase send order clk tx =
     (let (tx, errors) = fold (prepareShard send) order (setStatus (clk 0) TxStatusPreparing tx, [])
      in finishPrepare (clk 1) errors tx)"

definition commitPhase :: "(Transaction \<Rightarrow> shard_id \<Rightarrow> string option) \<Rightarrow> shard_id list \<Rightarrow> Transaction \<Rightarrow> string option" where
  "commitPhase send order tx =
     (case filter (\<lambda>sID. send tx sID \<noteq> None) order of
        [] \<Rightarrow> None
      | sID # _ \<Rightarrow> Some (''commit failed for shard '' @ dec_id sID @ '': '' @ the (send tx sID)))"

definition abortTransaction :: "gtime \<Rightarrow> Transaction \<Rightarrow> Transaction" where
  "abortTransaction now tx = setStatus now TxStatusAborted tx"

text \<open>The shards answer the first request in the order \<open>order1\<close>, the second in the order \<open>order2\<close>.\<close>

definition runTransaction :: "(Transaction \<Rightarrow> shard_id \<Rightarrow> string + VoteResult) \<Rightarrow> (Transaction \<Rightarrow> shard_id \<Rightarrow> string option) \<Rightarrow>
    shard_id list \<Rightarrow> shard_id list \<Rightarrow> (nat \<Rightarrow> gtime) \<Rightarrow> Transaction \<Rightarrow> string option \<times> Transaction" where
  "runTransaction prepare commit order1 order2 clk tx =
     (case preparePhase prepare order1 clk tx of
        (Some err, tx) \<Rightarrow> (Some (''prepare phase failed: '' @ err), abortTransaction (clk 2) tx)
      | (None, tx) \<Rightarrow>
          (case commitPhase commit order2 tx of
             Some err \<Rightarrow> (Some (''commit phase failed: '' @ err), abortTransaction (clk 2) tx)
           | None \<Rightarrow> (None, setStatus (clk 2) TxStatusCommitted tx)))"

definition ExecuteTransactionWith :: "(Transaction \<Rightarrow> shard_id \<Rightarrow> string + VoteResult) \<Rightarrow> (Transaction \<Rightarrow> shard_id \<Rightarrow> string option) \<Rightarrow>
    (shard_id list \<Rightarrow> shard_id list) \<Rightarrow> (shard_id list \<Rightarrow> shard_id list) \<Rightarrow> (nat \<Rightarrow> gtime) \<Rightarrow> string \<Rightarrow> Coordinator \<Rightarrow> string option \<times> Coordinator" where
  "ExecuteTransactionWith prepare commit perm1 perm2 clk txID c =
     (case gm_get (co_transactions c) txID of
        None \<Rightarrow> (Some (txNotFound txID), c)
      | Some tx \<Rightarrow>
          (let shards = map fst (tx_Participants tx);
               (err, tx) = runTransaction prepare commit (perm1 shards) (perm2 shards) clk tx
           in (err, c\<lparr>co_transactions := gm_put txID tx (co_transactions c)\<rparr>)))"

definition ExecuteTransaction ::
  "(shard_id list \<Rightarrow> shard_id list) \<Rightarrow> (shard_id list \<Rightarrow> shard_id list) \<Rightarrow> (nat \<Rightarrow> gtime) \<Rightarrow> string \<Rightarrow> Coordinator \<Rightarrow> string option \<times> Coordinator" where
  "ExecuteTransaction = ExecuteTransactionWith sendPrepareRequest sendCommitRequest"

section \<open>Queries over several shards\<close>

definition executeShardQuery :: "gtime \<times> gtime \<Rightarrow> string \<Rightarrow> shard_id \<Rightarrow> QueryResult" where
  "executeShardQuery se query shardID =
     \<lparr>qr_ShardID = shardID, qr_Success = True, qr_Data = ''result_from_shard_'' @ dec_id shardID, qr_Error = [],
      qr_Latency = timeSub (snd se) (fst se), qr_Metadata = [(''shard_id'', dec_id shardID)]\<rparr>"

text \<open>The value of the aggregator is only written to the log.\<close>

definition ExecuteCrossShardQuery :: "(gtime \<times> gtime \<Rightarrow> string \<Rightarrow> shard_id \<Rightarrow> QueryResult) \<Rightarrow> gtime \<Rightarrow> (shard_id \<Rightarrow> gtime \<times> gtime) \<Rightarrow>
    CrossShardQuery \<Rightarrow> CrossShardQuery" where
  "ExecuteCrossShardQuery run now se query =
     (let results = fold (\<lambda>sID. gm_put sID (run (se sID) (csq_Query query) sID)) (csq_Shards query) []
      in query\<lparr>csq_StartTime := now, csq_Results := results,
           csq_Status := (if list_all (\<lambda>(i, res). qr_Success res) results then QueryStatusCompleted else QueryStatusFailed)\<rparr>)"

section \<open>Reading and cleaning up\<close>

definition GetTransaction :: "string \<Rightarrow> Coordinator \<Rightarrow> string + Transaction" where
  "GetTransaction txID c = (case gm_get (co_transactions c) txID of None \<Rightarrow> Inl (txNotFound txID) | Some tx \<Rightarrow> Inr tx)"

definition isActive :: "Transaction \<Rightarrow> bool" where
  "isActive tx = (tx_Status tx = TxStatusPending \<or> tx_Status tx = TxStatusPreparing \<or> tx_Status tx = TxStatusPrepared)"

definition GetActiveTransactions :: "Coordinator \<Rightarrow> (string, Transaction) gomap" where
  "GetActiveTransactions c = filter (\<lambda>(i, tx). isActive tx) (co_transactions c)"

definition isFinishedOld :: "gtime \<Rightarrow> Transaction \<Rightarrow> bool" where
  "isFinishedOld now tx =
     ((tx_Status tx = TxStatusCommitted \<or> tx_Status tx = TxStatusAborted \<or> tx_Status tx = TxStatusTimeout) \<and>
      300 * second < timeSub now (tx_LastActivity tx))"

definition timeOutTx :: "gtime \<Rightarrow> Transaction \<Rightarrow> Transaction" where
  "timeOutTx now tx =
     (if tx_Status tx = TxStatusPending \<or> tx_Status tx = TxStatusPreparing
      then (if tx_Timeout tx < timeSub now (tx_StartTime tx) then setStatus now TxStatusTimeout tx else tx) else tx)"

definition cleanupOldTransactions :: "gtime \<Rightarrow> Coordinator \<Rightarrow> Coordinator" where
  "cleanupOldTransactions now c =
     c\<lparr>co_transactions := map (\<lambda>(i, tx). (i, timeOutTx now tx)) (filter (\<lambda>(i, tx). \<not> isFinishedOld now tx) (co_transactions c))\<rparr>"

definition CO_GetStats :: "Coordinator \<Rightarrow> CoordinatorStats" where
  "CO_GetStats c =
     \<lparr>cos_ActiveTransactions = length (filter (\<lambda>(i, tx). isActive tx) (co_transactions c)),
      cos_TotalTransactions = length (co_transactions c),
      cos_TransactionsByStatus = fold (\<lambda>(i, tx). count_up (tx_Status tx)) (co_transactions c) []\<rparr>"

section \<open>Well-formed transactions\<close>

text \<open>
  Every shard an operation touches is a participant, only participants vote, and a prepared or
  committed transaction has the vote to commit of every participant.
\<close>

definition tx_ok :: "Transaction \<Rightarrow> bool" where
  "tx_ok tx \<longleftrightarrow> gm_ok (tx_Votes tx) \<and> (\<forall>operation \<in> set (tx_Operations tx). gm_get (tx_Participants tx) (to_ShardID operation) \<noteq> None) \<and>
     (\<forall>s. gm_get (tx_Votes tx) s \<noteq> None \<longrightarrow> gm_get (tx_Participants tx) s \<noteq> None) \<and>
     (tx_Status tx = TxStatusPrepared \<or> tx_Status tx = TxStatusCommitted \<longrightarrow>
        (\<forall>s. gm_get (tx_Participants tx) s \<noteq> None \<longrightarrow> gm_get (tx_Votes tx) s = Some VoteCommit))"

lemma tx_ok_setStatus:
  "tx_ok tx \<Longrightarrow> (\<And>s. gm_get (tx_Participants tx) s \<noteq> None \<Longrightarrow> gm_get (tx_Votes tx) s = Some VoteCommit) \<Longrightarrow> tx_ok (setStatus now status tx)"
  unfolding tx_ok_def by (simp add: setStatus_def)

lemma tx_ok_unprepared:
  "tx_ok tx \<Longrightarrow> status \<noteq> TxStatusPrepared \<Longrightarrow> status \<noteq> TxStatusCommitted \<Longrightarrow> tx_ok (setStatus now status tx)"
  unfolding tx_ok_def by (simp add: setStatus_def)

lemma tx_ok_votes:
  "tx_ok tx \<Longrightarrow> tx_Status tx = TxStatusPrepared \<or> tx_Status tx = TxStatusCommitted \<Longrightarrow> gm_get (tx_Participants tx) s \<noteq> None \<Longrightarrow>
     gm_get (tx_Votes tx) s = Some VoteCommit"
  unfolding tx_ok_def by blast

lemma prepare_fold:
  assumes "fold (prepareShard send) order (tx, errors) = (tx', errors')"
  shows "tx' = tx\<lparr>tx_Votes := tx_Votes tx'\<rparr> \<and> (gm_ok (tx_Votes tx) \<longrightarrow> gm_ok (tx_Votes tx')) \<and>
    (\<forall>s. gm_get (tx_Votes tx') s \<noteq> None \<longrightarrow> gm_get (tx_Votes tx) s \<noteq> None \<or> s \<in> set order) \<and>
    (errors' = [] \<longrightarrow> errors = [] \<and>
       (\<forall>s. gm_get (tx_Votes tx') s = (if s \<in> set order then Some VoteCommit else gm_get (tx_Votes tx) s)))"
  using assms
proof (induction order arbitrary: tx errors)
  case (Cons s order)
  obtain tx1 errors1 where p: "prepareShard send s (tx, errors) = (tx1, errors1)" by force
  have one: "tx1 = tx\<lparr>tx_Votes := tx_Votes tx1\<rparr>" "gm_ok (tx_Votes tx) \<longrightarrow> gm_ok (tx_Votes tx1)" "\<forall>x. gm_get (tx_Votes tx1) x \<noteq> None \<longrightarrow> gm_get (tx_Votes tx) x \<noteq> None \<or> x = s"
    "errors1 = [] \<Longrightarrow> errors = [] \<and> (\<forall>x. gm_get (tx_Votes tx1) x = (if x = s then Some VoteCommit else gm_get (tx_Votes tx) x))"
    using p by (auto simp: prepareShard_def split: sum.splits if_splits intro: VoteResult.exhaust)
  have "fold (prepareShard send) order (tx1, errors1) = (tx', errors')" using Cons.prems p by simp
  note IH = Cons.IH [OF this]
  have "tx' = tx\<lparr>tx_Votes := tx_Votes tx'\<rparr>" using IH one(1) by (metis (no_types, lifting) Transaction.surjective Transaction.update_convs(6))
  moreover have "\<forall>x. gm_get (tx_Votes tx') x \<noteq> None \<longrightarrow> gm_get (tx_Votes tx) x \<noteq> None \<or> x \<in> set (s # order)"
    using IH one(3) by (metis list.set_intros(1,2))
  moreover have "errors' = [] \<longrightarrow> errors = [] \<and>
      (\<forall>x. gm_get (tx_Votes tx') x = (if x \<in> set (s # order) then Some VoteCommit else gm_get (tx_Votes tx) x))"
    using IH one(4) by auto
  ultimately show ?case using IH one(2) by blast
qed simp

lemma finishPrepare_votes:
  assumes "finishPrepare now errors tx = (err, tx')"
  shows "err \<noteq> None \<and> tx' = tx \<or> err = None \<and> errors = [] \<and> tx' = setStatus now TxStatusPrepared tx \<and> (\<forall>p \<in> set (tx_Votes tx). snd p = VoteCommit)"
  using assms by (auto simp: finishPrepare_def find_None_iff split: list.splits option.splits)

lemma preparePhase_ok:
  assumes ok: "tx_ok tx" and order: "set order = fst ` set (tx_Participants tx)" and p: "preparePhase send order clk tx = (err, tx')"
  shows "tx_ID tx' = tx_ID tx \<and> tx_ok tx' \<and> (err = None \<longrightarrow> tx_Status tx' = TxStatusPrepared)"
proof -
  obtain tx1 errors where f: "fold (prepareShard send) order (setStatus (clk 0) TxStatusPreparing tx, []) = (tx1, errors)" by force
  have fin: "finishPrepare (clk 1) errors tx1 = (err, tx')" using p f by (simp add: preparePhase_def)
  note votes = prepare_fold [OF f]
  have same: "tx_ID tx1 = tx_ID tx" "tx_Operations tx1 = tx_Operations tx" "tx_Participants tx1 = tx_Participants tx"
    "tx_Status tx1 = TxStatusPreparing"
    using arg_cong [OF votes [THEN conjunct1], of tx_ID] arg_cong [OF votes [THEN conjunct1], of tx_Operations]
      arg_cong [OF votes [THEN conjunct1], of tx_Participants] arg_cong [OF votes [THEN conjunct1], of tx_Status]
    by (simp_all add: setStatus_def)
  have mem: "s \<in> set order \<longleftrightarrow> gm_get (tx_Participants tx) s \<noteq> None" for s
    unfolding order by (metis map_of_eq_None_iff)
  have "gm_get (tx_Participants tx) x \<noteq> None" if "gm_get (tx_Votes tx1) x \<noteq> None" for x
    using ok votes that unfolding tx_ok_def mem by (auto simp: setStatus_def)
  then have tx1: "tx_ok tx1" using ok votes unfolding tx_ok_def same by (simp add: setStatus_def)
  from finishPrepare_votes [OF fin] show ?thesis
  proof
    assume "err = None \<and> errors = [] \<and> tx' = setStatus (clk 1) TxStatusPrepared tx1 \<and> (\<forall>p \<in> set (tx_Votes tx1). snd p = VoteCommit)"
    moreover from this have "gm_get (tx_Votes tx1) x = Some VoteCommit" if "gm_get (tx_Participants tx1) x \<noteq> None" for x
      using votes that unfolding same mem by auto
    ultimately show ?thesis using tx_ok_setStatus [OF tx1] same by (auto simp: setStatus_def)
  qed (use tx1 same in auto)
qed

lemma runTransaction_ok:
  assumes ok: "tx_ok tx" and order: "set order1 = fst ` set (tx_Participants tx)"
    and p: "runTransaction prepare commit order1 order2 clk tx = (err, tx')"
  shows "tx_ID tx' = tx_ID tx \<and> tx_ok tx'"
proof -
  obtain err1 tx1 where q: "preparePhase prepare order1 clk tx = (err1, tx1)" by force
  note tx1 = preparePhase_ok [OF ok order q]
  have "tx_ok (setStatus (clk 2) TxStatusCommitted tx1)" if "err1 = None"
    using tx1 that by (blast intro: tx_ok_setStatus tx_ok_votes)
  moreover have "tx_ok (abortTransaction (clk 2) tx1)" unfolding abortTransaction_def using tx1 by (intro tx_ok_unprepared) simp_all
  moreover have "tx_ID (setStatus t st tx1) = tx_ID tx1" for t st by (simp add: setStatus_def)
  ultimately show ?thesis
    using p q tx1 by (auto simp: runTransaction_def abortTransaction_def split: option.splits)
qed

section \<open>Runs of a coordinator\<close>

datatype co_event =
    CE_Begin "nat \<Rightarrow> gtime" duration
  | CE_Add HashRing "nat \<Rightarrow> gtime" string TransactionOperation ShardManager Router
  | CE_Execute "Transaction \<Rightarrow> shard_id \<Rightarrow> string + VoteResult" "Transaction \<Rightarrow> shard_id \<Rightarrow> string option"
      "shard_id list \<Rightarrow> shard_id list" "shard_id list \<Rightarrow> shard_id list" "nat \<Rightarrow> gtime" string
  | CE_Cleanup gtime

inductive co_step :: "hash \<Rightarrow> co_event \<Rightarrow> Coordinator \<Rightarrow> Coordinator \<Rightarrow> bool" for h where
  co_begin: "BeginTransaction clk timeout c = (res, c') \<Longrightarrow> co_step h (CE_Begin clk timeout) c c'"
| co_add: "AddOperation h hr clk txID operation sm r c = Some (err, r', c') \<Longrightarrow> co_step h (CE_Add hr clk txID operation sm r) c c'"
| co_execute: "ExecuteTransactionWith prepare commit perm1 perm2 clk txID c = (err, c') \<Longrightarrow>
    co_step h (CE_Execute prepare commit perm1 perm2 clk txID) c c'"
| co_cleanup: "co_step h (CE_Cleanup now) c (cleanupOldTransactions now c)"

text \<open>The counter of transactions does not wrap, and every participant is asked exactly once.\<close>

fun co_ok :: "co_event \<Rightarrow> Coordinator \<Rightarrow> bool" where
  "co_ok (CE_Begin clk timeout) c = (co_txCounter c \<noteq> - 1)"
| "co_ok (CE_Execute prepare commit perm1 perm2 clk txID) c = (\<forall>xs. mset (perm1 xs) = mset xs \<and> mset (perm2 xs) = mset xs)"
| "co_ok e c = True"

definition id_ok :: "Coordinator \<Rightarrow> string \<Rightarrow> bool" where
  "id_ok c i \<longleftrightarrow> (\<exists>u n. i = co_nodeID c @ ''_'' @ dec_int u @ ''_'' @ dec_nat n \<and> n \<le> unat (co_txCounter c))"

definition co_inv :: "Coordinator \<Rightarrow> bool" where
  "co_inv c \<longleftrightarrow> gm_ok (co_transactions c) \<and> int (length (co_transactions c)) \<le> max 0 (coc_MaxTransactions (co_config c)) \<and>
     (\<forall>(i, tx) \<in> set (co_transactions c). id_ok c i \<and> tx_ID tx = i \<and> tx_ok tx)"

text \<open>The coordinator and its limits stay, and the counter grows.\<close>

definition co_leq :: "Coordinator \<Rightarrow> Coordinator \<Rightarrow> bool" where
  "co_leq c c' \<longleftrightarrow> co_nodeID c' = co_nodeID c \<and> co_config c' = co_config c \<and> co_txCounter c \<le> co_txCounter c'"

lemma underscore_suffix:
  assumes "xs @ CHR ''_'' # dec_nat m = ys @ CHR ''_'' # dec_nat n"
  shows "m = n"
proof -
  have digits: "takeWhile is_digit (rev (zs @ CHR ''_'' # dec_nat k)) = rev (dec_nat k)" for zs k
    using dec_nat_digits [of k] by (simp add: takeWhile_append list_all_iff is_digit_def)
  from arg_cong [OF assms, of "\<lambda>zs. takeWhile is_digit (rev zs)"] have "dec_nat m = dec_nat n" unfolding digits by simp
  then show ?thesis by (simp add: dec_nat_inj)
qed

lemma newTxID_fresh:
  assumes inv: "co_inv c" and wrap: "co_txCounter c \<noteq> - 1"
  shows "gm_get (co_transactions c) (newTxID now (c\<lparr>co_txCounter := co_txCounter c + 1\<rparr>)) = None"
proof (rule ccontr)
  let ?i = "newTxID now (c\<lparr>co_txCounter := co_txCounter c + 1\<rparr>)"
  assume "gm_get (co_transactions c) ?i \<noteq> None"
  then obtain tx where "(?i, tx) \<in> set (co_transactions c)" by (auto dest: map_of_SomeD)
  then have "id_ok c ?i" using inv unfolding co_inv_def by blast
  then obtain u n where e: "?i = co_nodeID c @ ''_'' @ dec_int u @ ''_'' @ dec_nat n" and n: "n \<le> unat (co_txCounter c)"
    unfolding id_ok_def by blast
  have "(co_nodeID c @ ''_'' @ dec_int (now div second)) @ CHR ''_'' # dec_nat (unat (co_txCounter c + 1)) =
      (co_nodeID c @ ''_'' @ dec_int u) @ CHR ''_'' # dec_nat n"
    using e by (simp add: newTxID_def)
  then have "unat (co_txCounter c + 1) = n" by (rule underscore_suffix)
  moreover have "unat (co_txCounter c) < unat (co_txCounter c + 1)" using word_less_suc [OF wrap] by (simp add: word_less_nat_alt)
  ultimately show False using n by simp
qed

lemma co_inv_put:
  assumes "co_inv c" and "gm_get (co_transactions c) i = Some tx" and "tx_ID tx' = tx_ID tx" "tx_ok tx'"
  shows "co_inv (c\<lparr>co_transactions := gm_put i tx' (co_transactions c)\<rparr>)"
proof -
  have "tx_ID tx = i" "id_ok c i" using assms(1) map_of_SomeD [OF assms(2)] unfolding co_inv_def by blast+
  moreover have "id_ok (c\<lparr>co_transactions := m\<rparr>) = id_ok c" for m by (simp add: id_ok_def fun_eq_iff)
  ultimately show ?thesis
    using assms length_gm_put [of i tx' "co_transactions c"] unfolding co_inv_def
    by (auto dest!: set_gm_put)
qed

lemma co_inv_get: "co_inv c \<Longrightarrow> gm_get (co_transactions c) i = Some tx \<Longrightarrow> tx_ok tx \<and> tx_ID tx = i"
  using map_of_SomeD [of "co_transactions c" i tx] unfolding co_inv_def by blast

lemma co_inv_begin:
  assumes inv: "co_inv c" and wrap: "co_txCounter c \<noteq> - 1" and p: "BeginTransaction clk timeout c = (res, c')"
  shows "co_inv c'"
proof (cases "coc_MaxTransactions (co_config c) \<le> int (length (co_transactions c))")
  case True
  then show ?thesis using p inv by (simp add: BeginTransaction_def)
next
  case False
  define c1 where "c1 = c\<lparr>co_txCounter := co_txCounter c + 1\<rparr>"
  define i where "i = newTxID (clk 0) c1"
  obtain tx where c': "c' = c1\<lparr>co_transactions := gm_put i tx (co_transactions c1)\<rparr>" "tx_ID tx = i" "tx_ok tx"
    using p False by (auto simp: BeginTransaction_def Let_def c1_def i_def tx_ok_def)
  have fresh: "gm_get (co_transactions c) i = None" unfolding i_def c1_def by (rule newTxID_fresh [OF inv wrap])
  have "id_ok c' i" by (auto simp: id_ok_def c'(1) i_def newTxID_def)
  moreover have "id_ok c' j" if "id_ok c j" for j
  proof -
    from that obtain u n where j: "j = co_nodeID c @ ''_'' @ dec_int u @ ''_'' @ dec_nat n" "n \<le> unat (co_txCounter c)"
      unfolding id_ok_def by blast
    moreover have "unat (co_txCounter c) \<le> unat (co_txCounter c')"
      using word_less_suc [OF wrap] by (simp add: c'(1) c1_def word_less_nat_alt)
    moreover have "co_nodeID c' = co_nodeID c" by (simp add: c'(1) c1_def)
    ultimately show ?thesis unfolding id_ok_def by (metis le_trans)
  qed
  ultimately show ?thesis
    using inv c'(2,3) False length_gm_put [of i tx "co_transactions c"] fresh unfolding co_inv_def
    by (auto simp: c'(1) c1_def dest!: set_gm_put)
qed

lemma co_inv_add:
  assumes inv: "co_inv c" and p: "AddOperation h hr clk txID operation sm r c = Some (err, r', c')"
  shows "co_inv c'"
proof -
  have "c' = c \<or> (\<exists>tx s. gm_get (co_transactions c) txID = Some tx \<and> tx_Status tx = TxStatusPending \<and>
      c' = c\<lparr>co_transactions := gm_put txID (addRouted (clk 2) s operation tx) (co_transactions c)\<rparr>)"
    using p by (auto simp: AddOperation_def split: option.splits if_splits prod.splits sum.splits)
  moreover have "tx_ok (addRouted now s operation tx)" if "tx_ok tx" "tx_Status tx = TxStatusPending" for now s tx
    using that by (auto simp: tx_ok_def addRouted_def)
  ultimately show ?thesis
    using inv co_inv_put [OF inv] co_inv_get [OF inv] by (auto simp: addRouted_def)
qed

lemma co_inv_execute:
  assumes inv: "co_inv c" and perm: "\<forall>xs. mset (perm1 xs) = mset xs"
    and p: "ExecuteTransactionWith prepare commit perm1 perm2 clk txID c = (err, c')"
  shows "co_inv c'"
proof (cases "gm_get (co_transactions c) txID")
  case None
  then show ?thesis using p inv by (simp add: ExecuteTransactionWith_def)
next
  case (Some tx)
  let ?s = "map fst (tx_Participants tx)"
  obtain err1 tx1 where q: "runTransaction prepare commit (perm1 ?s) (perm2 ?s) clk tx = (err1, tx1)" by force
  have "set (perm1 ?s) = fst ` set (tx_Participants tx)" using mset_eq_setD [OF perm [rule_format, of ?s]] by simp
  then have "tx_ID tx1 = tx_ID tx \<and> tx_ok tx1" using co_inv_get [OF inv Some] by (intro runTransaction_ok [OF _ _ q]) auto
  then show ?thesis using p Some q co_inv_put [OF inv Some] by (auto simp: ExecuteTransactionWith_def)
qed

lemma co_inv_cleanup:
  assumes inv: "co_inv c"
  shows "co_inv (cleanupOldTransactions now c)"
proof -
  let ?m = "map (\<lambda>(i, tx). (i, timeOutTx now tx)) (filter (\<lambda>(i, tx). \<not> isFinishedOld now tx) (co_transactions c))"
  have keys: "map fst ?m = map fst (filter (\<lambda>(i, tx). \<not> isFinishedOld now tx) (co_transactions c))" by (simp add: case_prod_beta)
  have "gm_ok ?m" using inv unfolding gm_ok_def keys co_inv_def by (simp add: distinct_map_filter gm_ok_def)
  moreover have "length ?m \<le> length (co_transactions c)" by simp
  moreover have "tx_ok (timeOutTx now tx) \<and> tx_ID (timeOutTx now tx) = tx_ID tx" if "tx_ok tx" for tx
    using that tx_ok_unprepared [OF that] by (auto simp: timeOutTx_def) (simp_all add: setStatus_def)
  moreover have "id_ok (c\<lparr>co_transactions := m\<rparr>) = id_ok c" for m by (simp add: id_ok_def fun_eq_iff)
  ultimately show ?thesis
    using inv unfolding co_inv_def cleanupOldTransactions_def by (auto simp del: length_map)
qed

lemma co_leq_step:
  assumes "co_step h e c c'" and "co_ok e c"
  shows "co_leq c c'"
  using assms
proof (cases rule: co_step.cases)
  case (co_begin clk timeout res)
  then show ?thesis
    using assms(2) word_less_suc [of "co_txCounter c"]
    by (auto simp: BeginTransaction_def Let_def co_leq_def intro: less_imp_le split: if_splits)
next
  case (co_add hr clk txID operation sm r err r')
  then show ?thesis by (auto simp: AddOperation_def co_leq_def split: option.splits if_splits prod.splits sum.splits)
next
  case (co_execute prepare commit perm1 perm2 clk txID err)
  then show ?thesis by (auto simp: ExecuteTransactionWith_def co_leq_def Let_def split: option.splits prod.splits)
qed (simp add: cleanupOldTransactions_def co_leq_def)

interpretation coordinator_runs: step_system "co_step h" co_ok co_inv co_leq
proof
  fix e c c' assume step: "co_step h e c c'" and ok: "co_ok e c" and inv: "co_inv c"
  show "co_leq c c'" by (rule co_leq_step [OF step ok])
  from step show "co_inv c'"
    by (cases rule: co_step.cases)
      (use ok inv in \<open>auto intro: co_inv_begin co_inv_add co_inv_execute co_inv_cleanup\<close>)
qed (auto simp: co_leq_def)

lemma co_inv_new: "co_inv (NewCoordinator nodeID config)"
  by (simp add: co_inv_def NewCoordinator_def)

section \<open>The decision of a transaction\<close>

lemma prepare_errors:
  "snd (fold (prepareShard (\<lambda>tx. answer)) order (tx, errors)) = [] \<longleftrightarrow> errors = [] \<and> (\<forall>s \<in> set order. answer s = Inr VoteCommit)"
proof (induction order arbitrary: tx errors)
  case (Cons s order)
  obtain tx1 errors1 where p: "prepareShard (\<lambda>tx. answer) s (tx, errors) = (tx1, errors1)" by force
  have "errors1 = [] \<longleftrightarrow> errors = [] \<and> answer s = Inr VoteCommit"
    using p VoteResult.exhaust by (auto simp: prepareShard_def split: sum.splits if_splits)
  then show ?case using Cons.IH [of tx1 errors1] p by auto
qed simp

lemma preparePhase_decision:
  assumes ok: "tx_ok tx" and order: "set order = fst ` set (tx_Participants tx)"
  shows "fst (preparePhase (\<lambda>tx. answer) order clk tx) = None \<longleftrightarrow> (\<forall>s \<in> fst ` set (tx_Participants tx). answer s = Inr VoteCommit)"
proof -
  obtain tx1 errors where f: "fold (prepareShard (\<lambda>tx. answer)) order (setStatus (clk 0) TxStatusPreparing tx, []) = (tx1, errors)" by force
  have errors: "errors = [] \<longleftrightarrow> (\<forall>s \<in> fst ` set (tx_Participants tx). answer s = Inr VoteCommit)"
    using prepare_errors [of answer order "setStatus (clk 0) TxStatusPreparing tx" "[]"] f order by simp
  have "fst (finishPrepare (clk 1) errors tx1) = None" if "errors = []"
  proof -
    have votes: "gm_get (tx_Votes tx1) s = (if s \<in> set order then Some VoteCommit else gm_get (tx_Votes tx) s)" "gm_ok (tx_Votes tx1)" for s
      using prepare_fold [OF f] ok that unfolding tx_ok_def by (simp_all add: setStatus_def)
    have "snd p = VoteCommit" if "p \<in> set (tx_Votes tx1)" for p
    proof -
      obtain s v where p: "p = (s, v)" by force
      have v: "gm_get (tx_Votes tx1) s = Some v" using that p votes(2) by (simp add: gm_get_mem)
      then have "s \<in> set order" using votes(1) [of s] ok unfolding order tx_ok_def by (metis map_of_eq_None_iff option.discI)
      then show ?thesis using v votes(1) p by simp
    qed
    then have "find (\<lambda>(shardID, vote). vote \<noteq> VoteCommit) (tx_Votes tx1) = None" by (auto simp: find_None_iff)
    then show ?thesis using that by (simp add: finishPrepare_def)
  qed
  moreover have "errors = []" if "fst (finishPrepare (clk 1) errors tx1) = None" using that by (cases errors) (simp_all add: finishPrepare_def)
  moreover have "preparePhase (\<lambda>tx. answer) order clk tx = finishPrepare (clk 1) errors tx1" using f by (simp add: preparePhase_def)
  ultimately show ?thesis using errors by auto
qed

lemma commitPhase_decision:
  "commitPhase (\<lambda>tx. ack) order tx = None \<longleftrightarrow> (\<forall>s \<in> set order. ack s = None)"
proof -
  have "filter (\<lambda>s. ack s \<noteq> None) order = [] \<longleftrightarrow> (\<forall>s \<in> set order. ack s = None)" by (simp add: filter_empty_conv)
  moreover have "commitPhase (\<lambda>tx. ack) order tx = None \<longleftrightarrow> filter (\<lambda>s. ack s \<noteq> None) order = []"
    unfolding commitPhase_def by (cases "filter (\<lambda>s. ack s \<noteq> None) order") simp_all
  ultimately show ?thesis by simp
qed

lemma runTransaction_decision:
  assumes ok: "tx_ok tx" and order: "set order1 = fst ` set (tx_Participants tx)" "set order2 = fst ` set (tx_Participants tx)"
    and p: "runTransaction (\<lambda>tx. answer) (\<lambda>tx. ack) order1 order2 clk tx = (err, tx')"
  shows "(err = None \<longleftrightarrow> (\<forall>s \<in> fst ` set (tx_Participants tx). answer s = Inr VoteCommit \<and> ack s = None)) \<and>
    tx_Status tx' = (if err = None then TxStatusCommitted else TxStatusAborted)"
proof -
  obtain err1 tx1 where q: "preparePhase (\<lambda>tx. answer) order1 clk tx = (err1, tx1)" by force
  note d = preparePhase_decision [OF ok order(1), of answer clk, unfolded q] commitPhase_decision [of ack order2 tx1, unfolded order(2)]
  show ?thesis using p q d by (auto simp: runTransaction_def abortTransaction_def setStatus_def split: option.splits)
qed

section \<open>Example\<close>

definition sampleLimitsCo :: CoordinatorConfig where
  "sampleLimitsCo = \<lparr>coc_TransactionTimeout = 0, coc_CleanupInterval = 0, coc_MaxTransactions = 1, coc_EnableDeadlock = False, coc_RetryAttempts = 0,
     coc_RetryDelay = 0\<rparr>"

definition sampleTxOp :: TransactionOperation where
  "sampleTxOp = \<lparr>to_Type = ''PUT'', to_Key = ''d'', to_Value = ''v'', to_ShardID = 0, to_Status = OpStatusPending, to_Result = None, to_Metadata = []\<rparr>"

text \<open>A transaction with one write, executed, and one that is left until it times out.\<close>

definition sampleBegun :: Coordinator where
  "sampleBegun = snd (BeginTransaction (\<lambda>i. 0) 1 (NewCoordinator ''n'' sampleLimitsCo))"

definition sampleAdded :: Coordinator where
  "sampleAdded = sampleBegun\<lparr>co_transactions := map (\<lambda>(i, tx). (i, addRouted 5 1 sampleTxOp tx)) (co_transactions sampleBegun)\<rparr>"

definition sampleDone :: Coordinator where
  "sampleDone = snd (ExecuteTransaction (\<lambda>xs. xs) (\<lambda>xs. xs) (\<lambda>i. 6) ''n_0_1'' sampleAdded)"

definition sampleTimedOut :: Coordinator where
  "sampleTimedOut = cleanupOldTransactions 7 sampleAdded"

lemma sample_added:
  "runs (co_step sample_hash) co_ok (NewCoordinator ''n'' sampleLimitsCo)
     [CE_Begin (\<lambda>i. 0) 1, CE_Add sampleRing (\<lambda>i. 5) ''n_0_1'' sampleTxOp (sampleManager ''b'') sampleRouter] sampleAdded"
proof -
  have "co_step sample_hash (CE_Begin (\<lambda>i. 0) 1) (NewCoordinator ''n'' sampleLimitsCo) sampleBegun"
    unfolding sampleBegun_def by (rule co_begin) (rule prod.collapse [symmetric])
  moreover have "map fst (co_transactions sampleBegun) = [''n_0_1''] \<and> map (tx_Status \<circ> snd) (co_transactions sampleBegun) = [TxStatusPending]"
    by code_simp
  then obtain tx where "co_transactions sampleBegun = [(''n_0_1'', tx)]" "tx_Status tx = TxStatusPending" by (auto simp: map_eq_Cons_conv)
  then have "AddOperation sample_hash sampleRing (\<lambda>i. 5) ''n_0_1'' sampleTxOp (sampleManager ''b'') sampleRouter sampleBegun =
      Some (None, cacheRoute ''d'' sampleRoute sampleRouter, sampleAdded)"
    using sample_routes(1) by (simp add: AddOperation_def sampleAdded_def GetRouteInfo_def sampleTxOp_def sampleRoute_def)
  then have "co_step sample_hash (CE_Add sampleRing (\<lambda>i. 5) ''n_0_1'' sampleTxOp (sampleManager ''b'') sampleRouter) sampleBegun sampleAdded"
    by (rule co_add)
  moreover have "co_txCounter (NewCoordinator ''n'' sampleLimitsCo) \<noteq> - 1" by (simp add: NewCoordinator_def)
  ultimately show ?thesis by (auto intro!: runs.intros)
qed

lemma sample_done:
  "runs (co_step sample_hash) co_ok (NewCoordinator ''n'' sampleLimitsCo)
     ([CE_Begin (\<lambda>i. 0) 1, CE_Add sampleRing (\<lambda>i. 5) ''n_0_1'' sampleTxOp (sampleManager ''b'') sampleRouter] @
      [CE_Execute sendPrepareRequest sendCommitRequest (\<lambda>xs. xs) (\<lambda>xs. xs) (\<lambda>i. 6) ''n_0_1'']) sampleDone"
proof -
  have "co_step sample_hash (CE_Execute sendPrepareRequest sendCommitRequest (\<lambda>xs. xs) (\<lambda>xs. xs) (\<lambda>i. 6) ''n_0_1'') sampleAdded sampleDone"
    unfolding sampleDone_def ExecuteTransaction_def by (rule co_execute) (rule prod.collapse [symmetric])
  then have "runs (co_step sample_hash) co_ok sampleAdded
      [CE_Execute sendPrepareRequest sendCommitRequest (\<lambda>xs. xs) (\<lambda>xs. xs) (\<lambda>i. 6) ''n_0_1''] sampleDone"
    by (rule runs_Cons) (simp_all add: runs_Nil)
  then show ?thesis unfolding runs_append using sample_added by blast
qed

lemma sample_timed_out:
  "runs (co_step sample_hash) co_ok (NewCoordinator ''n'' sampleLimitsCo)
     ([CE_Begin (\<lambda>i. 0) 1, CE_Add sampleRing (\<lambda>i. 5) ''n_0_1'' sampleTxOp (sampleManager ''b'') sampleRouter] @ [CE_Cleanup 7]) sampleTimedOut"
proof -
  have "runs (co_step sample_hash) co_ok sampleAdded [CE_Cleanup 7] sampleTimedOut"
    unfolding sampleTimedOut_def by (rule runs_Cons, rule co_cleanup) (simp_all add: runs_Nil)
  then show ?thesis unfolding runs_append using sample_added by blast
qed

abbreviation sampleTx :: "Coordinator \<Rightarrow> Transaction" where
  "sampleTx c \<equiv> the (gm_get (co_transactions c) ''n_0_1'')"

lemma sample_txs:
  "gm_get (co_transactions sampleDone) ''n_0_1'' = Some (sampleTx sampleDone)" "tx_Status (sampleTx sampleDone) = TxStatusCommitted"
  "map to_ShardID (tx_Operations (sampleTx sampleDone)) = [1]" "gm_get (co_transactions sampleAdded) ''n_0_1'' = Some (sampleTx sampleAdded)"
  "gm_get (co_transactions sampleTimedOut) ''n_0_1'' = Some (sampleTx sampleTimedOut)" "tx_Status (sampleTx sampleTimedOut) = TxStatusTimeout"
  "dom (gm_get (tx_Participants (sampleTx sampleAdded))) = {1}"
proof -
  have "map fst (tx_Participants (sampleTx sampleAdded)) = [1]" by code_simp
  then show "dom (gm_get (tx_Participants (sampleTx sampleAdded))) = {1}"
    by (metis dom_map_of_conv_image_fst list.set(1) list.set(2) list.set_map)
qed code_simp+

section \<open>Properties\<close>



text \<open>
  C17. Two-phase commit is safe: in every run, whatever the shards answer and in whatever order, and
  however often transactions are executed, a transaction that is recorded as committed has the vote to commit
  of the shard of each of its operations.
\<close>

theorem committed_means_all_voted:
  assumes "runs (co_step h) co_ok (NewCoordinator nodeID config) es c"
    and "gm_get (co_transactions c) i = Some tx" and "tx_Status tx = TxStatusCommitted" and "operation \<in> set (tx_Operations tx)"
  shows "gm_get (tx_Votes tx) (to_ShardID operation) = Some VoteCommit"
proof -
  have "co_inv c" by (rule coordinator_runs.runs_inv [OF assms(1) co_inv_new])
  then have ok: "tx_ok tx" using co_inv_get assms(2) by blast
  then have "gm_get (tx_Participants tx) (to_ShardID operation) \<noteq> None" using assms(4) unfolding tx_ok_def by blast
  then show ?thesis using tx_ok_votes [OF ok] assms(3) by blast
qed

theorem committed_means_all_voted_witness:
  "gm_get (tx_Votes (sampleTx sampleDone)) 1 = Some VoteCommit"
proof -
  obtain operation where "operation \<in> set (tx_Operations (sampleTx sampleDone))" "to_ShardID operation = 1"
    using sample_txs(3) by (auto simp: map_eq_Cons_conv)
  then show ?thesis using committed_means_all_voted [OF sample_done sample_txs(1,2)] by metis
qed

text \<open>
  C18. A transaction is committed exactly when every participant votes to commit and acknowledges the
  commit; in every other case it is aborted and the caller gets an error. This includes the case that some participants
  have committed already when another one fails.
\<close>

theorem commit_exactly_when_all_agree:
  assumes "runs (co_step h) co_ok (NewCoordinator nodeID config) es c" and "gm_get (co_transactions c) i = Some tx"
    and "\<forall>xs. mset (perm1 xs) = mset xs \<and> mset (perm2 xs) = mset xs"
    and "ExecuteTransactionWith (\<lambda>tx. answer) (\<lambda>tx. ack) perm1 perm2 clk i c = (err, c')"
  shows "(err = None \<longleftrightarrow> (\<forall>s \<in> dom (gm_get (tx_Participants tx)). answer s = Inr VoteCommit \<and> ack s = None)) \<and>
    map_option tx_Status (gm_get (co_transactions c') i) = Some (if err = None then TxStatusCommitted else TxStatusAborted)"
proof -
  have "co_inv c" by (rule coordinator_runs.runs_inv [OF assms(1) co_inv_new])
  then have ok: "tx_ok tx" using co_inv_get assms(2) by blast
  let ?s = "map fst (tx_Participants tx)"
  obtain tx1 where q: "runTransaction (\<lambda>tx. answer) (\<lambda>tx. ack) (perm1 ?s) (perm2 ?s) clk tx = (err, tx1)"
    and c': "c' = c\<lparr>co_transactions := gm_put i tx1 (co_transactions c)\<rparr>"
    using assms(2,4) by (auto simp: ExecuteTransactionWith_def Let_def split: prod.splits)
  have "set (perm1 ?s) = fst ` set (tx_Participants tx)" "set (perm2 ?s) = fst ` set (tx_Participants tx)"
    using assms(3) [rule_format, of ?s] by (metis mset_eq_setD list.set_map)+
  from runTransaction_decision [OF ok this q] show ?thesis by (simp add: c' dom_map_of_conv_image_fst)
qed

theorem commit_exactly_when_all_agree_witness:
  "fst (ExecuteTransactionWith (\<lambda>tx s. Inr VoteAbort) (\<lambda>tx s. None) rev rev (\<lambda>i. 6) ''n_0_1'' sampleAdded) \<noteq> None"
proof -
  obtain err c' where e: "ExecuteTransactionWith (\<lambda>tx s. Inr VoteAbort) (\<lambda>tx s. None) rev rev (\<lambda>i. 6) ''n_0_1'' sampleAdded = (err, c')" by force
  show ?thesis using commit_exactly_when_all_agree [OF sample_added sample_txs(4) _ e] by (simp add: e sample_txs(7))
qed

text \<open>
  C38. Executing a transaction does not look at its status. A transaction that was aborted, or that the
  clean-up has declared timed out, is committed when it is executed again, with the requests as the program sends them.
\<close>

theorem execute_ignores_status:
  assumes "runs (co_step h) co_ok (NewCoordinator nodeID config) es c" and "gm_get (co_transactions c) i = Some tx"
    and "tx_Status tx = TxStatusTimeout \<or> tx_Status tx = TxStatusAborted"
    and "\<forall>xs. mset (perm1 xs) = mset xs \<and> mset (perm2 xs) = mset xs"
  shows "fst (ExecuteTransaction perm1 perm2 clk i c) = None \<and>
    map_option tx_Status (gm_get (co_transactions (snd (ExecuteTransaction perm1 perm2 clk i c))) i) = Some TxStatusCommitted"
proof -
  have "co_inv c" by (rule coordinator_runs.runs_inv [OF assms(1) co_inv_new])
  then have ok: "tx_ok tx" using co_inv_get assms(2) by blast
  let ?s = "map fst (tx_Participants tx)"
  have send: "sendPrepareRequest = (\<lambda>tx s. Inr VoteCommit)" "sendCommitRequest = (\<lambda>tx s. None)"
    by (simp_all add: fun_eq_iff sendPrepareRequest_def sendCommitRequest_def)
  obtain err tx1 where q: "runTransaction (\<lambda>tx s. Inr VoteCommit) (\<lambda>tx s. None) (perm1 ?s) (perm2 ?s) clk tx = (err, tx1)" by force
  have "set (perm1 ?s) = fst ` set (tx_Participants tx)" "set (perm2 ?s) = fst ` set (tx_Participants tx)"
    using assms(4) [rule_format, of ?s] by (metis mset_eq_setD list.set_map)+
  from runTransaction_decision [OF ok this q] show ?thesis
    using assms(2) q by (simp add: ExecuteTransaction_def ExecuteTransactionWith_def send)
qed

theorem execute_ignores_status_witness:
  "fst (ExecuteTransaction rev rev (\<lambda>i. 9) ''n_0_1'' sampleTimedOut) = None"
  using execute_ignores_status [OF sample_timed_out sample_txs(5), of rev rev "\<lambda>i. 9"] sample_txs(6) by simp

end
