(* ===== verification/Safety_Validator.thy ===== *)
theory Safety_Validator
  imports Raft_Log
begin

text \<open>
  The run-time checks of \<^verbatim>\<open>src/internal/consensus/safety.go\<close> over a list of nodes. A check
  returns an error message or nothing (\<^term>\<open>None\<close>). The lemmas say exactly when a check passes.
\<close>

section \<open>The checks\<close>

text \<open>Byte-wise order of strings.\<close>

fun strLess :: "string \<Rightarrow> string \<Rightarrow> bool" where
  "strLess xs [] = False"
| "strLess [] (y # ys) = True"
| "strLess (x # xs) (y # ys) = (byte x < byte y \<or> byte x = byte y \<and> strLess xs ys)"

text \<open>A list of strings in the format \<^verbatim>\<open>%v\<close>.\<close>

fun spaced :: "string list \<Rightarrow> string" where
  "spaced [] = []"
| "spaced [x] = x"
| "spaced (x # xs) = x @ '' '' @ spaced xs"

definition termLeaders :: "RaftNode list \<Rightarrow> (int, string list) gomap" where
  "termLeaders nodes =
     fold (\<lambda>node m. case RN_GetState node of (state, t, isLeader) \<Rightarrow>
       if isLeader then gm_put t ((case gm_get m t of None \<Rightarrow> [] | Some ls \<Rightarrow> ls) @ [rn_id node]) m else m) nodes []"

definition ValidateElectionSafety :: "RaftNode list \<Rightarrow> string option" where
  "ValidateElectionSafety nodes =
     (case find (\<lambda>(t, leaders). 1 < length leaders) (termLeaders nodes) of
        Some (t, leaders) \<Rightarrow> Some (''election safety violation: term '' @ dec_int t @ '' has multiple leaders: ['' @ spaced leaders @ '']'')
      | None \<Rightarrow> None)"

definition sameSlot :: "LogEntry \<Rightarrow> LogEntry \<Rightarrow> bool" where
  "sameSlot x y = (le_Index x = le_Index y \<and> le_Term x = le_Term y)"

definition validateLogPairMatching :: "string \<Rightarrow> LogEntry list \<Rightarrow> string \<Rightarrow> LogEntry list \<Rightarrow> string option" where
  "validateLogPairMatching nodeID1 log1 nodeID2 log2 =
     (case find (\<lambda>(i, j). sameSlot (log1 ! i) (log2 ! i) \<and> \<not> sameSlot (log1 ! j) (log2 ! j))
             (concat (map (\<lambda>i. map (\<lambda>j. (i, j)) [0..<Suc i]) [0..<min (length log1) (length log2)])) of
        Some (i, j) \<Rightarrow> Some (''log matching violation between '' @ nodeID1 @ '' and '' @ nodeID2 @ '': entries at position '' @
           dec_nat i @ '' have same index/term ('' @ dec_int (le_Index (log1 ! i)) @ ''/'' @ dec_int (le_Term (log1 ! i)) @
           '') but preceding entry at position '' @ dec_nat j @ '' differs'')
      | None \<Rightarrow> None)"

fun first_error :: "string option list \<Rightarrow> string option" where
  "first_error [] = None"
| "first_error (None # xs) = first_error xs"
| "first_error (Some e # xs) = Some e"

definition ValidateLogMatching :: "RaftNode list \<Rightarrow> string option" where
  "ValidateLogMatching nodes =
     (let allEntries = fold (\<lambda>node. gm_put (rn_id node) (rn_log node)) nodes []
      in first_error (concat (map (\<lambda>(id1, log1). map (\<lambda>(id2, log2).
           if \<not> strLess id1 id2 then None else validateLogPairMatching id1 log1 id2 log2) allEntries) allEntries)))"

definition ValidateLeaderCompleteness :: "RaftNode list \<Rightarrow> (int, LogEntry) gomap \<Rightarrow> string option" where
  "ValidateLeaderCompleteness nodes committedEntries =
     (let leaders = fold (\<lambda>node m. case RN_GetState node of (state, t, isLeader) \<Rightarrow>
            if isLeader then gm_put t node m else m) nodes []
      in first_error (concat (map (\<lambda>(leaderTerm, leader). map (\<lambda>(commitTerm, committedEntry).
           if commitTerm < leaderTerm \<and> \<not> list_ex (\<lambda>entry. sameSlot entry committedEntry) (rn_log leader)
           then Some (''leader completeness violation: leader '' @ rn_id leader @ '' (term '' @ dec_int leaderTerm @
                  '') missing committed entry '' @ dec_int (le_Index committedEntry) @ '' from term '' @ dec_int commitTerm)
           else None) committedEntries) leaders)))"

text \<open>
  The loop two checks share: the entries of a log up to a bound are compared with, and recorded
  in, a map by index. The map is kept when a conflict ends the loop.
\<close>

fun recordEntries :: "(LogEntry \<Rightarrow> LogEntry \<Rightarrow> string) \<Rightarrow> LogEntry list \<Rightarrow> (int, LogEntry) gomap \<Rightarrow>
    string option \<times> (int, LogEntry) gomap" where
  "recordEntries msg [] m = (None, m)"
| "recordEntries msg (e # es) m =
     (case gm_get m (le_Index e) of
        Some x \<Rightarrow>
          if le_Term x \<noteq> le_Term e \<or> le_Data x \<noteq> le_Data e then (Some (msg e x), m)
          else recordEntries msg es m
      | None \<Rightarrow> recordEntries msg es (gm_put (le_Index e) e m))"

fun recordNodes :: "(RaftNode \<Rightarrow> LogEntry \<Rightarrow> LogEntry \<Rightarrow> string) \<Rightarrow> (RaftNode \<Rightarrow> int) \<Rightarrow> RaftNode list \<Rightarrow>
    (int, LogEntry) gomap \<Rightarrow> string option \<times> (int, LogEntry) gomap" where
  "recordNodes msg bound [] m = (None, m)"
| "recordNodes msg bound (n # ns) m =
     (case recordEntries (msg n) (take (nat (bound n)) (rn_log n)) m of
        (Some err, m) \<Rightarrow> (Some err, m)
      | (None, m) \<Rightarrow> recordNodes msg bound ns m)"

definition differentEntry :: "string \<Rightarrow> RaftNode \<Rightarrow> LogEntry \<Rightarrow> LogEntry \<Rightarrow> string" where
  "differentEntry what n e x = what @ dec_int (le_Index e) @ '' (term '' @ dec_int (le_Term e) @ '' vs '' @ dec_int (le_Term x) @ '')''"

definition ValidateStateMachineSafety :: "RaftNode list \<Rightarrow> string option" where
  "ValidateStateMachineSafety nodes =
     fst (recordNodes (\<lambda>n. differentEntry (''state machine safety violation: node '' @ rn_id n @ '' applied different entry at index '') n)
       rn_lastApplied nodes [])"

definition ValidateCommitSafety :: "RaftNode list \<Rightarrow> (int, LogEntry) gomap \<Rightarrow> string option \<times> (int, LogEntry) gomap" where
  "ValidateCommitSafety nodes committedEntries =
     recordNodes (\<lambda>n. differentEntry (''commit safety violation: node '' @ rn_id n @ '' has different committed entry at index '') n)
       rn_commitIndex nodes committedEntries"

fun ValidateMonotonicTerms :: "RaftNode list \<Rightarrow> (string, int list) gomap \<Rightarrow> string option \<times> (string, int list) gomap" where
  "ValidateMonotonicTerms [] termHistory = (None, termHistory)"
| "ValidateMonotonicTerms (node # nodes) termHistory =
     (let t = fst (snd (RN_GetState node));
          termHistory = (if gm_get termHistory (rn_id node) = None then gm_put (rn_id node) [] termHistory else termHistory);
          history = the (gm_get termHistory (rn_id node))
      in if history \<noteq> [] \<and> t < last history
         then (Some (''monotonic term violation: node '' @ rn_id node @ '' term decreased from '' @ dec_int (last history) @ '' to '' @ dec_int t),
               termHistory)
         else ValidateMonotonicTerms nodes
                (if history = [] \<or> t \<noteq> last history then gm_put (rn_id node) (history @ [t]) termHistory else termHistory))"

section \<open>When the checks pass\<close>

lemma first_error_None: "first_error xs = None \<longleftrightarrow> (\<forall>x \<in> set xs. x = None)"
  by (induction xs rule: first_error.induct) auto

lemma pairMatching_None:
  "validateLogPairMatching id1 log1 id2 log2 = None \<longleftrightarrow>
     (\<forall>i < min (length log1) (length log2). sameSlot (log1 ! i) (log2 ! i) \<longrightarrow> (\<forall>j \<le> i. sameSlot (log1 ! j) (log2 ! j)))"
proof -
  let ?P = "\<lambda>(i, j). sameSlot (log1 ! i) (log2 ! i) \<and> \<not> sameSlot (log1 ! j) (log2 ! j)"
  let ?xs = "concat (map (\<lambda>i. map (\<lambda>j. (i, j)) [0..<Suc i]) [0..<min (length log1) (length log2)])"
  have "validateLogPairMatching id1 log1 id2 log2 = None \<longleftrightarrow> find ?P ?xs = None"
    by (simp add: validateLogPairMatching_def split: option.splits)
  also have "\<dots> \<longleftrightarrow> \<not> (\<exists>p. p \<in> set ?xs \<and> ?P p)" by (rule find_None_iff)
  also have "set ?xs = {(i, j). i < min (length log1) (length log2) \<and> j \<le> i}" by (auto simp: less_Suc_eq_le simp del: upt_Suc)
  finally show ?thesis by blast
qed

text \<open>Logs that match in the sense of the replication proof pass the pairwise check.\<close>

lemma log_match_passes: "log_match a b \<Longrightarrow> validateLogPairMatching i a j b = None"
  unfolding pairMatching_None
proof (intro allI impI)
  fix k l assume lm: "log_match a b" and k: "k < min (length a) (length b)" "sameSlot (a ! k) (b ! k)" and l: "l \<le> k"
  then have "take (Suc k) a = take (Suc k) b" by (simp add: log_match_def sameSlot_def)
  then have "a ! l = b ! l" using l by (metis le_imp_less_Suc nth_take)
  then show "sameSlot (a ! l) (b ! l)" by (simp add: sameSlot_def)
qed

text \<open>
  What the recording loops compare of an entry. A set of entries is consistent when no two
  of them have the same index and differ otherwise.
\<close>

definition essence :: "LogEntry \<Rightarrow> int \<times> int \<times> bytes" where
  "essence e = (le_Index e, le_Term e, le_Data e)"

definition consistent :: "(int \<times> int \<times> bytes) set \<Rightarrow> bool" where
  "consistent S = (\<forall>p \<in> S. \<forall>q \<in> S. fst p = fst q \<longrightarrow> p = q)"

definition recorded :: "(int, LogEntry) gomap \<Rightarrow> bool" where
  "recorded m = (\<forall>i x. gm_get m i = Some x \<longrightarrow> le_Index x = i)"

lemma recorded_consistent: "recorded m \<Longrightarrow> consistent (essence ` ran (gm_get m))"
  by (auto simp: recorded_def consistent_def essence_def ran_def)

lemma recordEntries_spec:
  assumes "recorded m" and "recordEntries msg es m = (err, m')"
  shows "recorded m' \<and> (err = None \<longleftrightarrow> consistent (essence ` (ran (gm_get m) \<union> set es))) \<and>
    (err = None \<longrightarrow> essence ` ran (gm_get m') = essence ` (ran (gm_get m) \<union> set es))"
  using assms
proof (induction es arbitrary: m)
  case Nil
  then show ?case by (simp add: recorded_consistent)
next
  case (Cons e es)
  show ?case
  proof (cases "gm_get m (le_Index e)")
    case None
    have rec: "recorded (gm_put (le_Index e) e m)" using Cons.prems by (simp add: recorded_def)
    have eq: "ran (gm_get (gm_put (le_Index e) e m)) \<union> set es = ran (gm_get m) \<union> set (e # es)"
      using None by (simp add: update_conv' ran_map_upd)
    have "recordEntries msg es (gm_put (le_Index e) e m) = (err, m')" using Cons.prems(2) None by simp
    from Cons.IH [OF rec this] show ?thesis unfolding eq .
  next
    case (Some x)
    then have x: "le_Index x = le_Index e" "x \<in> ran (gm_get m)" using Cons.prems by (auto simp: recorded_def intro: ranI)
    show ?thesis
    proof (cases "essence x = essence e")
      case True
      then have "essence e \<in> essence ` (ran (gm_get m) \<union> set es)" using x(2) by (metis UnI1 imageI)
      then have "essence ` (ran (gm_get m) \<union> set (e # es)) = essence ` (ran (gm_get m) \<union> set es)" by auto
      then show ?thesis using Cons.IH [OF Cons.prems(1)] Cons.prems(2) Some True by (simp add: essence_def)
    next
      case False
      then have "\<not> consistent (essence ` (ran (gm_get m) \<union> set (e # es)))"
        using x by (auto simp: consistent_def essence_def)
      then show ?thesis using Cons.prems Some False x(1) by (auto simp: essence_def)
    qed
  qed
qed

lemma recordNodes_spec:
  assumes "recorded m"
  shows "fst (recordNodes msg bound ns m) = None \<longleftrightarrow>
    consistent (essence ` (ran (gm_get m) \<union> (\<Union>n \<in> set ns. set (take (nat (bound n)) (rn_log n)))))"
  using assms
proof (induction ns arbitrary: m)
  case Nil
  then show ?case by (simp add: recorded_consistent)
next
  case (Cons n ns)
  let ?es = "take (nat (bound n)) (rn_log n)" and ?rest = "\<Union>n \<in> set ns. set (take (nat (bound n)) (rn_log n))"
  obtain err m' where r: "recordEntries (msg n) ?es m = (err, m')" by fastforce
  note spec = recordEntries_spec [OF Cons.prems r]
  show ?case
  proof (cases err)
    case None
    then have "essence ` (ran (gm_get m') \<union> ?rest) = essence ` (ran (gm_get m) \<union> (\<Union>n \<in> set (n # ns). set (take (nat (bound n)) (rn_log n))))"
      using spec by (simp add: image_Un Un_assoc)
    then show ?thesis using Cons.IH [of m'] spec None r by simp
  next
    case (Some e)
    have "\<not> consistent (essence ` (ran (gm_get m) \<union> (\<Union>n \<in> set (n # ns). set (take (nat (bound n)) (rn_log n)))))"
      using spec Some unfolding consistent_def by auto
    then show ?thesis using Some r by simp
  qed
qed

lemma termLeaders_get:
  "gm_get (termLeaders nodes) t =
     (let ls = map rn_id (filter (\<lambda>n. rn_state n = Leader \<and> rn_currentTerm n = t) nodes) in if ls = [] then None else Some ls)"
proof -
  have "gm_get (fold (\<lambda>node m. case RN_GetState node of (state, t, isLeader) \<Rightarrow>
       if isLeader then gm_put t ((case gm_get m t of None \<Rightarrow> [] | Some ls \<Rightarrow> ls) @ [rn_id node]) m else m) nodes m) t =
     (let ls = map rn_id (filter (\<lambda>n. rn_state n = Leader \<and> rn_currentTerm n = t) nodes) in
      if ls = [] then gm_get m t else Some ((case gm_get m t of None \<Rightarrow> [] | Some l \<Rightarrow> l) @ ls))" for m
    by (induction nodes arbitrary: m) (auto simp: RN_GetState_def Let_def split: option.splits)
  then show ?thesis by (simp add: termLeaders_def)
qed

lemma termLeaders_ok: "gm_ok (termLeaders nodes)"
proof -
  have "gm_ok m \<Longrightarrow> gm_ok (fold (\<lambda>node m. case RN_GetState node of (state, t, isLeader) \<Rightarrow>
       if isLeader then gm_put t ((case gm_get m t of None \<Rightarrow> [] | Some ls \<Rightarrow> ls) @ [rn_id node]) m else m) nodes m)" for m
    by (induction nodes arbitrary: m) (auto simp: RN_GetState_def)
  then show ?thesis by (simp add: termLeaders_def)
qed

section \<open>Properties\<close>

text \<open>
  C32. The election check passes exactly when no two leaders among the nodes have the same term.
\<close>

theorem election_check_exact:
  "ValidateElectionSafety nodes = None \<longleftrightarrow>
     (\<forall>t. length (filter (\<lambda>n. rn_state n = Leader \<and> rn_currentTerm n = t) nodes) \<le> 1)"
proof -
  let ?ls = "\<lambda>t. map rn_id (filter (\<lambda>n. rn_state n = Leader \<and> rn_currentTerm n = t) nodes)"
  have "ValidateElectionSafety nodes = None \<longleftrightarrow> find (\<lambda>(t, leaders). 1 < length leaders) (termLeaders nodes) = None"
    by (auto simp: ValidateElectionSafety_def split: option.splits)
  also have "\<dots> \<longleftrightarrow> (\<forall>t ls. gm_get (termLeaders nodes) t = Some ls \<longrightarrow> length ls \<le> 1)"
    unfolding find_None_iff gm_get_mem [OF termLeaders_ok] by force
  also have "\<dots> \<longleftrightarrow> (\<forall>t. length (?ls t) \<le> 1)" by (force simp: termLeaders_get Let_def split: if_splits)
  finally show ?thesis by simp
qed

text \<open>
  The state machine check passes exactly when no two entries applied by the nodes, on the same
  node or on different ones, have the same index and differ in their term or their data.
\<close>

theorem state_machine_check_exact:
  "ValidateStateMachineSafety nodes = None \<longleftrightarrow>
     consistent (essence ` (\<Union>n \<in> set nodes. set (take (nat (rn_lastApplied n)) (rn_log n))))"
  unfolding ValidateStateMachineSafety_def by (subst recordNodes_spec) (simp_all add: recorded_def)

end
