(* ===== verification/Circuit_Breaker.thy ===== *)
theory Circuit_Breaker
  imports Go_Lib
begin

text \<open>
  The circuit breaker of the client, \<^verbatim>\<open>src/pkg/client/circuit_breaker.go\<close>, with the part of the
  client configuration (\<^verbatim>\<open>src/pkg/client/advanced_client.go\<close>) the client's components read. Every
  method takes the clock reading as an argument; rates are rational numbers.
\<close>

section \<open>Client configuration\<close>

datatype LoadBalancingPolicy = LoadBalancingRoundRobin | LoadBalancingRandom | LoadBalancingLeastConn |
  LoadBalancingWeighted | LoadBalancingConsistent | LoadBalancingOther string

datatype ConsistencyLevel = ConsistencyLinearizable | ConsistencyEventual | ConsistencyBounded | ConsistencySession |
  ConsistencyReadYourWrite | ConsistencyOther string

record AdvancedClientConfig =
  acc_InitialNodes :: "string list"
  acc_ConnectionTimeout :: duration
  acc_RequestTimeout :: duration
  acc_LoadBalancingPolicy :: LoadBalancingPolicy
  acc_MaxConnections :: int
  acc_MaxRetries :: int
  acc_BaseRetryDelay :: duration
  acc_MaxRetryDelay :: duration
  acc_RetryJitter :: bool
  acc_CircuitBreakerEnabled :: bool
  acc_FailureThreshold :: int
  acc_RecoveryTimeout :: duration
  acc_HalfOpenMaxRequests :: int
  acc_DefaultConsistency :: ConsistencyLevel
  acc_ReadYourWritesEnabled :: bool
  acc_StaleReadThreshold :: duration
  acc_HealthCheckInterval :: duration
  acc_NodeFailureDetectionTime :: duration
  acc_EnableMetrics :: bool
  acc_MetricsCollectionInterval :: duration

definition or_default :: "int \<Rightarrow> int \<Rightarrow> int" where
  "or_default v x = (if x = 0 then v else x)"

definition setDefaultConfig :: "AdvancedClientConfig \<Rightarrow> AdvancedClientConfig" where
  "setDefaultConfig config = config
     \<lparr>acc_ConnectionTimeout := or_default (5 * second) (acc_ConnectionTimeout config),
      acc_RequestTimeout := or_default (10 * second) (acc_RequestTimeout config),
      acc_MaxConnections := or_default 10 (acc_MaxConnections config),
      acc_MaxRetries := or_default 3 (acc_MaxRetries config),
      acc_BaseRetryDelay := or_default 100000000 (acc_BaseRetryDelay config),
      acc_MaxRetryDelay := or_default (30 * second) (acc_MaxRetryDelay config),
      acc_FailureThreshold := or_default 5 (acc_FailureThreshold config),
      acc_RecoveryTimeout := or_default (30 * second) (acc_RecoveryTimeout config),
      acc_HalfOpenMaxRequests := or_default 3 (acc_HalfOpenMaxRequests config),
      acc_DefaultConsistency := (if acc_DefaultConsistency config = ConsistencyOther [] then ConsistencyLinearizable else acc_DefaultConsistency config),
      acc_StaleReadThreshold := or_default (5 * second) (acc_StaleReadThreshold config),
      acc_HealthCheckInterval := or_default (30 * second) (acc_HealthCheckInterval config),
      acc_NodeFailureDetectionTime := or_default (10 * second) (acc_NodeFailureDetectionTime config),
      acc_MetricsCollectionInterval := or_default (60 * second) (acc_MetricsCollectionInterval config),
      acc_LoadBalancingPolicy := (if acc_LoadBalancingPolicy config = LoadBalancingOther [] then LoadBalancingRoundRobin else acc_LoadBalancingPolicy config)\<rparr>"

section \<open>The breaker\<close>

datatype CircuitBreakerState = CircuitBreakerClosed | CircuitBreakerOpen | CircuitBreakerHalfOpen

record CircuitBreaker =
  cb_config :: AdvancedClientConfig
  cb_state :: CircuitBreakerState
  cb_failureCount :: int
  cb_successCount :: int
  cb_lastFailureTime :: gtime
  cb_lastStateChange :: gtime
  cb_halfOpenRequests :: int
  cb_failureThreshold :: int
  cb_recoveryTimeout :: duration
  cb_halfOpenMaxRequests :: int
  cb_totalRequests :: int
  cb_totalFailures :: int
  cb_totalSuccesses :: int
  cb_stateChanges :: int

record CircuitBreakerStats =
  cbs_State :: CircuitBreakerState
  cbs_FailureCount :: int
  cbs_SuccessCount :: int
  cbs_LastFailureTime :: gtime
  cbs_LastStateChange :: gtime
  cbs_HalfOpenRequests :: int
  cbs_TotalRequests :: int
  cbs_TotalFailures :: int
  cbs_TotalSuccesses :: int
  cbs_StateChanges :: int
  cbs_FailureThreshold :: int
  cbs_RecoveryTimeout :: duration
  cbs_HalfOpenMaxRequests :: int

definition NewCircuitBreaker :: "gtime \<Rightarrow> AdvancedClientConfig \<Rightarrow> CircuitBreaker" where
  "NewCircuitBreaker now config =
     \<lparr>cb_config = config, cb_state = CircuitBreakerClosed, cb_failureCount = 0, cb_successCount = 0, cb_lastFailureTime = zeroTime,
      cb_lastStateChange = now, cb_halfOpenRequests = 0, cb_failureThreshold = acc_FailureThreshold config,
      cb_recoveryTimeout = acc_RecoveryTimeout config, cb_halfOpenMaxRequests = acc_HalfOpenMaxRequests config,
      cb_totalRequests = 0, cb_totalFailures = 0, cb_totalSuccesses = 0, cb_stateChanges = 0\<rparr>"

definition transitionToClosed :: "gtime \<Rightarrow> CircuitBreaker \<Rightarrow> CircuitBreaker" where
  "transitionToClosed now cb = cb\<lparr>cb_state := CircuitBreakerClosed, cb_failureCount := 0, cb_successCount := 0, cb_halfOpenRequests := 0,
     cb_lastStateChange := now, cb_stateChanges := i64 (cb_stateChanges cb + 1)\<rparr>"

definition transitionToOpen :: "gtime \<Rightarrow> CircuitBreaker \<Rightarrow> CircuitBreaker" where
  "transitionToOpen now cb = cb\<lparr>cb_state := CircuitBreakerOpen, cb_successCount := 0, cb_halfOpenRequests := 0,
     cb_lastStateChange := now, cb_stateChanges := i64 (cb_stateChanges cb + 1)\<rparr>"

definition transitionToHalfOpen :: "gtime \<Rightarrow> CircuitBreaker \<Rightarrow> CircuitBreaker" where
  "transitionToHalfOpen now cb = cb\<lparr>cb_state := CircuitBreakerHalfOpen, cb_successCount := 0, cb_halfOpenRequests := 0,
     cb_lastStateChange := now, cb_stateChanges := i64 (cb_stateChanges cb + 1)\<rparr>"

definition CanExecute :: "gtime \<Rightarrow> CircuitBreaker \<Rightarrow> bool \<times> CircuitBreaker" where
  "CanExecute now cb =
     (let cb = cb\<lparr>cb_totalRequests := i64 (cb_totalRequests cb + 1)\<rparr>
      in case cb_state cb of
           CircuitBreakerClosed \<Rightarrow> (True, cb)
         | CircuitBreakerOpen \<Rightarrow>
             if cb_recoveryTimeout cb \<le> timeSub now (cb_lastFailureTime cb) then (True, transitionToHalfOpen now cb) else (False, cb)
         | CircuitBreakerHalfOpen \<Rightarrow>
             if cb_halfOpenRequests cb < cb_halfOpenMaxRequests cb
             then (True, cb\<lparr>cb_halfOpenRequests := cb_halfOpenRequests cb + 1\<rparr>)
             else (False, cb))"

definition RecordSuccess :: "gtime \<Rightarrow> CircuitBreaker \<Rightarrow> CircuitBreaker" where
  "RecordSuccess now cb =
     (let cb = cb\<lparr>cb_totalSuccesses := i64 (cb_totalSuccesses cb + 1), cb_successCount := i64 (cb_successCount cb + 1)\<rparr>
      in case cb_state cb of
           CircuitBreakerHalfOpen \<Rightarrow> if cb_halfOpenMaxRequests cb \<le> cb_successCount cb then transitionToClosed now cb else cb
         | CircuitBreakerClosed \<Rightarrow> if 0 < cb_failureCount cb then cb\<lparr>cb_failureCount := 0\<rparr> else cb
         | CircuitBreakerOpen \<Rightarrow> cb)"

definition RecordFailure :: "gtime \<Rightarrow> CircuitBreaker \<Rightarrow> CircuitBreaker" where
  "RecordFailure now cb =
     (let cb = cb\<lparr>cb_totalFailures := i64 (cb_totalFailures cb + 1), cb_failureCount := i64 (cb_failureCount cb + 1), cb_lastFailureTime := now\<rparr>
      in case cb_state cb of
           CircuitBreakerClosed \<Rightarrow> if cb_failureThreshold cb \<le> cb_failureCount cb then transitionToOpen now cb else cb
         | CircuitBreakerHalfOpen \<Rightarrow> transitionToOpen now cb
         | CircuitBreakerOpen \<Rightarrow> cb)"

definition CB_GetState :: "CircuitBreaker \<Rightarrow> CircuitBreakerState" where
  "CB_GetState cb = cb_state cb"

definition CB_Reset :: "gtime \<Rightarrow> CircuitBreaker \<Rightarrow> CircuitBreaker" where
  "CB_Reset now cb = cb\<lparr>cb_state := CircuitBreakerClosed, cb_failureCount := 0, cb_successCount := 0, cb_halfOpenRequests := 0,
     cb_lastStateChange := now, cb_stateChanges := i64 (cb_stateChanges cb + 1)\<rparr>"

definition CB_UpdateConfig :: "AdvancedClientConfig \<Rightarrow> CircuitBreaker \<Rightarrow> CircuitBreaker" where
  "CB_UpdateConfig config cb = cb\<lparr>cb_config := config, cb_failureThreshold := acc_FailureThreshold config,
     cb_recoveryTimeout := acc_RecoveryTimeout config, cb_halfOpenMaxRequests := acc_HalfOpenMaxRequests config\<rparr>"

definition CB_GetStats :: "CircuitBreaker \<Rightarrow> CircuitBreakerStats" where
  "CB_GetStats cb =
     \<lparr>cbs_State = cb_state cb, cbs_FailureCount = cb_failureCount cb, cbs_SuccessCount = cb_successCount cb,
      cbs_LastFailureTime = cb_lastFailureTime cb, cbs_LastStateChange = cb_lastStateChange cb,
      cbs_HalfOpenRequests = cb_halfOpenRequests cb, cbs_TotalRequests = cb_totalRequests cb,
      cbs_TotalFailures = cb_totalFailures cb, cbs_TotalSuccesses = cb_totalSuccesses cb, cbs_StateChanges = cb_stateChanges cb,
      cbs_FailureThreshold = cb_failureThreshold cb, cbs_RecoveryTimeout = cb_recoveryTimeout cb,
      cbs_HalfOpenMaxRequests = cb_halfOpenMaxRequests cb\<rparr>"

definition CB_IsHealthy :: "CircuitBreaker \<Rightarrow> bool" where
  "CB_IsHealthy cb = (case cb_state cb of
     CircuitBreakerClosed \<Rightarrow> True | CircuitBreakerHalfOpen \<Rightarrow> 0 < cb_successCount cb | CircuitBreakerOpen \<Rightarrow> False)"

definition GetFailureRate :: "CircuitBreaker \<Rightarrow> rat" where
  "GetFailureRate cb = (if cb_totalRequests cb = 0 then 0 else of_int (cb_totalFailures cb) / of_int (cb_totalRequests cb))"

text \<open>The protected function is its outcome, an error or none, with the time it ends.\<close>

definition CB_Execute :: "gtime \<Rightarrow> string option \<Rightarrow> gtime \<Rightarrow> CircuitBreaker \<Rightarrow> string option \<times> CircuitBreaker" where
  "CB_Execute now fn after cb =
     (let (can, cb) = CanExecute now cb
      in if \<not> can then (Some ''circuit breaker is open'', cb)
         else case fn of
           Some err \<Rightarrow> (Some err, RecordFailure after cb)
         | None \<Rightarrow> (None, RecordSuccess after cb))"

definition ExecuteWithFallback :: "gtime \<Rightarrow> string option \<Rightarrow> gtime \<Rightarrow> string option option \<Rightarrow> CircuitBreaker \<Rightarrow> string option \<times> CircuitBreaker" where
  "ExecuteWithFallback now fn after fallback cb =
     (let (can, cb) = CanExecute now cb
      in if \<not> can then
           (case fallback of Some r \<Rightarrow> (r, cb) | None \<Rightarrow> (Some ''circuit breaker is open and no fallback provided'', cb))
         else case fn of
           Some err \<Rightarrow> (case fallback of Some r \<Rightarrow> (r, RecordFailure after cb) | None \<Rightarrow> (Some err, RecordFailure after cb))
         | None \<Rightarrow> (None, RecordSuccess after cb))"

section \<open>When the circuit opens\<close>

text \<open>The outcomes of requests as they are recorded: True is a success.\<close>

definition record_outcome :: "bool \<times> gtime \<Rightarrow> CircuitBreaker \<Rightarrow> CircuitBreaker" where
  "record_outcome = (\<lambda>(ok, now). if ok then RecordSuccess now else RecordFailure now)"

definition record_all :: "(bool \<times> gtime) list \<Rightarrow> CircuitBreaker \<Rightarrow> CircuitBreaker" where
  "record_all = fold record_outcome"

text \<open>The failures since the last success, counted from \<open>c\<close>; \<open>None\<close> once there were \<open>n\<close> in a row.\<close>

fun streak :: "nat \<Rightarrow> nat \<Rightarrow> bool list \<Rightarrow> nat option" where
  "streak n c [] = Some c"
| "streak n c (ok # oks) = (if ok then streak n 0 oks else if n \<le> Suc c then None else streak n (Suc c) oks)"

lemma run_after_success:
  assumes "0 < n" "c < n"
  shows "(\<exists>xs ys. replicate c False @ True # oks = xs @ replicate n False @ ys) \<longleftrightarrow> (\<exists>xs ys. oks = xs @ replicate n False @ ys)"
proof
  assume "\<exists>xs ys. replicate c False @ True # oks = xs @ replicate n False @ ys"
  then obtain xs ys where eq: "replicate c False @ True # oks = xs @ replicate n False @ ys" by blast
  have "(replicate c False @ True # oks) ! c = True" by (simp add: nth_append)
  then have "(xs @ replicate n False @ ys) ! c = True" unfolding eq .
  then have len: "c < length xs" using assms by (auto simp: nth_append split: if_splits)
  then have "take (Suc c) xs = take (Suc c) (replicate c False @ True # oks)" unfolding eq by simp
  also have "\<dots> = replicate c False @ [True]" by simp
  finally have "xs = (replicate c False @ [True]) @ drop (Suc c) xs" by (metis append_take_drop_id)
  then obtain zs where "xs = replicate c False @ True # zs" by auto
  then have "oks = zs @ replicate n False @ ys" using eq by simp
  then show "\<exists>xs ys. oks = xs @ replicate n False @ ys" by blast
next
  assume "\<exists>xs ys. oks = xs @ replicate n False @ ys"
  then obtain xs ys where "oks = xs @ replicate n False @ ys" by blast
  then have "replicate c False @ True # oks = (replicate c False @ True # xs) @ replicate n False @ ys" by simp
  then show "\<exists>xs ys. replicate c False @ True # oks = xs @ replicate n False @ ys" by blast
qed

lemma streak_None:
  assumes "c < n"
  shows "streak n c oks = None \<longleftrightarrow> (\<exists>xs ys. replicate c False @ oks = xs @ replicate n False @ ys)"
  using assms
proof (induction n c oks rule: streak.induct)
  case (1 n c)
  have "length (replicate c False) \<noteq> length (xs @ replicate n False @ ys)" for xs ys using 1 by simp
  then have "\<not> (\<exists>xs ys. replicate c False = xs @ replicate n False @ ys)" by metis
  then show ?case by simp
next
  case (2 n c ok oks)
  have snoc: "replicate c False @ False # oks = replicate (Suc c) False @ oks" by (simp add: replicate_app_Cons_same)
  consider "ok" | "\<not> ok" "n \<le> Suc c" | "\<not> ok" "Suc c < n" by linarith
  then show ?case
  proof cases
    case 1
    then show ?thesis using "2.IH"(1) "2.prems" run_after_success [of n c oks] by simp
  next
    case 2
    then have "n = Suc c" using "2.prems" by simp
    then have "replicate c False @ ok # oks = [] @ replicate n False @ oks" using 2 snoc by simp
    then have "\<exists>xs ys. replicate c False @ ok # oks = xs @ replicate n False @ ys" by blast
    then show ?thesis using 2 by simp
  next
    case 3
    then have "replicate c False @ ok # oks = replicate (Suc c) False @ oks" using snoc by simp
    then show ?thesis using "2.IH"(2) 3 unfolding \<open>replicate c False @ ok # oks = replicate (Suc c) False @ oks\<close> by simp
  qed
qed

lemma record_all_simps: "record_all [] cb = cb" "record_all (x # os) cb = record_all os (record_outcome x cb)"
  by (simp_all add: record_all_def)

lemma record_all_streak:
  assumes "cb_state cb = CircuitBreakerClosed" "cb_failureCount cb = int c" "cb_failureThreshold cb = int n" "c < n" "int n < 2 ^ 63"
  shows "case streak n c (map fst os) of
      None \<Rightarrow> cb_state (record_all os cb) = CircuitBreakerOpen
    | Some c' \<Rightarrow> cb_state (record_all os cb) = CircuitBreakerClosed \<and> cb_failureCount (record_all os cb) = int c'"
  using assms
proof (induction os arbitrary: cb c)
  case Nil
  then show ?case by (simp add: record_all_simps)
next
  case (Cons x os)
  obtain ok now where o: "x = (ok, now)" by (cases x)
  have stay: "cb_state (record_all os b) = CircuitBreakerOpen" if "cb_state b = CircuitBreakerOpen" for b
    using that by (induction os arbitrary: b) (auto simp: record_all_simps record_outcome_def RecordSuccess_def RecordFailure_def Let_def)
  have i64: "i64 (int c + 1) = int (Suc c)" using Cons.prems(4,5) by (subst i64_suc) auto
  show ?case
  proof (cases ok)
    case True
    let ?cb = "RecordSuccess now cb"
    have "cb_state ?cb = CircuitBreakerClosed" "cb_failureCount ?cb = int 0" "cb_failureThreshold ?cb = int n"
      using Cons.prems by (simp_all add: RecordSuccess_def Let_def)
    then show ?thesis using Cons.IH [of ?cb 0] Cons.prems True o by (simp add: record_all_simps record_outcome_def split: option.splits)
  next
    case False
    let ?cb = "RecordFailure now cb"
    show ?thesis
    proof (cases "n \<le> Suc c")
      case True
      then have "cb_state ?cb = CircuitBreakerOpen" using Cons.prems i64 by (simp add: RecordFailure_def transitionToOpen_def Let_def)
      then show ?thesis using stay True False o by (simp add: record_all_simps record_outcome_def split: option.splits)
    next
      case more: False
      then have "cb_state ?cb = CircuitBreakerClosed" "cb_failureCount ?cb = int (Suc c)" "cb_failureThreshold ?cb = int n"
        using Cons.prems i64 by (simp_all add: RecordFailure_def Let_def)
      then show ?thesis using Cons.IH [of ?cb "Suc c"] Cons.prems more False o by (simp add: record_all_simps record_outcome_def split: option.splits)
    qed
  qed
qed

section \<open>The half-open period\<close>

text \<open>A number of requests ask for admission at the given times; none of them reports back.\<close>

fun ask :: "gtime list \<Rightarrow> CircuitBreaker \<Rightarrow> nat \<times> CircuitBreaker" where
  "ask [] cb = (0, cb)"
| "ask (t # ts) cb = (let (can, cb) = CanExecute t cb; (k, cb) = ask ts cb in ((if can then Suc k else k), cb))"

lemma ask_half_open:
  assumes "cb_state cb = CircuitBreakerHalfOpen" "cb_halfOpenMaxRequests cb = int m" "cb_halfOpenRequests cb = int q" "q \<le> m"
  shows "fst (ask ts cb) = min (length ts) (m - q) \<and> cb_state (snd (ask ts cb)) = CircuitBreakerHalfOpen"
  using assms
proof (induction ts arbitrary: cb q)
  case (Cons t ts)
  show ?case
  proof (cases "q < m")
    case True
    then have "m - q = Suc (m - Suc q)" by simp
    then show ?thesis using Cons.prems True Cons.IH [of "snd (CanExecute t cb)" "Suc q"]
      by (auto simp: CanExecute_def Let_def split: prod.splits)
  next
    case False
    then show ?thesis using Cons.prems Cons.IH [of "snd (CanExecute t cb)" q]
      by (auto simp: CanExecute_def Let_def split: prod.splits)
  qed
qed simp

section \<open>Properties of the circuit breaker\<close>

definition sampleClientConfig :: AdvancedClientConfig where
  "sampleClientConfig = setDefaultConfig \<lparr>acc_InitialNodes = [], acc_ConnectionTimeout = 0, acc_RequestTimeout = 0,
     acc_LoadBalancingPolicy = LoadBalancingOther [], acc_MaxConnections = 0, acc_MaxRetries = 0, acc_BaseRetryDelay = 0,
     acc_MaxRetryDelay = 0, acc_RetryJitter = False, acc_CircuitBreakerEnabled = True, acc_FailureThreshold = 2,
     acc_RecoveryTimeout = 0, acc_HalfOpenMaxRequests = 3, acc_DefaultConsistency = ConsistencyOther [], acc_ReadYourWritesEnabled = False,
     acc_StaleReadThreshold = 0, acc_HealthCheckInterval = 0, acc_NodeFailureDetectionTime = 0, acc_EnableMetrics = False,
     acc_MetricsCollectionInterval = 0\<rparr>"

text \<open>
  C23. The circuit opens exactly on a run of failures: a new breaker with threshold \<open>n\<close> is open after
  a sequence of recorded outcomes if and only if the sequence contains \<open>n\<close> failures in a row, and
  closed otherwise.
\<close>

theorem breaker_opens_on_streak:
  assumes "acc_FailureThreshold config = int n" "0 < n" "int n < 2 ^ 63"
  shows "cb_state (record_all os (NewCircuitBreaker now config)) =
    (if \<exists>xs ys. map fst os = xs @ replicate n False @ ys then CircuitBreakerOpen else CircuitBreakerClosed)"
  using record_all_streak [of "NewCircuitBreaker now config" 0 n os] streak_None [of 0 n "map fst os"] assms
  by (auto simp: NewCircuitBreaker_def split: option.splits)

theorem breaker_opens_on_streak_witness:
  "cb_state (record_all [(False, 0), (True, 1), (False, 2), (False, 3)] (NewCircuitBreaker 0 sampleClientConfig)) = CircuitBreakerOpen"
proof -
  have "map fst [(False, 0 :: gtime), (True, 1), (False, 2), (False, 3)] = [False, True] @ replicate 2 False @ []"
    by (simp add: numeral_2_eq_2)
  then have ex: "\<exists>xs ys. map fst [(False, 0 :: gtime), (True, 1), (False, 2), (False, 3)] = xs @ replicate 2 False @ ys" by blast
  have "acc_FailureThreshold sampleClientConfig = int 2" by (simp add: sampleClientConfig_def setDefaultConfig_def or_default_def)
  from breaker_opens_on_streak [OF this, of "[(False, 0), (True, 1), (False, 2), (False, 3)]" 0] show ?thesis
    unfolding if_P [OF ex] by simp
qed

text \<open>
  C34. How many requests a half-open circuit lets through: once the recovery timeout has passed, of any
  number of requests that ask without reporting an outcome exactly one more than the configured
  maximum are admitted. The circuit then stays half-open and refuses every request, however long they
  wait; no timeout leads out of that state.
\<close>

theorem half_open_admissions:
  assumes "cb_state cb = CircuitBreakerOpen" "cb_halfOpenMaxRequests cb = int m"
    and "cb_recoveryTimeout cb \<le> timeSub t (cb_lastFailureTime cb)"
  shows "fst (ask (t # ts) cb) = min (length (t # ts)) (m + 1) \<and> cb_state (snd (ask (t # ts) cb)) = CircuitBreakerHalfOpen \<and>
    (m < length ts \<longrightarrow> fst (ask ts' (snd (ask (t # ts) cb))) = 0)"
proof -
  let ?cb = "snd (CanExecute t cb)"
  have cb: "CanExecute t cb = (True, ?cb)" and st: "cb_state ?cb = CircuitBreakerHalfOpen" "cb_halfOpenMaxRequests ?cb = int m" "cb_halfOpenRequests ?cb = int 0"
    using assms by (simp_all add: CanExecute_def transitionToHalfOpen_def Let_def)
  have ask: "fst (ask (t # us) cb) = Suc (fst (ask us ?cb))" "snd (ask (t # us) cb) = snd (ask us ?cb)" for us
    by (subst ask.simps, subst cb, simp split: prod.splits)+
  have n: "fst (ask us ?cb) = min (length us) m \<and> cb_state (snd (ask us ?cb)) = CircuitBreakerHalfOpen" for us
    using ask_half_open [OF st, of us] by simp
  have app: "fst (ask (us @ vs) b) = fst (ask us b) + fst (ask vs (snd (ask us b)))" for us vs b
    by (induction us arbitrary: b) (simp_all add: Let_def case_prod_beta)
  have "fst (ask ts' (snd (ask ts ?cb))) = 0" if "m < length ts" using app [of ts ts' ?cb] n [of "ts @ ts'"] n [of ts] that by simp
  then show ?thesis using ask n by (simp add: min_def)
qed

theorem half_open_admissions_witness:
  "fst (ask (replicate 6 (40 * second)) (record_all [(False, 0), (False, 0)] (NewCircuitBreaker 0 sampleClientConfig))) = 4"
proof -
  let ?cb = "record_all [(False, 0), (False, 0)] (NewCircuitBreaker 0 sampleClientConfig)"
  have cb: "cb_state ?cb = CircuitBreakerOpen" "cb_halfOpenMaxRequests ?cb = int 3" "cb_recoveryTimeout ?cb \<le> timeSub (40 * second) (cb_lastFailureTime ?cb)"
    by (simp_all add: record_all_simps record_outcome_def RecordFailure_def transitionToOpen_def NewCircuitBreaker_def sampleClientConfig_def
        setDefaultConfig_def or_default_def i64_def timeSub_def Let_def)
  show ?thesis using half_open_admissions [OF cb, of "replicate 5 (40 * second)"] by (simp add: numeral_eq_Suc del: ask.simps)
qed

end
