(* ===== verification/Rate_Limiter.thy ===== *)
theory Rate_Limiter
  imports Go_Lib
begin

text \<open>
  The rate limiter of \<^verbatim>\<open>src/internal/security/ratelimit.go\<close>: token buckets per client, rules,
  black and white lists and a global limit. A call takes its clock readings from \<open>clk\<close>, one index per
  place that reads the clock. The dynamic values of Go's \<^verbatim>\<open>interface{}\<close> are a \<open>rl_value\<close>. The hourly
  counters have the number of the hour as their key where the code has its text.
\<close>

section \<open>Data\<close>

datatype rl_value = VStr string | VInt int | VBool bool | VOther nat

type_synonym metadata = "(string, rl_value) gomap"

record CustomResponse =
  cr_StatusCode :: int
  cr_Headers :: "(string, string) gomap"
  cr_Body :: string
  cr_Format :: string

record RedisConfig =
  rd_Endpoints :: "string list"
  rd_Password :: string
  rd_Database :: int
  rd_KeyPrefix :: string
  rd_Timeout :: duration

record RateLimitConfig =
  rlc_GlobalRateLimit :: int
  rlc_GlobalBurstLimit :: int
  rlc_DefaultRateLimit :: int
  rlc_DefaultBurstLimit :: int
  rlc_WindowSize :: duration
  rlc_SlidingWindow :: bool
  rlc_IdentifyBy :: "string list"
  rlc_HeaderName :: string
  rlc_TrustForwardedFor :: bool
  rlc_EnableBlacklist :: bool
  rlc_EnableWhitelist :: bool
  rlc_BlockDuration :: duration
  rlc_ReturnHeaders :: bool
  rlc_CustomResponse :: "CustomResponse option"
  rlc_StorageType :: string
  rlc_RedisConfig :: "RedisConfig option"
  rlc_CleanupInterval :: duration
  rlc_MaxIdleTime :: duration
  rlc_EnableAdaptive :: bool
  rlc_EnableBurst :: bool
  rlc_StrictMode :: bool

record RequestInfo =
  ri_Timestamp :: gtime
  ri_Method :: string
  ri_Path :: string
  ri_UserAgent :: string
  ri_Size :: int
  ri_Metadata :: metadata

record ClientStats =
  cst_TotalRequests :: int
  cst_AllowedRequests :: int
  cst_BlockedRequests :: int
  cst_FirstSeen :: gtime
  cst_LastSeen :: gtime
  cst_ViolationCount :: int
  cst_CurrentRate :: float64
  cst_AverageRate :: float64
  cst_PeakRate :: float64

record ViolationRecord =
  vr_Timestamp :: gtime
  vr_RequestRate :: float64
  vr_Limit :: int
  vr_Severity :: string
  vr_Action :: string

record ClientLimiter =
  cl_clientID :: string
  cl_rateLimit :: int
  cl_burstLimit :: int
  cl_windowSize :: duration
  cl_tokens :: int
  cl_lastRefill :: gtime
  cl_requests :: "RequestInfo list"
  cl_blocked :: bool
  cl_blockedUntil :: gtime
  cl_stats :: ClientStats
  cl_violations :: "ViolationRecord list"

record RuleCondition =
  rco_Type :: string
  rco_Field :: string
  rco_Operator :: string
  rco_Value :: rl_value

record RuleAction =
  ra_Type :: string
  ra_Duration :: duration
  ra_Severity :: string
  ra_Parameters :: metadata

record RateLimitRule =
  rr_ID :: string
  rr_Name :: string
  rr_Pattern :: string
  rr_Method :: string
  rr_RateLimit :: int
  rr_BurstLimit :: int
  rr_WindowSize :: duration
  rr_Priority :: int
  rr_Conditions :: "RuleCondition list"
  rr_Actions :: "RuleAction list"
  rr_IsActive :: bool
  rr_Metadata :: metadata

record BlacklistEntry =
  be_ClientID :: string
  be_Reason :: string
  be_BlockedAt :: gtime
  be_ExpiresAt :: gtime
  be_ViolationCount :: int
  be_IsPermanent :: bool
  be_Metadata :: metadata

record WhitelistEntry =
  we_ClientID :: string
  we_Reason :: string
  we_AddedAt :: gtime
  we_ExpiresAt :: "gtime option"
  we_IsPermanent :: bool
  we_Metadata :: metadata

record RateLimitResult =
  rs_Allowed :: bool
  rs_RemainingTokens :: int
  rs_ResetTime :: gtime
  rs_RetryAfter :: duration
  rs_RateLimit :: int
  rs_WindowSize :: duration
  rs_Violation :: "ViolationRecord option"
  rs_Headers :: "(string, string) gomap option"
  rs_Metadata :: metadata

record RateLimitRequest =
  rq_ClientID :: string
  rq_Method :: string
  rq_Path :: string
  rq_IPAddress :: string
  rq_UserAgent :: string
  rq_Headers :: "(string, string) gomap"
  rq_Size :: int
  rq_Timestamp :: gtime
  rq_UserID :: string
  rq_Metadata :: metadata

record GlobalRateStats =
  gs_TotalRequests :: int
  gs_AllowedRequests :: int
  gs_BlockedRequests :: int
  gs_CurrentRPS :: float64
  gs_PeakRPS :: float64
  gs_ActiveClients :: int
  gs_BlacklistedClients :: int
  gs_WhitelistedClients :: int
  gs_LastResetTime :: gtime

record RateLimitMetrics =
  mt_RequestsByClient :: "(string, int) gomap"
  mt_ViolationsByClient :: "(string, int) gomap"
  mt_BlocksByReason :: "(string, int) gomap"
  mt_RequestsByEndpoint :: "(string, int) gomap"
  mt_RequestsByMethod :: "(string, int) gomap"
  mt_ResponseTimes :: "duration list"
  mt_TopViolators :: "string list"
  mt_HourlyStats :: "(int, int) gomap"

record RateLimiter =
  rl_config :: RateLimitConfig
  rl_limiters :: "(string, ClientLimiter) gomap"
  rl_globalStats :: GlobalRateStats
  rl_rules :: "(string, RateLimitRule) gomap"
  rl_blacklist :: "(string, BlacklistEntry) gomap"
  rl_whitelist :: "(string, WhitelistEntry) gomap"
  rl_metrics :: RateLimitMetrics
  rl_stopped :: bool

section \<open>Creation\<close>

definition dflt :: "'a \<Rightarrow> 'a \<Rightarrow> 'a \<Rightarrow> 'a" where
  "dflt z v x = (if x = z then v else x)"

definition rateDefaults :: "RateLimitConfig \<Rightarrow> RateLimitConfig" where
  "rateDefaults c = c
     \<lparr>rlc_DefaultRateLimit := dflt 0 100 (rlc_DefaultRateLimit c), rlc_DefaultBurstLimit := dflt 0 200 (rlc_DefaultBurstLimit c),
      rlc_WindowSize := dflt 0 second (rlc_WindowSize c), rlc_BlockDuration := dflt 0 (300 * second) (rlc_BlockDuration c),
      rlc_CleanupInterval := dflt 0 (600 * second) (rlc_CleanupInterval c), rlc_MaxIdleTime := dflt 0 (3600 * second) (rlc_MaxIdleTime c),
      rlc_IdentifyBy := dflt [] [''ip'', ''user_id''] (rlc_IdentifyBy c), rlc_HeaderName := dflt [] ''X-Client-ID'' (rlc_HeaderName c)\<rparr>"

definition blankRule :: RateLimitRule where
  "blankRule = \<lparr>rr_ID = [], rr_Name = [], rr_Pattern = [], rr_Method = [], rr_RateLimit = 0, rr_BurstLimit = 0, rr_WindowSize = 0,
     rr_Priority = 0, rr_Conditions = [], rr_Actions = [], rr_IsActive = True, rr_Metadata = []\<rparr>"

definition initializeDefaultRules :: "RateLimitConfig \<Rightarrow> (string, RateLimitRule) gomap" where
  "initializeDefaultRules c =
     [(''default_api'', blankRule\<lparr>rr_ID := ''default_api'', rr_Name := ''Default API Rate Limit'', rr_Pattern := ''/api/*'', rr_Method := ''*'',
         rr_RateLimit := rlc_DefaultRateLimit c, rr_BurstLimit := rlc_DefaultBurstLimit c, rr_WindowSize := rlc_WindowSize c, rr_Priority := 1000\<rparr>),
      (''auth_strict'', blankRule\<lparr>rr_ID := ''auth_strict'', rr_Name := ''Authentication Strict Limit'', rr_Pattern := ''/api/auth/*'', rr_Method := ''POST'',
         rr_RateLimit := 5, rr_BurstLimit := 10, rr_WindowSize := second, rr_Priority := 100,
         rr_Actions := [\<lparr>ra_Type = ''block'', ra_Duration = 900 * second, ra_Severity = ''high'', ra_Parameters = []\<rparr>]\<rparr>),
      (''read_lenient'', blankRule\<lparr>rr_ID := ''read_lenient'', rr_Name := ''Read Operations Lenient Limit'', rr_Pattern := ''/api/data/*'', rr_Method := ''GET'',
         rr_RateLimit := 500, rr_BurstLimit := 1000, rr_WindowSize := second, rr_Priority := 500\<rparr>),
      (''write_strict'', blankRule\<lparr>rr_ID := ''write_strict'', rr_Name := ''Write Operations Strict Limit'', rr_Pattern := ''/api/data/*'',
         rr_Method := ''POST,PUT,DELETE'', rr_RateLimit := 50, rr_BurstLimit := 100, rr_WindowSize := second, rr_Priority := 200\<rparr>)]"

definition NewRateLimiter :: "gtime \<Rightarrow> RateLimitConfig \<Rightarrow> RateLimiter" where
  "NewRateLimiter now config =
     \<lparr>rl_config = rateDefaults config, rl_limiters = [],
      rl_globalStats = \<lparr>gs_TotalRequests = 0, gs_AllowedRequests = 0, gs_BlockedRequests = 0, gs_CurrentRPS = Fin 0, gs_PeakRPS = Fin 0,
        gs_ActiveClients = 0, gs_BlacklistedClients = 0, gs_WhitelistedClients = 0, gs_LastResetTime = now\<rparr>,
      rl_rules = initializeDefaultRules (rateDefaults config), rl_blacklist = [], rl_whitelist = [],
      rl_metrics = \<lparr>mt_RequestsByClient = [], mt_ViolationsByClient = [], mt_BlocksByReason = [], mt_RequestsByEndpoint = [],
        mt_RequestsByMethod = [], mt_ResponseTimes = [], mt_TopViolators = [], mt_HourlyStats = []\<rparr>,
      rl_stopped = False\<rparr>"

section \<open>Identifying the client and matching rules\<close>

definition identifierBy :: "string \<Rightarrow> RateLimitConfig \<Rightarrow> RateLimitRequest \<Rightarrow> string list" where
  "identifierBy how c req =
     (if how = ''ip'' then (if rq_IPAddress req \<noteq> [] then [''ip:'' @ rq_IPAddress req] else [])
      else if how = ''user_id'' then (if rq_UserID req \<noteq> [] then [''user:'' @ rq_UserID req] else [])
      else if how = ''header'' then (case gm_get (rq_Headers req) (rlc_HeaderName c) of Some v \<Rightarrow> [''header:'' @ v] | None \<Rightarrow> [])
      else if how = ''user_agent'' then (if rq_UserAgent req \<noteq> [] then [''ua:'' @ rq_UserAgent req] else [])
      else [])"

definition extractClientID :: "RateLimitConfig \<Rightarrow> RateLimitRequest \<Rightarrow> string" where
  "extractClientID c req =
     (let identifiers = concat (map (\<lambda>how. identifierBy how c req) (rlc_IdentifyBy c))
      in if identifiers = [] then ''unknown'' else joinWith ''|'' identifiers)"

definition isWhitelisted :: "gtime \<Rightarrow> string \<Rightarrow> RateLimiter \<Rightarrow> bool \<times> RateLimiter" where
  "isWhitelisted now clientID rl =
     (case gm_get (rl_whitelist rl) clientID of
        None \<Rightarrow> (False, rl)
      | Some entry \<Rightarrow>
          (case we_ExpiresAt entry of
             Some t \<Rightarrow> if t < now then (False, rl\<lparr>rl_whitelist := gm_del clientID (rl_whitelist rl)\<rparr>) else (True, rl)
           | None \<Rightarrow> (True, rl)))"

definition isBlacklisted :: "gtime \<Rightarrow> string \<Rightarrow> RateLimiter \<Rightarrow> bool \<times> RateLimiter" where
  "isBlacklisted now clientID rl =
     (case gm_get (rl_blacklist rl) clientID of
        None \<Rightarrow> (False, rl)
      | Some entry \<Rightarrow>
          if \<not> be_IsPermanent entry \<and> be_ExpiresAt entry < now
          then (False, rl\<lparr>rl_blacklist := gm_del clientID (rl_blacklist rl)\<rparr>) else (True, rl))"

definition checkGlobalRateLimit :: "gtime \<Rightarrow> RateLimiter \<Rightarrow> bool \<times> RateLimiter" where
  "checkGlobalRateLimit now rl =
     (let since = timeSub now (gs_LastResetTime (rl_globalStats rl))
      in if rlc_WindowSize (rl_config rl) \<le> since
         then (True, rl\<lparr>rl_globalStats := (rl_globalStats rl)\<lparr>gs_CurrentRPS := Fin 0, gs_LastResetTime := now\<rparr>\<rparr>)
         else (float_le (float_div (gs_TotalRequests (rl_globalStats rl)) (secondsOf since))
                        (Fin (of_int (rlc_GlobalRateLimit (rl_config rl)))), rl))"

definition newLimiter :: "gtime \<Rightarrow> string \<Rightarrow> RateLimitConfig \<Rightarrow> RateLimitRequest \<Rightarrow> ClientLimiter" where
  "newLimiter now clientID c req =
     \<lparr>cl_clientID = clientID, cl_rateLimit = rlc_DefaultRateLimit c, cl_burstLimit = rlc_DefaultBurstLimit c,
      cl_windowSize = rlc_WindowSize c, cl_tokens = rlc_DefaultBurstLimit c, cl_lastRefill = now, cl_requests = [],
      cl_blocked = False, cl_blockedUntil = zeroTime,
      cl_stats = \<lparr>cst_TotalRequests = 0, cst_AllowedRequests = 0, cst_BlockedRequests = 0, cst_FirstSeen = rq_Timestamp req,
        cst_LastSeen = rq_Timestamp req, cst_ViolationCount = 0, cst_CurrentRate = Fin 0, cst_AverageRate = Fin 0, cst_PeakRate = Fin 0\<rparr>,
      cl_violations = []\<rparr>"

definition getOrCreateLimiter :: "gtime \<Rightarrow> string \<Rightarrow> RateLimitRequest \<Rightarrow> RateLimiter \<Rightarrow> ClientLimiter \<times> RateLimiter" where
  "getOrCreateLimiter now clientID req rl =
     (case gm_get (rl_limiters rl) clientID of
        Some limiter \<Rightarrow> (limiter, rl)
      | None \<Rightarrow>
          (let limiter = newLimiter now clientID (rl_config rl) req
           in (limiter, rl\<lparr>rl_limiters := gm_put clientID limiter (rl_limiters rl),
                 rl_globalStats := (rl_globalStats rl)\<lparr>gs_ActiveClients := i64 (gs_ActiveClients (rl_globalStats rl) + 1)\<rparr>\<rparr>)))"

definition patternMatches :: "string \<Rightarrow> string \<Rightarrow> bool" where
  "patternMatches pat path =
     (if pat = ''*'' then True
      else if HasSuffix pat ''*'' then HasPrefix path (TrimSuffix pat ''*'')
      else pat = path)"

definition compareConditionValue :: "rl_value \<Rightarrow> string \<Rightarrow> rl_value \<Rightarrow> bool" where
  "compareConditionValue actual operator expected =
     (if operator = ''eq'' then actual = expected
      else if operator = ''ne'' then actual \<noteq> expected
      else if operator = ''gt'' then (case (actual, expected) of (VInt a, VInt e) \<Rightarrow> e < a | _ \<Rightarrow> False)
      else if operator = ''lt'' then (case (actual, expected) of (VInt a, VInt e) \<Rightarrow> a < e | _ \<Rightarrow> False)
      else if operator = ''contains'' then (case (actual, expected) of (VStr a, VStr e) \<Rightarrow> Contains a e | _ \<Rightarrow> False)
      else False)"

definition conditionMatches :: "RuleCondition \<Rightarrow> RateLimitRequest \<Rightarrow> bool" where
  "conditionMatches condition req =
     (let cmp = (\<lambda>actual. compareConditionValue actual (rco_Operator condition) (rco_Value condition))
      in if rco_Type condition = ''header''
         then cmp (VStr (case gm_get (rq_Headers req) (rco_Field condition) of Some v \<Rightarrow> v | None \<Rightarrow> []))
         else if rco_Type condition = ''query'' then cmp (VStr [])
         else if rco_Type condition = ''size'' then cmp (VInt (rq_Size req))
         else False)"

definition ruleMatches :: "RateLimitRule \<Rightarrow> RateLimitRequest \<Rightarrow> bool" where
  "ruleMatches rule req =
     (if \<not> patternMatches (rr_Pattern rule) (rq_Path req) then False
      else if rr_Method rule \<noteq> ''*'' \<and> \<not> list_ex (\<lambda>m. TrimSpace m = rq_Method req) (splitAt (CHR '','') (rr_Method rule)) then False
      else list_all (\<lambda>condition. conditionMatches condition req) (rr_Conditions rule))"

definition findMatchingRule :: "RateLimitRequest \<Rightarrow> RateLimiter \<Rightarrow> RateLimitRule option" where
  "findMatchingRule req rl =
     fst (fold (\<lambda>(i, rule) (best, highest).
            if \<not> rr_IsActive rule then (best, highest)
            else if ruleMatches rule req \<and> rr_Priority rule < highest then (Some rule, rr_Priority rule)
            else (best, highest)) (rl_rules rl) (None, max_i64))"

section \<open>The token bucket\<close>

definition refillTokens :: "gtime \<Rightarrow> ClientLimiter \<Rightarrow> ClientLimiter" where
  "refillTokens now limiter =
     (let elapsed = timeSub now (cl_lastRefill limiter)
      in if elapsed \<le> 0 then limiter
         else (let tokensToAdd = i64_of_rat (secondsOf elapsed * of_int (cl_rateLimit limiter));
                   tokens = i64 (cl_tokens limiter + tokensToAdd)
               in limiter\<lparr>cl_tokens := (if cl_burstLimit limiter < tokens then cl_burstLimit limiter else tokens),
                          cl_lastRefill := now\<rparr>))"

definition cleanOldRequests :: "gtime \<Rightarrow> ClientLimiter \<Rightarrow> ClientLimiter" where
  "cleanOldRequests now limiter =
     limiter\<lparr>cl_requests := filter (\<lambda>r. now - cl_windowSize limiter < ri_Timestamp r) (cl_requests limiter)\<rparr>"

definition calculateCurrentRate :: "gtime \<Rightarrow> ClientLimiter \<Rightarrow> float64" where
  "calculateCurrentRate now limiter =
     float_div (int (length (filter (\<lambda>r. now - cl_windowSize limiter < ri_Timestamp r) (cl_requests limiter))))
       (secondsOf (cl_windowSize limiter))"

definition updateClientStats :: "gtime \<Rightarrow> ClientLimiter \<Rightarrow> ClientLimiter" where
  "updateClientStats now limiter =
     (let requestsInWindow = length (filter (\<lambda>r. now - cl_windowSize limiter < ri_Timestamp r) (cl_requests limiter));
          rate = float_div (int requestsInWindow) (secondsOf (cl_windowSize limiter));
          stats = cl_stats limiter;
          totalDuration = timeSub (cst_LastSeen stats) (cst_FirstSeen stats)
      in limiter\<lparr>cl_stats := stats\<lparr>cst_CurrentRate := rate,
           cst_PeakRate := (if float_less (cst_PeakRate stats) rate then rate else cst_PeakRate stats),
           cst_AverageRate := (if 0 < totalDuration then float_div (cst_TotalRequests stats) (secondsOf totalDuration)
                               else cst_AverageRate stats)\<rparr>\<rparr>)"

definition applyRuleAction :: "gtime \<Rightarrow> RuleAction \<Rightarrow> ClientLimiter \<times> ViolationRecord \<Rightarrow> ClientLimiter \<times> ViolationRecord" where
  "applyRuleAction now action = (\<lambda>(limiter, violation).
     if ra_Type action = ''block''
     then (limiter\<lparr>cl_blocked := True, cl_blockedUntil := now + ra_Duration action\<rparr>,
           violation\<lparr>vr_Action := ''blocked_by_rule'', vr_Severity := ra_Severity action\<rparr>)
     else if ra_Type action = ''throttle''
     then (limiter\<lparr>cl_rateLimit := quot (cl_rateLimit limiter) 2\<rparr>, violation\<lparr>vr_Action := ''throttled''\<rparr>)
     else (limiter, violation))"

fun applyRuleActions :: "(nat \<Rightarrow> gtime) \<Rightarrow> nat \<Rightarrow> RuleAction list \<Rightarrow> ClientLimiter \<times> ViolationRecord \<Rightarrow> ClientLimiter \<times> ViolationRecord" where
  "applyRuleActions clk i [] lv = lv"
| "applyRuleActions clk i (action # actions) lv = applyRuleActions clk (Suc i) actions (applyRuleAction (clk i) action lv)"

definition calculateResetTime :: "ClientLimiter \<Rightarrow> gtime" where
  "calculateResetTime limiter = cl_lastRefill limiter + cl_windowSize limiter"

definition calculateRetryAfter :: "gtime \<Rightarrow> ClientLimiter \<Rightarrow> duration" where
  "calculateRetryAfter now limiter =
     (if cl_blocked limiter then timeSub (cl_blockedUntil limiter) now
      else if cl_rateLimit limiter = 0 then - (2 ^ 63)
      else i64_of_rat (1 / of_int (cl_rateLimit limiter) * of_int second))"

definition generateHeaders :: "RateLimitConfig \<Rightarrow> int \<Rightarrow> int \<Rightarrow> gtime \<Rightarrow> (string, string) gomap option" where
  "generateHeaders c rateLimit remaining resetTime =
     (if \<not> rlc_ReturnHeaders c then None
      else Some [(''X-RateLimit-Limit'', dec_int rateLimit), (''X-RateLimit-Remaining'', dec_int remaining),
                 (''X-RateLimit-Reset'', dec_int (resetTime div second)), (''X-RateLimit-Window'', DurationString (rlc_WindowSize c))])"

definition generateErrorHeaders :: "RateLimitConfig \<Rightarrow> (string, string) gomap option" where
  "generateErrorHeaders c =
     (if \<not> rlc_ReturnHeaders c then None
      else Some [(''X-RateLimit-Limit'', ''0''), (''X-RateLimit-Remaining'', ''0''),
                 (''Retry-After'', dec_int (i64_of_rat (secondsOf (rlc_BlockDuration c))))])"

definition bump :: "'k \<Rightarrow> ('k, int) gomap \<Rightarrow> ('k, int) gomap" where
  "bump k m = gm_put k (i64 ((case gm_get m k of Some n \<Rightarrow> n | None \<Rightarrow> 0) + 1)) m"

text \<open>The zero value of a result and of a violation, for the fields a literal leaves out.\<close>

definition zeroResult :: RateLimitResult where
  "zeroResult = \<lparr>rs_Allowed = False, rs_RemainingTokens = 0, rs_ResetTime = zeroTime, rs_RetryAfter = 0, rs_RateLimit = 0,
     rs_WindowSize = 0, rs_Violation = None, rs_Headers = None, rs_Metadata = []\<rparr>"

definition violationOf :: "gtime \<Rightarrow> string \<Rightarrow> string \<Rightarrow> ViolationRecord" where
  "violationOf t severity action =
     \<lparr>vr_Timestamp = t, vr_RequestRate = Fin 0, vr_Limit = 0, vr_Severity = severity, vr_Action = action\<rparr>"

definition countViolation :: "string \<Rightarrow> string \<Rightarrow> RateLimitMetrics \<Rightarrow> RateLimitMetrics" where
  "countViolation clientID reason m =
     m\<lparr>mt_ViolationsByClient := bump clientID (mt_ViolationsByClient m), mt_BlocksByReason := bump reason (mt_BlocksByReason m)\<rparr>"

definition trackRequest :: "gtime \<Rightarrow> RateLimitRequest \<Rightarrow> RateLimitConfig \<Rightarrow> ClientLimiter \<Rightarrow> ClientLimiter" where
  "trackRequest now req c limiter =
     (let limiter1 = (if cl_blocked limiter \<and> cl_blockedUntil limiter < now
                      then limiter\<lparr>cl_blocked := False, cl_blockedUntil := zeroTime\<rparr> else limiter);
          limiter2 = refillTokens now limiter1;
          limiter3 = limiter2\<lparr>cl_requests := cl_requests limiter2 @
            [\<lparr>ri_Timestamp = now, ri_Method = rq_Method req, ri_Path = rq_Path req, ri_UserAgent = rq_UserAgent req,
              ri_Size = rq_Size req, ri_Metadata = rq_Metadata req\<rparr>]\<rparr>;
          limiter4 = (if rlc_SlidingWindow c then cleanOldRequests now limiter3 else limiter3);
          stats = cl_stats limiter4
      in updateClientStats now (limiter4\<lparr>cl_stats := stats
           \<lparr>cst_TotalRequests := i64 (cst_TotalRequests stats + 1), cst_LastSeen := now\<rparr>\<rparr>))"

definition exceeded :: "(nat \<Rightarrow> gtime) \<Rightarrow> gtime \<Rightarrow> RateLimitRule option \<Rightarrow> ClientLimiter \<Rightarrow> ClientLimiter \<times> ViolationRecord" where
  "exceeded clk now rule limiter =
     (let stats = cl_stats limiter;
          limiter1 = limiter\<lparr>cl_stats := stats\<lparr>cst_BlockedRequests := i64 (cst_BlockedRequests stats + 1)\<rparr>\<rparr>;
          violation = (violationOf now ''medium'' ''rate_limited'')
            \<lparr>vr_RequestRate := calculateCurrentRate now limiter1, vr_Limit := cl_rateLimit limiter1\<rparr>;
          limiter2 = limiter1\<lparr>cl_violations := cl_violations limiter1 @ [violation]\<rparr>
      in case rule of Some r \<Rightarrow> applyRuleActions clk 8 (rr_Actions r) (limiter2, violation) | None \<Rightarrow> (limiter2, violation))"

definition processRateLimit ::
  "(nat \<Rightarrow> gtime) \<Rightarrow> ClientLimiter \<Rightarrow> RateLimitRequest \<Rightarrow> RateLimitRule option \<Rightarrow> RateLimiter \<Rightarrow> RateLimitResult \<times> ClientLimiter \<times> RateLimiter" where
  "processRateLimit clk limiter req rule rl =
     (let now = rq_Timestamp req; c = rl_config rl
      in if cl_blocked limiter \<and> now < cl_blockedUntil limiter
         then (zeroResult\<lparr>rs_RetryAfter := timeSub (cl_blockedUntil limiter) now,
                 rs_Violation := Some (violationOf now ''medium'' ''blocked_temporary''),
                 rs_Headers := generateErrorHeaders c, rs_Metadata := [(''temporarily_blocked'', VBool True)]\<rparr>,
               limiter, rl\<lparr>rl_metrics := countViolation (cl_clientID limiter) ''temporary_block'' (rl_metrics rl)\<rparr>)
         else
           (let limiter1 = trackRequest now req c limiter
            in if 0 < cl_tokens limiter1
               then (let limiter2 = limiter1\<lparr>cl_tokens := i64 (cl_tokens limiter1 - 1),
                           cl_stats := (cl_stats limiter1)\<lparr>cst_AllowedRequests := i64 (cst_AllowedRequests (cl_stats limiter1) + 1)\<rparr>\<rparr>
                     in (zeroResult\<lparr>rs_Allowed := True, rs_RemainingTokens := cl_tokens limiter2,
                           rs_ResetTime := calculateResetTime limiter2, rs_RateLimit := cl_rateLimit limiter2,
                           rs_WindowSize := cl_windowSize limiter2,
                           rs_Headers := generateHeaders c (cl_rateLimit limiter2) (cl_tokens limiter2) (calculateResetTime limiter2),
                           rs_Metadata := [(''client_id'', VStr (cl_clientID limiter2))]\<rparr>, limiter2, rl))
               else (let (limiter2, violation) = exceeded clk now rule limiter1
                     in (zeroResult\<lparr>rs_ResetTime := calculateResetTime limiter2, rs_RetryAfter := calculateRetryAfter (clk 7) limiter2,
                           rs_RateLimit := cl_rateLimit limiter2, rs_WindowSize := cl_windowSize limiter2,
                           rs_Violation := Some violation, rs_Headers := generateErrorHeaders c,
                           rs_Metadata := [(''client_id'', VStr (cl_clientID limiter2))]\<rparr>, limiter2,
                         rl\<lparr>rl_metrics := countViolation (cl_clientID limiter2) ''rate_limit_exceeded'' (rl_metrics rl)\<rparr>))))"

definition applyRuleLimit ::
  "(nat \<Rightarrow> gtime) \<Rightarrow> ClientLimiter \<Rightarrow> RateLimitRequest \<Rightarrow> RateLimitRule \<Rightarrow> RateLimiter \<Rightarrow> RateLimitResult \<times> ClientLimiter \<times> RateLimiter" where
  "applyRuleLimit clk limiter req rule rl =
     processRateLimit clk (limiter\<lparr>cl_rateLimit := rr_RateLimit rule, cl_burstLimit := rr_BurstLimit rule,
                                  cl_windowSize := rr_WindowSize rule\<rparr>) req (Some rule) rl"

definition applyDefaultLimit ::
  "(nat \<Rightarrow> gtime) \<Rightarrow> ClientLimiter \<Rightarrow> RateLimitRequest \<Rightarrow> RateLimiter \<Rightarrow> RateLimitResult \<times> ClientLimiter \<times> RateLimiter" where
  "applyDefaultLimit clk limiter req rl = processRateLimit clk limiter req None rl"

section \<open>A request\<close>

definition countRequest :: "RateLimitRequest \<Rightarrow> RateLimiter \<Rightarrow> RateLimiter" where
  "countRequest req rl =
     (let g = rl_globalStats rl; m = rl_metrics rl
      in rl\<lparr>rl_globalStats := g\<lparr>gs_TotalRequests := i64 (gs_TotalRequests g + 1)\<rparr>,
            rl_metrics := m\<lparr>mt_RequestsByClient := bump (rq_ClientID req) (mt_RequestsByClient m),
              mt_RequestsByEndpoint := bump (rq_Path req) (mt_RequestsByEndpoint m),
              mt_RequestsByMethod := bump (rq_Method req) (mt_RequestsByMethod m),
              mt_HourlyStats := bump (rq_Timestamp req div (3600 * second)) (mt_HourlyStats m)\<rparr>\<rparr>)"

definition countOutcome :: "bool \<Rightarrow> RateLimiter \<Rightarrow> RateLimiter" where
  "countOutcome allowed rl =
     (let g = rl_globalStats rl
      in rl\<lparr>rl_globalStats := (if allowed then g\<lparr>gs_AllowedRequests := i64 (gs_AllowedRequests g + 1)\<rparr>
                              else g\<lparr>gs_BlockedRequests := i64 (gs_BlockedRequests g + 1)\<rparr>)\<rparr>)"

definition stampRequest :: "gtime \<Rightarrow> RateLimitConfig \<Rightarrow> RateLimitRequest \<Rightarrow> RateLimitRequest" where
  "stampRequest now c req =
     req\<lparr>rq_Timestamp := (if rq_Timestamp req = zeroTime then now else rq_Timestamp req), rq_ClientID := extractClientID c req\<rparr>"

definition limitClient :: "(nat \<Rightarrow> gtime) \<Rightarrow> RateLimitRequest \<Rightarrow> RateLimiter \<Rightarrow> RateLimitResult \<times> RateLimiter" where
  "limitClient clk req rl =
     (let (limiter, rl1) = getOrCreateLimiter (clk 6) (rq_ClientID req) req rl;
          (result, limiter', rl2) = (case findMatchingRule req rl1 of
             Some rule \<Rightarrow> applyRuleLimit clk limiter req rule rl1
           | None \<Rightarrow> applyDefaultLimit clk limiter req rl1)
      in (result, countOutcome (rs_Allowed result) (rl2\<lparr>rl_limiters := gm_put (rq_ClientID req) limiter' (rl_limiters rl2)\<rparr>)))"

definition whitelistedResult :: "(nat \<Rightarrow> gtime) \<Rightarrow> RateLimitConfig \<Rightarrow> RateLimitResult" where
  "whitelistedResult clk c =
     zeroResult\<lparr>rs_Allowed := True, rs_RemainingTokens := rlc_DefaultBurstLimit c, rs_ResetTime := clk 2 + rlc_WindowSize c,
       rs_RateLimit := rlc_DefaultRateLimit c, rs_WindowSize := rlc_WindowSize c,
       rs_Headers := generateHeaders c (rlc_DefaultRateLimit c) (rlc_DefaultBurstLimit c) (clk 3),
       rs_Metadata := [(''whitelisted'', VBool True)]\<rparr>"

definition refusedResult :: "gtime \<Rightarrow> duration \<Rightarrow> string \<Rightarrow> string \<Rightarrow> string \<Rightarrow> RateLimitConfig \<Rightarrow> RateLimitResult" where
  "refusedResult t retryAfter severity action key c =
     zeroResult\<lparr>rs_RetryAfter := retryAfter, rs_Violation := Some (violationOf t severity action),
       rs_Headers := generateErrorHeaders c, rs_Metadata := [(key, VBool True)]\<rparr>"

definition CheckRateLimit :: "(nat \<Rightarrow> gtime) \<Rightarrow> RateLimitRequest \<Rightarrow> RateLimiter \<Rightarrow> RateLimitResult \<times> RateLimiter" where
  "CheckRateLimit clk req0 rl0 =
     (let c = rl_config rl0; req = stampRequest (clk 0) c req0; rl = countRequest req rl0;
          (white, rl1) = (if rlc_EnableWhitelist c then isWhitelisted (clk 1) (rq_ClientID req) rl else (False, rl))
      in if white then (whitelistedResult clk c, rl1)
         else
           (let (black, rl2) = (if rlc_EnableBlacklist c then isBlacklisted (clk 4) (rq_ClientID req) rl1 else (False, rl1))
            in if black
               then (refusedResult (rq_Timestamp req) (3600 * second) ''critical'' ''blocked_blacklisted'' ''blacklisted'' c,
                     (countOutcome False rl2)\<lparr>rl_metrics := countViolation (rq_ClientID req) ''blacklisted'' (rl_metrics rl2)\<rparr>)
               else
                 (let (fits, rl3) = (if 0 < rlc_GlobalRateLimit c then checkGlobalRateLimit (clk 5) rl2 else (True, rl2))
                  in if \<not> fits
                     then (refusedResult (rq_Timestamp req) second ''high'' ''global_rate_limit_exceeded'' ''global_limit_exceeded'' c,
                           (countOutcome False rl3)\<lparr>rl_metrics := (rl_metrics rl3)
                             \<lparr>mt_BlocksByReason := bump ''global_limit'' (mt_BlocksByReason (rl_metrics rl3))\<rparr>\<rparr>)
                     else limitClient clk req rl3)))"

section \<open>Lists, clean-up and statistics\<close>

definition AddToBlacklist :: "(nat \<Rightarrow> gtime) \<Rightarrow> string \<Rightarrow> string \<Rightarrow> duration \<Rightarrow> bool \<Rightarrow> RateLimiter \<Rightarrow> RateLimiter" where
  "AddToBlacklist clk clientID reason d permanent rl =
     (let g = rl_globalStats rl
      in rl\<lparr>rl_blacklist := gm_put clientID \<lparr>be_ClientID = clientID, be_Reason = reason, be_BlockedAt = clk 0,
              be_ExpiresAt = (if permanent then zeroTime else clk 1 + d), be_ViolationCount = 0, be_IsPermanent = permanent,
              be_Metadata = []\<rparr> (rl_blacklist rl),
            rl_globalStats := g\<lparr>gs_BlacklistedClients := i64 (gs_BlacklistedClients g + 1)\<rparr>\<rparr>)"

definition AddToWhitelist :: "(nat \<Rightarrow> gtime) \<Rightarrow> string \<Rightarrow> string \<Rightarrow> duration option \<Rightarrow> bool \<Rightarrow> RateLimiter \<Rightarrow> RateLimiter" where
  "AddToWhitelist clk clientID reason d permanent rl =
     (let g = rl_globalStats rl
      in rl\<lparr>rl_whitelist := gm_put clientID \<lparr>we_ClientID = clientID, we_Reason = reason, we_AddedAt = clk 0,
              we_ExpiresAt = (if permanent then None else map_option (\<lambda>x. clk 1 + x) d), we_IsPermanent = permanent,
              we_Metadata = []\<rparr> (rl_whitelist rl),
            rl_globalStats := g\<lparr>gs_WhitelistedClients := i64 (gs_WhitelistedClients g + 1)\<rparr>\<rparr>)"

text \<open>
  The three loops of the clean-up delete from the map they range over and count down for each
  deletion: \<open>n\<close> decrements of a counter are one subtraction that wraps.
\<close>

definition rl_cleanup :: "gtime \<Rightarrow> RateLimiter \<Rightarrow> RateLimiter" where
  "rl_cleanup now rl =
     (let idle = (\<lambda>(k, l). rlc_MaxIdleTime (rl_config rl) < timeSub now (cst_LastSeen (cl_stats l)));
          expired = (\<lambda>(k, e). \<not> be_IsPermanent e \<and> be_ExpiresAt e < now);
          lapsed = (\<lambda>(k, e). \<not> we_IsPermanent e \<and> (case we_ExpiresAt e of Some t \<Rightarrow> t < now | None \<Rightarrow> False));
          g = rl_globalStats rl
      in rl\<lparr>rl_limiters := filter (Not \<circ> idle) (rl_limiters rl),
            rl_blacklist := filter (Not \<circ> expired) (rl_blacklist rl),
            rl_whitelist := filter (Not \<circ> lapsed) (rl_whitelist rl),
            rl_globalStats := g\<lparr>gs_ActiveClients := i64 (gs_ActiveClients g - int (length (filter idle (rl_limiters rl)))),
              gs_BlacklistedClients := i64 (gs_BlacklistedClients g - int (length (filter expired (rl_blacklist rl)))),
              gs_WhitelistedClients := i64 (gs_WhitelistedClients g - int (length (filter lapsed (rl_whitelist rl))))\<rparr>\<rparr>)"

definition GetMetrics :: "RateLimiter \<Rightarrow> RateLimitMetrics" where
  "GetMetrics rl = rl_metrics rl"

definition GetGlobalStats :: "RateLimiter \<Rightarrow> GlobalRateStats" where
  "GetGlobalStats rl = rl_globalStats rl"

definition GetClientStats :: "string \<Rightarrow> RateLimiter \<Rightarrow> ClientStats option" where
  "GetClientStats clientID rl = map_option cl_stats (gm_get (rl_limiters rl) clientID)"

text \<open>Closing the channel of the clean-up a second time panics.\<close>

definition RL_Stop :: "RateLimiter \<Rightarrow> RateLimiter option" where
  "RL_Stop rl = (if rl_stopped rl then None else Some (rl\<lparr>rl_stopped := True\<rparr>))"

section \<open>The bucket bounds the rate\<close>

definition bucket_ok :: "int \<Rightarrow> int \<Rightarrow> ClientLimiter \<Rightarrow> bool" where
  "bucket_ok B R l \<longleftrightarrow> - (2 ^ 63) \<le> cl_tokens l \<and> cl_tokens l \<le> B \<and> 0 \<le> cl_burstLimit l \<and> cl_burstLimit l \<le> B \<and>
     0 \<le> cl_rateLimit l \<and> cl_rateLimit l \<le> R"

text \<open>
  What a client can still be allowed between the times \<open>t0\<close> and \<open>t1\<close>: the tokens of its bucket,
  unless the next refill is the first one of that period, and what the rest of the period refills.
\<close>

definition credit :: "int \<Rightarrow> int \<Rightarrow> gtime \<Rightarrow> gtime \<Rightarrow> ClientLimiter \<Rightarrow> rat" where
  "credit B R t0 t1 l =
     (if cl_lastRefill l < t0 then of_int B else of_int (max 0 (cl_tokens l))) +
     secondsOf (max 0 (t1 - max t0 (cl_lastRefill l))) * of_int R"

lemma i64_below: "- (2 ^ 63) \<le> x \<Longrightarrow> i64 x \<le> x"
  unfolding i64_def using zmod_le_nonneg_dividend [of "x + 2 ^ 63" "2 ^ 64"] by simp

lemma i64_up: "x < - (2 ^ 63) \<Longrightarrow> - (2 ^ 64) - 2 ^ 63 \<le> x \<Longrightarrow> i64 x = x + 2 ^ 64"
  using mod_pos_pos_trivial [of "x + 2 ^ 63 + 2 ^ 64" "2 ^ 64"] unfolding i64_def mod_add_self2 by simp

lemma refill_sum:
  assumes t: "- (2 ^ 63) \<le> t" "t < 2 ^ 63" and x: "0 \<le> x"
  shows "of_int (i64 (t + i64_of_rat x)) \<le> of_int t + x"
proof (cases "trunc x < 2 ^ 63")
  case True
  have z: "0 \<le> trunc x" using x by (simp add: trunc_def)
  then have e: "i64_of_rat x = trunc x" using True by (simp add: i64_of_rat_def)
  have "i64 (t + trunc x) \<le> t + trunc x" using t z by (intro i64_below) simp
  moreover have "of_int (trunc x) \<le> x" using x by (simp add: trunc_def)
  ultimately have "of_int (i64 (t + trunc x)) \<le> (of_int (t + trunc x) :: rat)" "of_int (trunc x) \<le> x"
    by (simp_all only: of_int_le_iff)
  then show ?thesis by (simp add: e)
next
  case False
  then have e: "i64_of_rat x = - (2 ^ 63)" by (simp add: i64_of_rat_def)
  have "of_int (2 ^ 63) \<le> (of_int (trunc x) :: rat)" using False by (simp only: of_int_le_iff not_less)
  moreover have "of_int (trunc x) \<le> x" using x by (simp add: trunc_def)
  ultimately have x63: "2 ^ 63 \<le> x" by simp
  have "i64 (t - 2 ^ 63) \<le> t + 2 ^ 63"
    using i64_below [of "t - 2 ^ 63"] i64_up [of "t - 2 ^ 63"] t by (cases "0 \<le> t") auto
  then have "of_int (i64 (t - 2 ^ 63)) \<le> (of_int (t + 2 ^ 63) :: rat)" by (simp only: of_int_le_iff)
  then show ?thesis using x63 by (simp add: e)
qed

lemma secondsOf_mono: "a \<le> b \<Longrightarrow> secondsOf a \<le> secondsOf b"
  by (simp add: secondsOf_def divide_right_mono)

lemma secondsOf_nonneg: "0 \<le> a \<Longrightarrow> 0 \<le> secondsOf a"
  by (simp add: secondsOf_def)

lemma secondsOf_diff: "secondsOf (a - b) = secondsOf a - secondsOf b"
  by (simp add: secondsOf_def diff_divide_distrib)

lemma refill_fields:
  "cl_rateLimit (refillTokens now l) = cl_rateLimit l" "cl_burstLimit (refillTokens now l) = cl_burstLimit l"
  "cl_lastRefill (refillTokens now l) = max now (cl_lastRefill l)"
  using timeSub_pos [of now "cl_lastRefill l"] by (auto simp: refillTokens_def Let_def not_le)

lemma refill_early: "now \<le> cl_lastRefill l \<Longrightarrow> refillTokens now l = l"
  using timeSub_pos [of now "cl_lastRefill l"] by (simp add: refillTokens_def Let_def)

lemma refill_late:
  assumes "cl_lastRefill l < now"
  shows "cl_tokens (refillTokens now l) =
    min (cl_burstLimit l) (i64 (cl_tokens l + i64_of_rat (secondsOf (timeSub now (cl_lastRefill l)) * of_int (cl_rateLimit l))))"
  using assms timeSub_pos [of now "cl_lastRefill l"] by (simp add: refillTokens_def Let_def)

lemma refill_ok:
  assumes "bucket_ok B R l"
  shows "bucket_ok B R (refillTokens now l)"
proof (cases "cl_lastRefill l < now")
  case True
  show ?thesis
    using assms i64_range by (auto simp: bucket_ok_def refill_fields refill_late [OF True] min_def intro: order_trans)
qed (use assms in \<open>simp add: refill_early not_less\<close>)

lemma refill_adds:
  assumes ok: "bucket_ok B R l" and B: "B < 2 ^ 63" and late: "cl_lastRefill l < now"
  shows "of_int (cl_tokens (refillTokens now l)) \<le> of_int (cl_tokens l) + secondsOf (now - cl_lastRefill l) * of_int R"
proof -
  let ?d = "timeSub now (cl_lastRefill l)"
  have d: "0 \<le> ?d" "?d \<le> now - cl_lastRefill l" using late timeSub_pos [of now "cl_lastRefill l"] timeSub_le by simp_all
  have r: "0 \<le> cl_rateLimit l" "cl_rateLimit l \<le> R" using ok by (simp_all add: bucket_ok_def)
  have "secondsOf ?d * of_int (cl_rateLimit l) \<le> secondsOf (now - cl_lastRefill l) * of_int R"
    using d r by (intro mult_mono secondsOf_mono secondsOf_nonneg) auto
  moreover have "of_int (i64 (cl_tokens l + i64_of_rat (secondsOf ?d * of_int (cl_rateLimit l)))) \<le>
      of_int (cl_tokens l) + secondsOf ?d * of_int (cl_rateLimit l)"
    using ok B d r by (intro refill_sum mult_nonneg_nonneg secondsOf_nonneg) (auto simp: bucket_ok_def)
  moreover have "(of_int (cl_tokens (refillTokens now l)) :: rat) \<le>
      of_int (i64 (cl_tokens l + i64_of_rat (secondsOf ?d * of_int (cl_rateLimit l))))"
    unfolding refill_late [OF late] of_int_le_iff by simp
  ultimately show ?thesis by linarith
qed

lemma credit_refill:
  assumes ok: "bucket_ok B R l" and B: "0 \<le> B" "B < 2 ^ 63" and R: "0 \<le> R" and now: "t0 \<le> now" "now \<le> t1"
  shows "credit B R t0 t1 (refillTokens now l) \<le> credit B R t0 t1 l"
proof (cases "cl_lastRefill l < now")
  case late: True
  have cap: "of_int (max 0 (cl_tokens (refillTokens now l))) \<le> (of_int B :: rat)"
    unfolding of_int_le_iff using refill_ok [OF ok, of now] B by (simp add: bucket_ok_def)
  have after: "credit B R t0 t1 (refillTokens now l) =
      of_int (max 0 (cl_tokens (refillTokens now l))) + secondsOf (t1 - now) * of_int R"
    using now late by (simp add: credit_def refill_fields max_absorb1 max_absorb2)
  show ?thesis
  proof (cases "cl_lastRefill l < t0")
    case True
    have "secondsOf (t1 - now) * of_int R \<le> secondsOf (t1 - t0) * of_int R"
      using now R by (intro mult_right_mono secondsOf_mono) auto
    moreover have "credit B R t0 t1 l = of_int B + secondsOf (t1 - t0) * of_int R"
      using True now by (simp add: credit_def max_absorb1 max_absorb2)
    ultimately show ?thesis using cap after by linarith
  next
    case False
    have "of_int (max 0 (cl_tokens (refillTokens now l))) \<le>
        of_int (max 0 (cl_tokens l)) + secondsOf (now - cl_lastRefill l) * (of_int R :: rat)"
      using refill_adds [OF ok B(2) late] mult_nonneg_nonneg [OF secondsOf_nonneg, of "now - cl_lastRefill l" "of_int R"] R late
      by (simp add: of_int_max max_def)
    moreover have "credit B R t0 t1 l = of_int (max 0 (cl_tokens l)) +
        secondsOf (now - cl_lastRefill l) * of_int R + secondsOf (t1 - now) * of_int R"
      using False now late by (simp add: credit_def max_absorb1 max_absorb2 secondsOf_diff algebra_simps)
    ultimately show ?thesis using after by linarith
  qed
qed (simp add: refill_early not_less)

lemma track_fields:
  "cl_tokens (trackRequest now req c l) = cl_tokens (refillTokens now l)"
  "cl_lastRefill (trackRequest now req c l) = cl_lastRefill (refillTokens now l)"
  "cl_rateLimit (trackRequest now req c l) = cl_rateLimit l"
  "cl_burstLimit (trackRequest now req c l) = cl_burstLimit l"
  by (simp_all add: trackRequest_def updateClientStats_def cleanOldRequests_def refillTokens_def Let_def)

lemma actions_bucket:
  "bucket_ok B R (fst lv) \<Longrightarrow> bucket_ok B R (fst (applyRuleActions clk i actions lv)) \<and>
     credit B R t0 t1 (fst (applyRuleActions clk i actions lv)) = credit B R t0 t1 (fst lv)"
proof (induction clk i actions lv rule: applyRuleActions.induct)
  case (2 clk i action actions lv)
  have "bucket_ok B R (fst (applyRuleAction (clk i) action lv)) \<and>
      credit B R t0 t1 (fst (applyRuleAction (clk i) action lv)) = credit B R t0 t1 (fst lv)"
    using 2(2) quot_half [of "cl_rateLimit (fst lv)"]
    by (auto simp: applyRuleAction_def bucket_ok_def credit_def split: prod.split)
  then show ?case using 2(1) by simp
qed simp

lemma exceeded_bucket:
  assumes "bucket_ok B R l"
  shows "bucket_ok B R (fst (exceeded clk now rule l)) \<and> credit B R t0 t1 (fst (exceeded clk now rule l)) = credit B R t0 t1 l"
proof -
  have frame: "bucket_ok B R (l\<lparr>cl_stats := s, cl_violations := v\<rparr>) \<and>
      credit B R t0 t1 (l\<lparr>cl_stats := s, cl_violations := v\<rparr>) = credit B R t0 t1 l" for s v
    using assms by (simp add: bucket_ok_def credit_def)
  show ?thesis
    using frame by (auto simp: exceeded_def Let_def actions_bucket split: option.split)
qed

lemma track_bucket:
  "bucket_ok B R (trackRequest now req c l) = bucket_ok B R (refillTokens now l)"
  "credit B R t0 t1 (trackRequest now req c l) = credit B R t0 t1 (refillTokens now l)"
  by (simp_all add: bucket_ok_def credit_def track_fields refill_fields)

lemma take_token:
  assumes "bucket_ok B R l" "B < 2 ^ 63" "0 < cl_tokens l" "t0 \<le> cl_lastRefill l"
  shows "bucket_ok B R (l\<lparr>cl_tokens := i64 (cl_tokens l - 1), cl_stats := s\<rparr>) \<and>
    credit B R t0 t1 (l\<lparr>cl_tokens := i64 (cl_tokens l - 1), cl_stats := s\<rparr>) + 1 = credit B R t0 t1 l"
proof -
  have "i64 (cl_tokens l - 1) = cl_tokens l - 1" using assms by (intro i64_id) (auto simp: bucket_ok_def)
  then show ?thesis using assms by (simp add: bucket_ok_def credit_def max_def)
qed

lemma process_bucket:
  assumes ok: "bucket_ok B R l" and B: "0 \<le> B" "B < 2 ^ 63" and R: "0 \<le> R"
    and now: "t0 \<le> rq_Timestamp req" "rq_Timestamp req \<le> t1"
    and p: "processRateLimit clk l req rule rl = (res, l', rl')"
  shows "bucket_ok B R l' \<and> credit B R t0 t1 l' + of_bool (rs_Allowed res) \<le> credit B R t0 t1 l"
proof (cases "cl_blocked l \<and> rq_Timestamp req < cl_blockedUntil l")
  case True
  then show ?thesis using p ok by (auto simp: processRateLimit_def zeroResult_def Let_def)
next
  case open_: False
  define l1 where "l1 = trackRequest (rq_Timestamp req) req (rl_config rl) l"
  have l1: "bucket_ok B R l1" "credit B R t0 t1 l1 \<le> credit B R t0 t1 l" "t0 \<le> cl_lastRefill l1"
    using refill_ok [OF ok] credit_refill [OF ok B R now] now
    by (simp_all add: l1_def track_bucket track_fields refill_fields)
  show ?thesis
  proof (cases "0 < cl_tokens l1")
    case True
    then obtain s where "l' = l1\<lparr>cl_tokens := i64 (cl_tokens l1 - 1), cl_stats := s\<rparr>" "rs_Allowed res"
      using p open_ by (auto simp: processRateLimit_def Let_def l1_def [symmetric])
    then show ?thesis using take_token [OF l1(1) B(2) True l1(3), of s t1] l1(2) by simp
  next
    case False
    then have "l' = fst (exceeded clk (rq_Timestamp req) rule l1)" "\<not> rs_Allowed res"
      using p open_ by (auto simp: processRateLimit_def Let_def l1_def [symmetric] zeroResult_def split: prod.splits)
    then show ?thesis using exceeded_bucket [OF l1(1)] l1(2) by simp
  qed
qed

lemma process_frame:
  assumes "processRateLimit clk l req rule rl = (res, l', rl')"
  shows "rl_config rl' = rl_config rl" "rl_rules rl' = rl_rules rl" "rl_limiters rl' = rl_limiters rl"
    "rl_blacklist rl' = rl_blacklist rl" "rl_whitelist rl' = rl_whitelist rl" "rl_globalStats rl' = rl_globalStats rl"
  using assms by (auto simp: processRateLimit_def Let_def split: if_splits prod.splits)

section \<open>The bound over the requests of a period\<close>

definition rule_ok :: "int \<Rightarrow> int \<Rightarrow> RateLimitRule \<Rightarrow> bool" where
  "rule_ok B R rule \<longleftrightarrow> 0 \<le> rr_RateLimit rule \<and> rr_RateLimit rule \<le> R \<and> 0 \<le> rr_BurstLimit rule \<and> rr_BurstLimit rule \<le> B"

definition limits_ok :: "int \<Rightarrow> int \<Rightarrow> RateLimiter \<Rightarrow> bool" where
  "limits_ok B R rl \<longleftrightarrow>
     0 \<le> rlc_DefaultRateLimit (rl_config rl) \<and> rlc_DefaultRateLimit (rl_config rl) \<le> R \<and>
     0 \<le> rlc_DefaultBurstLimit (rl_config rl) \<and> rlc_DefaultBurstLimit (rl_config rl) \<le> B \<and>
     \<not> rlc_EnableWhitelist (rl_config rl) \<and>
     list_all (rule_ok B R \<circ> snd) (rl_rules rl) \<and> list_all (bucket_ok B R \<circ> snd) (rl_limiters rl)"

definition client_credit :: "int \<Rightarrow> int \<Rightarrow> gtime \<Rightarrow> gtime \<Rightarrow> string \<Rightarrow> RateLimiter \<Rightarrow> rat" where
  "client_credit B R t0 t1 c rl =
     (case gm_get (rl_limiters rl) c of None \<Rightarrow> of_int B + secondsOf (t1 - t0) * of_int R | Some l \<Rightarrow> credit B R t0 t1 l)"

lemma best_rule:
  "(\<And>r. fst acc = Some r \<Longrightarrow> P r) \<Longrightarrow> list_all (P \<circ> snd) rules \<Longrightarrow>
     fst (fold (\<lambda>(i, rule) (best, highest).
            if \<not> rr_IsActive rule then (best, highest)
            else if ruleMatches rule req \<and> rr_Priority rule < highest then (Some rule, rr_Priority rule)
            else (best, highest)) rules acc) = Some r \<Longrightarrow> P r"
proof (induction rules arbitrary: acc)
  case (Cons x rules)
  show ?case
    by (rule Cons.IH [OF _ _ Cons.prems(3) [unfolded fold.simps comp_apply]])
      (use Cons.prems(1,2) in \<open>auto split: prod.splits if_splits\<close>)
qed simp

lemma found_rule_ok: "limits_ok B R rl \<Longrightarrow> findMatchingRule req rl = Some rule \<Longrightarrow> rule_ok B R rule"
  unfolding findMatchingRule_def limits_ok_def by (erule best_rule [rotated 2]) auto

lemma credit_fresh:
  assumes "0 \<le> B" "0 \<le> R" "t0 \<le> t1" "cl_tokens l \<le> B"
  shows "credit B R t0 t1 l \<le> of_int B + secondsOf (t1 - t0) * of_int R"
proof -
  have "secondsOf (max 0 (t1 - max t0 (cl_lastRefill l))) * of_int R \<le> secondsOf (t1 - t0) * of_int R"
    using assms by (intro mult_right_mono secondsOf_mono) auto
  moreover have "of_int (max 0 (cl_tokens l)) \<le> (of_int B :: rat)" using assms by simp
  ultimately show ?thesis by (auto simp: credit_def)
qed

lemma get_bucket: "limits_ok B R rl \<Longrightarrow> gm_get (rl_limiters rl) c = Some l \<Longrightarrow> bucket_ok B R l"
  by (auto simp: limits_ok_def list_all_iff dest!: map_of_SomeD)

lemma limits_put:
  "limits_ok B R rl \<Longrightarrow> bucket_ok B R l \<Longrightarrow> limits_ok B R (rl\<lparr>rl_limiters := gm_put c l (rl_limiters rl)\<rparr>)"
  by (auto simp: limits_ok_def list_all_iff dest!: set_gm_put)

text \<open>What the counters, the blacklist and the metrics of a limiter are does not matter to its buckets.\<close>

definition same_buckets :: "RateLimiter \<Rightarrow> RateLimiter \<Rightarrow> bool" where
  "same_buckets rl rl' \<longleftrightarrow> rl_config rl' = rl_config rl \<and> rl_rules rl' = rl_rules rl \<and> rl_limiters rl' = rl_limiters rl"

lemma same_buckets_frame:
  assumes "same_buckets rl rl'"
  shows "limits_ok B R rl' = limits_ok B R rl" "client_credit B R t0 t1 c rl' = client_credit B R t0 t1 c rl"
  using assms by (simp_all add: same_buckets_def limits_ok_def client_credit_def)

lemma same_buckets_simps [simp]:
  "same_buckets rl rl" "same_buckets rl0 (countRequest req rl) = same_buckets rl0 rl"
  "same_buckets rl0 (countOutcome b rl) = same_buckets rl0 rl"
  "same_buckets rl0 (rl\<lparr>rl_metrics := m\<rparr>) = same_buckets rl0 rl"
  "same_buckets rl0 (rl\<lparr>rl_globalStats := g\<rparr>) = same_buckets rl0 rl"
  "same_buckets rl0 (rl\<lparr>rl_blacklist := b'\<rparr>) = same_buckets rl0 rl"
  "same_buckets rl0 (rl\<lparr>rl_whitelist := w\<rparr>) = same_buckets rl0 rl"
  by (auto simp: same_buckets_def countRequest_def countOutcome_def Let_def)

lemma lists_same_buckets:
  "same_buckets rl0 (snd (isBlacklisted now c rl)) = same_buckets rl0 rl"
  "same_buckets rl0 (snd (checkGlobalRateLimit now rl)) = same_buckets rl0 rl"
  by (auto simp: isBlacklisted_def checkGlobalRateLimit_def Let_def split: option.split)

lemma check_cases:
  assumes "\<not> rlc_EnableWhitelist (rl_config rl)" "CheckRateLimit clk req rl = (res, rl')"
  shows "\<not> rs_Allowed res \<and> same_buckets rl rl' \<or>
    (\<exists>rl3. same_buckets rl rl3 \<and> limitClient clk (stampRequest (clk 0) (rl_config rl) req) rl3 = (res, rl'))"
proof -
  define req' where "req' = stampRequest (clk 0) (rl_config rl) req"
  define rl1 where "rl1 = countRequest req' rl"
  define bl where "bl = (if rlc_EnableBlacklist (rl_config rl) then isBlacklisted (clk 4) (rq_ClientID req') rl1 else (False, rl1))"
  define gl where "gl = (if 0 < rlc_GlobalRateLimit (rl_config rl) then checkGlobalRateLimit (clk 5) (snd bl) else (True, snd bl))"
  have same: "same_buckets rl (snd bl)" "same_buckets rl (snd gl)"
    by (simp_all add: bl_def gl_def rl1_def lists_same_buckets)
  have "rs_Allowed (fst (CheckRateLimit clk req rl)) \<longrightarrow> CheckRateLimit clk req rl = limitClient clk req' (snd gl)"
    "same_buckets rl (snd (CheckRateLimit clk req rl)) \<or> CheckRateLimit clk req rl = limitClient clk req' (snd gl)"
    unfolding CheckRateLimit_def Let_def case_prod_beta
    using assms(1) same by (simp_all add: bl_def gl_def rl1_def req'_def refusedResult_def zeroResult_def cong: if_cong)
  then show ?thesis using assms(2) same(2) unfolding req'_def by auto
qed

lemma create_bucket:
  assumes ok: "limits_ok B R rl" and B: "0 \<le> B" and R: "0 \<le> R" and t: "t0 \<le> t1"
    and p: "getOrCreateLimiter now i req rl = (l, rl1)"
  shows "limits_ok B R rl1 \<and> gm_get (rl_limiters rl1) i = Some l \<and> client_credit B R t0 t1 c rl1 \<le> client_credit B R t0 t1 c rl"
proof (cases "gm_get (rl_limiters rl) i")
  case (Some l0)
  then show ?thesis using p ok by (simp add: getOrCreateLimiter_def)
next
  case None
  define n where "n = newLimiter now i (rl_config rl) req"
  have n: "bucket_ok B R n" using ok by (auto simp: n_def newLimiter_def limits_ok_def bucket_ok_def)
  then have "credit B R t0 t1 n \<le> of_int B + secondsOf (t1 - t0) * of_int R"
    using B R t by (intro credit_fresh) (auto simp: bucket_ok_def)
  moreover have "same_buckets (rl\<lparr>rl_limiters := gm_put i n (rl_limiters rl)\<rparr>) rl1" "l = n"
    using p None by (auto simp: getOrCreateLimiter_def n_def [symmetric] same_buckets_def)
  ultimately show ?thesis
    using limits_put [OF ok n, of i] None
    by (auto simp: same_buckets_frame client_credit_def) (simp_all add: same_buckets_def)
qed

lemma limitClient_process:
  assumes "limitClient clk req rl = (res, rl')" "getOrCreateLimiter (clk 6) (rq_ClientID req) req rl = (l, rl1)"
    and ok: "limits_ok B R rl1" "bucket_ok B R l"
  obtains l0 rule l' rl2 where "processRateLimit clk l0 req rule rl1 = (res, l', rl2)" "bucket_ok B R l0"
    "credit B R t0 t1 l0 = credit B R t0 t1 l"
    "rl' = countOutcome (rs_Allowed res) (rl2\<lparr>rl_limiters := gm_put (rq_ClientID req) l' (rl_limiters rl2)\<rparr>)"
proof (cases "findMatchingRule req rl1")
  case None
  then show thesis using assms that [of l None]
    by (auto simp: limitClient_def applyDefaultLimit_def case_prod_beta Let_def prod_eq_iff)
next
  case (Some rule)
  let ?l0 = "l\<lparr>cl_rateLimit := rr_RateLimit rule, cl_burstLimit := rr_BurstLimit rule, cl_windowSize := rr_WindowSize rule\<rparr>"
  have "bucket_ok B R ?l0" "credit B R t0 t1 ?l0 = credit B R t0 t1 l"
    using found_rule_ok [OF ok(1) Some] ok(2) by (auto simp: bucket_ok_def rule_ok_def credit_def)
  then show thesis using assms Some that [of ?l0 "Some rule"]
    by (auto simp: limitClient_def applyRuleLimit_def case_prod_beta Let_def prod_eq_iff)
qed

lemma limit_bucket:
  assumes ok: "limits_ok B R rl" and B: "0 \<le> B" "B < 2 ^ 63" and R: "0 \<le> R"
    and now: "t0 \<le> rq_Timestamp req" "rq_Timestamp req \<le> t1"
    and p: "limitClient clk req rl = (res, rl')"
  shows "limits_ok B R rl' \<and>
    client_credit B R t0 t1 c rl' + of_bool (rq_ClientID req = c \<and> rs_Allowed res) \<le> client_credit B R t0 t1 c rl"
proof -
  obtain l rl1 where g: "getOrCreateLimiter (clk 6) (rq_ClientID req) req rl = (l, rl1)" by force
  have t: "t0 \<le> t1" using now by linarith
  note created = create_bucket [OF ok B(1) R t g, of c]
  have l: "bucket_ok B R l" using get_bucket created by blast
  from created have rl1: "limits_ok B R rl1" by blast
  obtain l0 rule l' rl2 where q: "processRateLimit clk l0 req rule rl1 = (res, l', rl2)" "bucket_ok B R l0"
    "credit B R t0 t1 l0 = credit B R t0 t1 l"
    "rl' = countOutcome (rs_Allowed res) (rl2\<lparr>rl_limiters := gm_put (rq_ClientID req) l' (rl_limiters rl2)\<rparr>)"
    by (rule limitClient_process [OF p g rl1 l])
  note l' = process_bucket [OF q(2) B R now q(1)]
  have same: "same_buckets (rl1\<lparr>rl_limiters := gm_put (rq_ClientID req) l' (rl_limiters rl1)\<rparr>) rl'"
    using process_frame [OF q(1)] by (simp add: q(4)) (simp add: same_buckets_def)
  have "client_credit B R t0 t1 c rl' + of_bool (rq_ClientID req = c \<and> rs_Allowed res) \<le> client_credit B R t0 t1 c rl1"
    using l' created q(3) unfolding same_buckets_frame(2) [OF same] by (auto simp: client_credit_def)
  moreover have "limits_ok B R rl'" unfolding same_buckets_frame(1) [OF same] using limits_put [OF rl1] l' by blast
  ultimately show ?thesis using created by linarith
qed

text \<open>The calls of a period, one after another, and the clients they were decided for.\<close>

fun checkAll :: "((nat \<Rightarrow> gtime) \<times> RateLimitRequest) list \<Rightarrow> RateLimiter \<Rightarrow> (string \<times> bool) list" where
  "checkAll [] rl = []"
| "checkAll ((clk, req) # calls) rl =
     (let (res, rl') = CheckRateLimit clk req rl
      in (extractClientID (rl_config rl) req, rs_Allowed res) # checkAll calls rl')"

definition stamped :: "(nat \<Rightarrow> gtime) \<times> RateLimitRequest \<Rightarrow> gtime" where
  "stamped call = (if rq_Timestamp (snd call) = zeroTime then fst call 0 else rq_Timestamp (snd call))"

lemma check_bucket:
  assumes ok: "limits_ok B R rl" and B: "0 \<le> B" "B < 2 ^ 63" and R: "0 \<le> R"
    and now: "t0 \<le> stamped (clk, req)" "stamped (clk, req) \<le> t1"
    and p: "CheckRateLimit clk req rl = (res, rl')"
  shows "limits_ok B R rl' \<and> client_credit B R t0 t1 c rl' + of_bool (extractClientID (rl_config rl) req = c \<and> rs_Allowed res)
    \<le> client_credit B R t0 t1 c rl"
proof -
  have "\<not> rlc_EnableWhitelist (rl_config rl)" using ok by (simp add: limits_ok_def)
  from check_cases [OF this p] show ?thesis
  proof (elim disjE exE conjE)
    fix rl3 assume same: "same_buckets rl rl3" and q: "limitClient clk (stampRequest (clk 0) (rl_config rl) req) rl3 = (res, rl')"
    have "rq_Timestamp (stampRequest (clk 0) (rl_config rl) req) = stamped (clk, req)"
      "rq_ClientID (stampRequest (clk 0) (rl_config rl) req) = extractClientID (rl_config rl) req"
      by (simp_all add: stampRequest_def stamped_def)
    then show ?thesis
      using limit_bucket [of B R rl3 t0 "stampRequest (clk 0) (rl_config rl) req" t1, OF _ B R _ _ q] same_buckets_frame [OF same] ok now
      by simp
  qed (simp add: same_buckets_frame ok)
qed

lemma client_credit_nonneg: "0 \<le> B \<Longrightarrow> 0 \<le> R \<Longrightarrow> t0 \<le> t1 \<Longrightarrow> 0 \<le> client_credit B R t0 t1 c rl"
  by (auto simp: client_credit_def credit_def split: option.split intro!: add_nonneg_nonneg mult_nonneg_nonneg secondsOf_nonneg)

lemma client_credit_le:
  assumes "limits_ok B R rl" "0 \<le> B" "0 \<le> R" "t0 \<le> t1"
  shows "client_credit B R t0 t1 c rl \<le> of_int B + secondsOf (t1 - t0) * of_int R"
proof (cases "gm_get (rl_limiters rl) c")
  case (Some l)
  then show ?thesis
    using credit_fresh [OF assms(2-4), of l] get_bucket [OF assms(1) Some] by (simp add: client_credit_def bucket_ok_def)
qed (simp add: client_credit_def)

lemma checkAll_credit:
  "limits_ok B R rl \<Longrightarrow> 0 \<le> B \<Longrightarrow> B < 2 ^ 63 \<Longrightarrow> 0 \<le> R \<Longrightarrow> t0 \<le> t1 \<Longrightarrow>
     \<forall>call \<in> set calls. t0 \<le> stamped call \<and> stamped call \<le> t1 \<Longrightarrow>
     of_nat (count_list (checkAll calls rl) (c, True)) \<le> client_credit B R t0 t1 c rl"
proof (induction calls rl rule: checkAll.induct)
  case (1 rl)
  then show ?case by (simp add: client_credit_nonneg)
next
  case (2 clk req calls rl)
  obtain res rl' where p: "CheckRateLimit clk req rl = (res, rl')" by force
  have now: "t0 \<le> stamped (clk, req)" "stamped (clk, req) \<le> t1" using 2(7) by simp_all
  note step = check_bucket [OF 2(2-5) now p, of c]
  have "of_nat (count_list (checkAll calls rl') (c, True)) \<le> client_credit B R t0 t1 c rl'"
    using 2(1) [OF p [symmetric] refl] 2(3-7) step by simp
  then show ?case using step p by (auto split: if_splits)
qed

text \<open>The operations on a limiter between the requests of a period.\<close>

datatype rl_event =
    RL_Check "nat \<Rightarrow> gtime" RateLimitRequest
  | RL_Blacklist "nat \<Rightarrow> gtime" string string duration bool
  | RL_Whitelist "nat \<Rightarrow> gtime" string string "duration option" bool
  | RL_Cleanup gtime

fun rl_step :: "rl_event \<Rightarrow> RateLimiter \<Rightarrow> RateLimiter" where
  "rl_step (RL_Check clk req) rl = snd (CheckRateLimit clk req rl)"
| "rl_step (RL_Blacklist clk c reason d permanent) rl = AddToBlacklist clk c reason d permanent rl"
| "rl_step (RL_Whitelist clk c reason d permanent) rl = AddToWhitelist clk c reason d permanent rl"
| "rl_step (RL_Cleanup now) rl = rl_cleanup now rl"

lemma rl_step_limits:
  assumes "limits_ok B R rl" "0 \<le> B" "B < 2 ^ 63" "0 \<le> R"
  shows "limits_ok B R (rl_step e rl)"
proof (cases e)
  case (RL_Check clk req)
  obtain res rl' where "CheckRateLimit clk req rl = (res, rl')" by force
  then show ?thesis using check_bucket [OF assms order_refl order_refl] RL_Check by simp
next
  case (RL_Cleanup now)
  then show ?thesis using assms by (auto simp: rl_cleanup_def Let_def limits_ok_def list_all_iff)
qed (use assms in \<open>simp_all add: AddToBlacklist_def AddToWhitelist_def Let_def limits_ok_def\<close>)

lemma rl_steps_limits:
  "limits_ok B R rl \<Longrightarrow> 0 \<le> B \<Longrightarrow> B < 2 ^ 63 \<Longrightarrow> 0 \<le> R \<Longrightarrow> limits_ok B R (fold rl_step es rl)"
  by (induction es arbitrary: rl) (simp_all add: rl_step_limits)

lemma new_limits:
  assumes "500 \<le> R" "1000 \<le> B" "0 \<le> rlc_DefaultRateLimit cfg" "rlc_DefaultRateLimit cfg \<le> R"
    "0 \<le> rlc_DefaultBurstLimit cfg" "rlc_DefaultBurstLimit cfg \<le> B" "\<not> rlc_EnableWhitelist cfg"
  shows "limits_ok B R (NewRateLimiter now cfg)"
  using assms by (simp add: limits_ok_def NewRateLimiter_def initializeDefaultRules_def rateDefaults_def dflt_def blankRule_def rule_ok_def)

section \<open>Example\<close>

definition sampleLimits :: RateLimitConfig where
  "sampleLimits = \<lparr>rlc_GlobalRateLimit = 0, rlc_GlobalBurstLimit = 0, rlc_DefaultRateLimit = 0, rlc_DefaultBurstLimit = 0,
     rlc_WindowSize = 0, rlc_SlidingWindow = True, rlc_IdentifyBy = [], rlc_HeaderName = [], rlc_TrustForwardedFor = False,
     rlc_EnableBlacklist = True, rlc_EnableWhitelist = False, rlc_BlockDuration = 0, rlc_ReturnHeaders = False,
     rlc_CustomResponse = None, rlc_StorageType = [], rlc_RedisConfig = None, rlc_CleanupInterval = 0, rlc_MaxIdleTime = 0,
     rlc_EnableAdaptive = False, rlc_EnableBurst = True, rlc_StrictMode = False\<rparr>"

definition sampleCall :: "string \<Rightarrow> gtime \<Rightarrow> (nat \<Rightarrow> gtime) \<times> RateLimitRequest" where
  "sampleCall ip t = (\<lambda>_. t, \<lparr>rq_ClientID = [], rq_Method = ''GET'', rq_Path = ''/api/data/k'', rq_IPAddress = ip, rq_UserAgent = [],
     rq_Headers = [], rq_Size = 0, rq_Timestamp = t, rq_UserID = [], rq_Metadata = []\<rparr>)"

section \<open>The global limit\<close>

lemma check_global_refuses:
  assumes c: "0 < rlc_GlobalRateLimit (rl_config rl)" "\<not> rlc_EnableWhitelist (rl_config rl)"
    and n: "0 \<le> n" "n < max_i64" "gs_TotalRequests (rl_globalStats rl) = n"
    and full: "of_int (rlc_GlobalRateLimit (rl_config rl)) * secondsOf (rlc_WindowSize (rl_config rl)) \<le> of_int n"
    and now: "r \<le> clk 5" "clk 5 < r + rlc_WindowSize (rl_config rl)" "gs_LastResetTime (rl_globalStats rl) = r"
    and p: "CheckRateLimit clk req rl = (res, rl')"
  shows "\<not> rs_Allowed res \<and> rl_config rl' = rl_config rl \<and> gs_TotalRequests (rl_globalStats rl') = n + 1 \<and>
    gs_LastResetTime (rl_globalStats rl') = r"
proof -
  define s where "s = timeSub (clk 5) r"
  have s: "0 \<le> s" "s < rlc_WindowSize (rl_config rl)" using now by (auto simp: s_def timeSub_def)
  have "of_int (rlc_GlobalRateLimit (rl_config rl)) * secondsOf s \<le>
      of_int (rlc_GlobalRateLimit (rl_config rl)) * secondsOf (rlc_WindowSize (rl_config rl))"
    using c s by (intro mult_left_mono secondsOf_mono) auto
  with full have over: "\<not> float_le (float_div (n + 1) (secondsOf s)) (Fin (of_int (rlc_GlobalRateLimit (rl_config rl))))"
    using n(1) s(1) by (auto simp: float_div_def secondsOf_def divide_le_eq)
  have blocked: "checkGlobalRateLimit (clk 5) rl1 = (False, rl1)"
    if "rl_config rl1 = rl_config rl" "gs_TotalRequests (rl_globalStats rl1) = n + 1" "gs_LastResetTime (rl_globalStats rl1) = r" for rl1
    using over s(2) that by (simp add: checkGlobalRateLimit_def s_def [symmetric] Let_def)
  have suc: "i64 (n + 1) = n + 1" using n by (intro i64_suc)
  have e: "CheckRateLimit clk req rl = (let req' = stampRequest (clk 0) (rl_config rl) req; rl1 = countRequest req' rl;
      bl = (if rlc_EnableBlacklist (rl_config rl) then isBlacklisted (clk 4) (rq_ClientID req') rl1 else (False, rl1)) in
    if fst bl
    then (refusedResult (rq_Timestamp req') (3600 * second) ''critical'' ''blocked_blacklisted'' ''blacklisted'' (rl_config rl),
          (countOutcome False (snd bl))\<lparr>rl_metrics := countViolation (rq_ClientID req') ''blacklisted'' (rl_metrics (snd bl))\<rparr>)
    else (refusedResult (rq_Timestamp req') second ''high'' ''global_rate_limit_exceeded'' ''global_limit_exceeded'' (rl_config rl),
          (countOutcome False (snd bl))\<lparr>rl_metrics := (rl_metrics (snd bl))
            \<lparr>mt_BlocksByReason := bump ''global_limit'' (mt_BlocksByReason (rl_metrics (snd bl)))\<rparr>\<rparr>))"
    using c blocked suc n(3) now(3)
    by (auto simp: CheckRateLimit_def Let_def case_prod_beta isBlacklisted_def countRequest_def split: option.split)
  show ?thesis
    using p suc n(3) now(3) unfolding e
    by (auto simp: Let_def isBlacklisted_def countRequest_def countOutcome_def refusedResult_def zeroResult_def split: if_splits option.splits)
qed

section \<open>Properties\<close>



text \<open>
  C35. The global limit compares the requests since the limiter was created, which nothing resets,
  with the time since the start of the window. Once that count has reached what one window may hold,
  every later request of the window is refused, whoever sends it: from then on at most the request
  that starts a window passes.
\<close>

theorem global_limit_starves:
  assumes "0 < rlc_GlobalRateLimit (rl_config rl)" "\<not> rlc_EnableWhitelist (rl_config rl)"
    and "0 \<le> gs_TotalRequests (rl_globalStats rl)" "gs_TotalRequests (rl_globalStats rl) + int (length calls) \<le> max_i64"
    and "of_int (rlc_GlobalRateLimit (rl_config rl)) * secondsOf (rlc_WindowSize (rl_config rl)) \<le> of_int (gs_TotalRequests (rl_globalStats rl))"
    and "\<forall>call \<in> set calls. gs_LastResetTime (rl_globalStats rl) \<le> fst call 5 \<and>
      fst call 5 < gs_LastResetTime (rl_globalStats rl) + rlc_WindowSize (rl_config rl)"
  shows "list_all (Not \<circ> snd) (checkAll calls rl)"
  using assms
proof (induction calls rl rule: checkAll.induct)
  case (2 clk req calls rl)
  obtain res rl' where p: "CheckRateLimit clk req rl = (res, rl')" by force
  have "\<not> rs_Allowed res \<and> rl_config rl' = rl_config rl \<and> gs_TotalRequests (rl_globalStats rl') = gs_TotalRequests (rl_globalStats rl) + 1 \<and>
      gs_LastResetTime (rl_globalStats rl') = gs_LastResetTime (rl_globalStats rl)"
    by (rule check_global_refuses [OF 2(2,3,4) _ refl 2(6) _ _ refl p]) (use 2(5,7) in auto)
  then show ?case using 2 p by simp
qed simp

theorem global_limit_starves_witness:
  "list_all (Not \<circ> snd) (checkAll [sampleCall ''a'' 3, sampleCall ''b'' 9]
     (rl_step (RL_Check (fst (sampleCall ''c'' 2)) (snd (sampleCall ''c'' 2))) (NewRateLimiter 2 (sampleLimits\<lparr>rlc_GlobalRateLimit := 1\<rparr>))))"
  by (rule global_limit_starves) code_simp+

end
