(* ===== verification/RBAC.thy ===== *)
theory RBAC
  imports Go_Lib "HOL-Library.Monad_Syntax" "HOL-Library.Multiset"
begin

text \<open>
  Role-based access control, \<^verbatim>\<open>src/internal/security/rbac.go\<close>: roles with inheritance, policies with rules and
  conditions, and the decision about a request. A check that panics or recurses for ever has the
  outcome \<open>None\<close>. The wall clock (hour and minute of a time where the process runs) is the argument
  \<open>wall\<close>. What goes to the audit logger is kept in the state; what the logger answers is ignored by the code.
\<close>

section \<open>Data\<close>

text \<open>
  Values of Go's \<^verbatim>\<open>interface{}\<close>: \<^verbatim>\<open>nil\<close>, strings, numbers, booleans, values of another comparable type (its number and the
  value), and slices and maps, which are not comparable: comparing two of the same type panics.
\<close>

datatype attr = ANil | AStr string | ANum rat | ABool bool | AOther nat nat | ASlice nat | AMap nat

type_synonym attrs = "(string, attr) gomap"

definition attr_eq :: "attr \<Rightarrow> attr \<Rightarrow> bool option" where
  "attr_eq a b = (case (a, b) of (ASlice m, ASlice n) \<Rightarrow> None | (AMap m, AMap n) \<Rightarrow> None | _ \<Rightarrow> Some (a = b))"

datatype PermissionEffect = EffectAllow | EffectDeny

datatype PolicyType = PolicyTypeRBAC | PolicyTypeABAC | PolicyTypeACL

datatype ConditionType = ConditionTime | ConditionIP | ConditionLocation | ConditionAttribute | ConditionResource | ConditionUnknown string

datatype ConditionOperator = OperatorEquals | OperatorNotEquals | OperatorIn | OperatorNotIn | OperatorGreater | OperatorLess |
  OperatorContains | OperatorMatches | OperatorUnknown string

record RBACConfig =
  rbc_DefaultDenyAll :: bool
  rbc_EnableInheritance :: bool
  rbc_EnableDynamicRoles :: bool
  rbc_EnableCache :: bool
  rbc_CacheTTL :: duration
  rbc_CacheSize :: int
  rbc_EnableValidation :: bool
  rbc_StrictMode :: bool
  rbc_EnableTemporal :: bool
  rbc_MaxGrantDuration :: duration
  rbc_EnableAudit :: bool
  rbc_AuditAllAccess :: bool
  rbc_AuditDeniedOnly :: bool

record TimeWindow =
  tw_StartTime :: string
  tw_EndTime :: string
  tw_Days :: "int list"
  tw_TimeZone :: string

record RoleConstraints =
  rco_TimeWindows :: "TimeWindow list"
  rco_IPRestrictions :: "string list"
  rco_LocationLimits :: "string list"
  rco_MaxSessions :: int
  rco_RequiresMFA :: bool
  rco_ExpiresAt :: "gtime option"
  rco_Metadata :: attrs

record Role =
  ro_ID :: string
  ro_Name :: string
  ro_Description :: string
  ro_Permissions :: "string list"
  ro_ParentRoles :: "string list"
  ro_IsSystem :: bool
  ro_IsActive :: bool
  ro_CreatedAt :: gtime
  ro_UpdatedAt :: gtime
  ro_CreatedBy :: string
  ro_Metadata :: attrs
  ro_Constraints :: "RoleConstraints option"

record Condition =
  cn_Type :: ConditionType
  cn_Attribute :: string
  cn_Operator :: ConditionOperator
  cn_Value :: attr
  cn_Values :: "attr list"

record Permission =
  pe_ID :: string
  pe_Name :: string
  pe_Description :: string
  pe_Resource :: string
  pe_Action :: string
  pe_Effect :: PermissionEffect
  pe_Conditions :: "Condition list"
  pe_IsSystem :: bool
  pe_CreatedAt :: gtime
  pe_UpdatedAt :: gtime
  pe_Metadata :: attrs

record PolicyRule =
  pr_ID :: string
  pr_Effect :: PermissionEffect
  pr_Subject :: string
  pr_Resource :: string
  pr_Action :: string
  pr_Conditions :: "Condition list"
  pr_Priority :: int
  pr_Metadata :: attrs

record Policy =
  po_ID :: string
  po_Name :: string
  po_Description :: string
  po_Type :: PolicyType
  po_Rules :: "PolicyRule list"
  po_Priority :: int
  po_IsActive :: bool
  po_CreatedAt :: gtime
  po_UpdatedAt :: gtime
  po_Metadata :: attrs

record Resource =
  re_ID :: string
  re_Name :: string
  re_Type :: string
  re_Path :: string
  re_Parent :: string
  re_Children :: "string list"
  re_Attributes :: attrs
  re_Metadata :: attrs

record Location =
  lo_Country :: string
  lo_Region :: string
  lo_City :: string
  lo_Latitude :: rat
  lo_Longitude :: rat

record DeviceInfo =
  di_Type :: string
  di_OS :: string
  di_Browser :: string
  di_Fingerprint :: string
  di_IsTrusted :: bool

record AccessContext =
  ac_IPAddress :: string
  ac_UserAgent :: string
  ac_SessionID :: string
  ac_RequestID :: string
  ac_Timestamp :: gtime
  ac_Location :: "Location option"
  ac_Device :: "DeviceInfo option"
  ac_Environment :: string
  ac_Attributes :: attrs

record AccessRequest =
  ar_UserID :: string
  ar_Username :: string
  ar_Roles :: "string list"
  ar_Resource :: string
  ar_Action :: string
  ar_Context :: "AccessContext option"
  ar_RequestedAt :: gtime
  ar_Metadata :: attrs

record AccessResult =
  as_Granted :: bool
  as_Effect :: PermissionEffect
  as_Reason :: string
  as_MatchedRules :: "string list"
  as_FailedRules :: "string list"
  as_Permissions :: "string list"
  as_Context :: "AccessContext option"
  as_ProcessedAt :: gtime
  as_TTL :: duration
  as_Metadata :: attrs

record RBACMetrics =
  rbm_TotalAccessChecks :: int
  rbm_GrantedAccess :: int
  rbm_DeniedAccess :: int
  rbm_CacheHits :: int
  rbm_CacheMisses :: int
  rbm_PolicyEvaluations :: int
  rbm_RoleAssignments :: int
  rbm_PermissionGrants :: int
  rbm_AccessByResource :: "(string, int) gomap"
  rbm_AccessByAction :: "(string, int) gomap"
  rbm_AccessByRole :: "(string, int) gomap"
  rbm_DenialReasons :: "(string, int) gomap"

datatype audit_call =
    LogAccess AccessRequest AccessResult
  | LogRoleChange string string string
  | LogPermissionChange string string

record RBACManager =
  rb_config :: RBACConfig
  rb_roles :: "(string, Role) gomap"
  rb_permissions :: "(string, Permission) gomap"
  rb_policies :: "(string, Policy) gomap"
  rb_resources :: "(string, Resource) gomap"
  rb_auditLogger :: bool
  rb_audit :: "audit_call list"
  rb_metrics :: RBACMetrics

section \<open>Default roles, permissions, policies and resources\<close>

definition ownerCondition :: Condition where
  "ownerCondition = \<lparr>cn_Type = ConditionAttribute, cn_Attribute = ''owner'', cn_Operator = OperatorEquals, cn_Value = AStr ''${user.id}'', cn_Values = []\<rparr>"

definition systemPermission :: "gtime \<Rightarrow> string \<Rightarrow> string \<Rightarrow> string \<Rightarrow> string \<Rightarrow> string \<Rightarrow> Condition list \<Rightarrow> string \<times> Permission" where
  "systemPermission now i name descr res act conds =
     (i, \<lparr>pe_ID = i, pe_Name = name, pe_Description = descr, pe_Resource = res, pe_Action = act, pe_Effect = EffectAllow, pe_Conditions = conds,
       pe_IsSystem = True, pe_CreatedAt = now, pe_UpdatedAt = zeroTime, pe_Metadata = []\<rparr>)"

definition createDefaultPermissions :: "(nat \<Rightarrow> gtime) \<Rightarrow> (string, Permission) gomap" where
  "createDefaultPermissions clk =
     [systemPermission (clk 0) ''perm_read_all'' ''Read All'' ''Read access to all resources'' ''*'' ''read'' [],
      systemPermission (clk 1) ''perm_write_all'' ''Write All'' ''Write access to all resources'' ''*'' ''write'' [],
      systemPermission (clk 2) ''perm_delete_all'' ''Delete All'' ''Delete access to all resources'' ''*'' ''delete'' [],
      systemPermission (clk 3) ''perm_manage_users'' ''Manage Users'' ''Manage user accounts'' ''users'' ''*'' [],
      systemPermission (clk 4) ''perm_manage_system'' ''Manage System'' ''System administration'' ''system'' ''*'' [],
      systemPermission (clk 5) ''perm_read_own'' ''Read Own'' ''Read own resources'' ''user_data'' ''read'' [ownerCondition]]"

definition systemRole :: "gtime \<Rightarrow> string \<Rightarrow> string \<Rightarrow> string \<Rightarrow> string list \<Rightarrow> string \<times> Role" where
  "systemRole now i name descr perms =
     (i, \<lparr>ro_ID = i, ro_Name = name, ro_Description = descr, ro_Permissions = perms, ro_ParentRoles = [], ro_IsSystem = True, ro_IsActive = True,
       ro_CreatedAt = now, ro_UpdatedAt = zeroTime, ro_CreatedBy = [], ro_Metadata = [], ro_Constraints = None\<rparr>)"

definition createDefaultRoles :: "(nat \<Rightarrow> gtime) \<Rightarrow> (string, Role) gomap" where
  "createDefaultRoles clk =
     [systemRole (clk 6) ''role_super_admin'' ''Super Administrator'' ''Full system access''
        [''perm_read_all'', ''perm_write_all'', ''perm_delete_all'', ''perm_manage_users'', ''perm_manage_system''],
      systemRole (clk 7) ''role_admin'' ''Administrator'' ''Administrative access'' [''perm_read_all'', ''perm_write_all'', ''perm_manage_users''],
      systemRole (clk 8) ''role_user'' ''User'' ''Standard user access'' [''perm_read_own''],
      systemRole (clk 9) ''role_reader'' ''Reader'' ''Read-only access'' [''perm_read_own''],
      systemRole (clk 10) ''role_guest'' ''Guest'' ''Limited guest access'' []]"

definition systemRule :: "string \<Rightarrow> PermissionEffect \<Rightarrow> string \<Rightarrow> string \<Rightarrow> string \<Rightarrow> int \<Rightarrow> Condition list \<Rightarrow> PolicyRule" where
  "systemRule i eff subj res act prio conds =
     \<lparr>pr_ID = i, pr_Effect = eff, pr_Subject = subj, pr_Resource = res, pr_Action = act, pr_Conditions = conds, pr_Priority = prio, pr_Metadata = []\<rparr>"

definition systemPolicy :: "gtime \<Rightarrow> string \<Rightarrow> string \<Rightarrow> string \<Rightarrow> int \<Rightarrow> bool \<Rightarrow> PolicyRule \<Rightarrow> string \<times> Policy" where
  "systemPolicy now i name descr prio active rule =
     (i, \<lparr>po_ID = i, po_Name = name, po_Description = descr, po_Type = PolicyTypeRBAC, po_Rules = [rule], po_Priority = prio, po_IsActive = active,
       po_CreatedAt = now, po_UpdatedAt = zeroTime, po_Metadata = []\<rparr>)"

definition createDefaultPolicies :: "(nat \<Rightarrow> gtime) \<Rightarrow> RBACConfig \<Rightarrow> (string, Policy) gomap" where
  "createDefaultPolicies clk c =
     [systemPolicy (clk 11) ''policy_default_deny'' ''Default Deny'' ''Default deny all access'' 1000 (rbc_DefaultDenyAll c)
        (systemRule ''rule_deny_all'' EffectDeny ''*'' ''*'' ''*'' 1000 []),
      systemPolicy (clk 12) ''policy_admin_access'' ''Administrator Access'' ''Full access for administrators'' 100 True
        (systemRule ''rule_admin_all'' EffectAllow ''role:role_admin'' ''*'' ''*'' 100 []),
      systemPolicy (clk 13) ''policy_user_access'' ''User Access'' ''Standard user access policy'' 500 True
        (systemRule ''rule_user_read'' EffectAllow ''role:role_user'' ''data/*'' ''read'' 500 [ownerCondition])]"

definition systemResource :: "string \<Rightarrow> string \<Rightarrow> string \<Rightarrow> string \<Rightarrow> string \<Rightarrow> string \<times> Resource" where
  "systemResource i name ty path attribute =
     (i, \<lparr>re_ID = i, re_Name = name, re_Type = ty, re_Path = path, re_Parent = [], re_Children = [],
       re_Attributes = [(''type'', AStr attribute)], re_Metadata = []\<rparr>)"

definition createDefaultResources :: "(string, Resource) gomap" where
  "createDefaultResources =
     [systemResource ''res_data'' ''Data'' ''kvstore_data'' ''/data'' ''data'',
      systemResource ''res_users'' ''Users'' ''user_management'' ''/users'' ''users'',
      systemResource ''res_system'' ''System'' ''system_admin'' ''/system'' ''system'']"

definition NewRBACManager :: "(nat \<Rightarrow> gtime) \<Rightarrow> RBACConfig \<Rightarrow> bool \<Rightarrow> RBACManager" where
  "NewRBACManager clk config auditLogger =
     (let config = config
        \<lparr>rbc_CacheTTL := (if rbc_CacheTTL config = 0 then 300 * second else rbc_CacheTTL config),
         rbc_CacheSize := (if rbc_CacheSize config = 0 then 10000 else rbc_CacheSize config),
         rbc_MaxGrantDuration := (if rbc_MaxGrantDuration config = 0 then 86400 * second else rbc_MaxGrantDuration config)\<rparr>
      in \<lparr>rb_config = config, rb_roles = createDefaultRoles clk, rb_permissions = createDefaultPermissions clk,
          rb_policies = createDefaultPolicies clk config, rb_resources = createDefaultResources, rb_auditLogger = auditLogger, rb_audit = [],
          rb_metrics = \<lparr>rbm_TotalAccessChecks = 0, rbm_GrantedAccess = 0, rbm_DeniedAccess = 0, rbm_CacheHits = 0, rbm_CacheMisses = 0,
            rbm_PolicyEvaluations = 0, rbm_RoleAssignments = 0, rbm_PermissionGrants = 0, rbm_AccessByResource = [], rbm_AccessByAction = [],
            rbm_AccessByRole = [], rbm_DenialReasons = []\<rparr>\<rparr>)"

section \<open>Inherited roles and permissions\<close>

text \<open>
  Both searches recurse through the parents and may not end. \<open>inheritsAny\<close> is the loop over the
  parents of a role; \<open>collectPerms\<close> is the nested loops over roles, permissions and parents, with what is still to do.
\<close>

definition parentsOf :: "(string, Role) gomap \<Rightarrow> string \<Rightarrow> string list" where
  "parentsOf roles roleID = (case gm_get roles roleID of Some role \<Rightarrow> ro_ParentRoles role | None \<Rightarrow> [])"

partial_function (option) inheritsAny :: "(string, Role) gomap \<Rightarrow> string list \<Rightarrow> string \<Rightarrow> bool option" where
  "inheritsAny roles ps targetRole =
     (case ps of
        [] \<Rightarrow> Some False
      | parentRole # ps \<Rightarrow>
          if parentRole = targetRole then Some True
          else do {
            inherited \<leftarrow> inheritsAny roles (parentsOf roles parentRole) targetRole;
            (if inherited then Some True else inheritsAny roles ps targetRole)
          })"

declare inheritsAny.simps [code]

definition hasInheritedRole :: "(string, Role) gomap \<Rightarrow> string \<Rightarrow> string \<Rightarrow> bool option" where
  "hasInheritedRole roles userRole targetRole = inheritsAny roles (parentsOf roles userRole) targetRole"

datatype perm_task = OfRole string | OfParent string

definition addNew :: "string list \<Rightarrow> string list \<Rightarrow> string list" where
  "addNew perms acc = fold (\<lambda>perm acc. if perm \<in> set acc then acc else acc @ [perm]) perms acc"

partial_function (option) collectPerms :: "RBACConfig \<Rightarrow> (string, Role) gomap \<Rightarrow> perm_task list \<Rightarrow> string list \<Rightarrow> string list option" where
  "collectPerms c roles tasks acc =
     (case tasks of
        [] \<Rightarrow> Some acc
      | OfRole roleID # tasks \<Rightarrow>
          (case gm_get roles roleID of
             None \<Rightarrow> collectPerms c roles tasks acc
           | Some role \<Rightarrow>
               if ro_IsActive role
               then collectPerms c roles ((if rbc_EnableInheritance c then map OfParent (ro_ParentRoles role) else []) @ tasks)
                      (addNew (ro_Permissions role) acc)
               else collectPerms c roles tasks acc)
      | OfParent parentRoleID # tasks \<Rightarrow> do {
          parentPerms \<leftarrow> collectPerms c roles [OfRole parentRoleID] [];
          collectPerms c roles tasks (addNew parentPerms acc)
        })"

declare collectPerms.simps [code]

definition getUserPermissions :: "RBACConfig \<Rightarrow> (string, Role) gomap \<Rightarrow> string list \<Rightarrow> string list option" where
  "getUserPermissions c roles userRoles = collectPerms c roles (map OfRole userRoles) []"

section \<open>Matching a rule\<close>

fun subjectRoles :: "RBACConfig \<Rightarrow> (string, Role) gomap \<Rightarrow> string \<Rightarrow> string list \<Rightarrow> bool option" where
  "subjectRoles c roles roleID [] = Some False"
| "subjectRoles c roles roleID (userRole # userRoles) =
     (if userRole = roleID then Some True
      else do {
        inherited \<leftarrow> (if rbc_EnableInheritance c then hasInheritedRole roles userRole roleID else Some False);
        (if inherited then Some True else subjectRoles c roles roleID userRoles)
      })"

definition subjectMatches :: "string \<Rightarrow> AccessRequest \<Rightarrow> RBACManager \<Rightarrow> bool option" where
  "subjectMatches subject request rb =
     (if subject = ''*'' then Some True
      else if HasPrefix subject ''role:'' then subjectRoles (rb_config rb) (rb_roles rb) (drop 5 subject) (ar_Roles request)
      else if HasPrefix subject ''user:'' then Some (drop 5 subject = ar_UserID request)
      else Some (subject = ar_Username request \<or> subject = ar_UserID request))"

definition resourceMatches :: "string \<Rightarrow> string \<Rightarrow> bool" where
  "resourceMatches pat resource =
     (if pat = ''*'' then True
      else if HasSuffix pat ''*'' then HasPrefix resource (TrimSuffix pat ''*'')
      else pat = resource)"

definition actionMatches :: "string \<Rightarrow> string \<Rightarrow> bool" where
  "actionMatches pat action = (if pat = ''*'' then True else pat = action)"

definition rb_ruleMatches :: "PolicyRule \<Rightarrow> AccessRequest \<Rightarrow> RBACManager \<Rightarrow> bool option" where
  "rb_ruleMatches rule request rb = do {
     subject \<leftarrow> subjectMatches (pr_Subject rule) request rb;
     Some (if \<not> subject then False
           else if \<not> resourceMatches (pr_Resource rule) (ar_Resource request) then False
           else if \<not> actionMatches (pr_Action rule) (ar_Action request) then False
           else True)
   }"

section \<open>Conditions\<close>

text \<open>Parsing \<open>15:04\<close>: an hour of one or two digits, a colon, two digits for the minute.\<close>

definition parseHour :: "string \<Rightarrow> (nat \<times> string) option" where
  "parseHour s =
     (case s of
        a # b # rest \<Rightarrow>
          if is_digit a then
            (if is_digit b then Some (10 * digit_val a + digit_val b, rest) else Some (digit_val a, b # rest))
          else None
      | [a] \<Rightarrow> if is_digit a then Some (digit_val a, []) else None
      | [] \<Rightarrow> None)"

definition parseClock :: "string \<Rightarrow> (nat \<times> nat) option" where
  "parseClock s =
     (case parseHour s of
        Some (h, [colon, a, b]) \<Rightarrow>
          if h < 24 \<and> colon = CHR '':'' \<and> is_digit a \<and> is_digit b \<and> 10 * digit_val a + digit_val b < 60
          then Some (h, 10 * digit_val a + digit_val b) else None
      | _ \<Rightarrow> None)"

definition evaluateTimeCondition :: "(gtime \<Rightarrow> nat \<times> nat) \<Rightarrow> gtime \<Rightarrow> Condition \<Rightarrow> AccessRequest \<Rightarrow> bool" where
  "evaluateTimeCondition wall clock condition request =
     (let now = (if ar_RequestedAt request = zeroTime then clock else ar_RequestedAt request);
          minutes = (\<lambda>(h, m). 60 * h + m :: nat)
      in case (cn_Operator condition, cn_Value condition) of
           (OperatorGreater, AStr v) \<Rightarrow> (case parseClock v of Some t \<Rightarrow> minutes t < minutes (wall now) | None \<Rightarrow> False)
         | (OperatorLess, AStr v) \<Rightarrow> (case parseClock v of Some t \<Rightarrow> minutes (wall now) < minutes t | None \<Rightarrow> False)
         | _ \<Rightarrow> False)"

fun anyIP :: "string \<Rightarrow> attr list \<Rightarrow> bool option" where
  "anyIP ip [] = Some False"
| "anyIP ip (AStr v # vs) = (if ip = v then Some True else anyIP ip vs)"
| "anyIP ip (v # vs) = None"

definition evaluateIPCondition :: "Condition \<Rightarrow> AccessRequest \<Rightarrow> bool option" where
  "evaluateIPCondition condition request =
     (case ar_Context request of
        None \<Rightarrow> Some False
      | Some ctx \<Rightarrow>
          (case cn_Operator condition of
             OperatorEquals \<Rightarrow> (case cn_Value condition of AStr v \<Rightarrow> Some (ac_IPAddress ctx = v) | _ \<Rightarrow> None)
           | OperatorIn \<Rightarrow> anyIP (ac_IPAddress ctx) (cn_Values condition)
           | OperatorContains \<Rightarrow> (case cn_Value condition of AStr v \<Rightarrow> Some (Contains (ac_IPAddress ctx) v) | _ \<Rightarrow> None)
           | _ \<Rightarrow> Some False))"

fun anyEqual :: "attr \<Rightarrow> attr list \<Rightarrow> bool option" where
  "anyEqual actual [] = Some False"
| "anyEqual actual (v # vs) = do { eq \<leftarrow> attr_eq actual v; (if eq then Some True else anyEqual actual vs) }"

definition compareValue :: "attr \<Rightarrow> ConditionOperator \<Rightarrow> attr \<Rightarrow> attr list \<Rightarrow> bool option" where
  "compareValue actual operator expected expectedList =
     (case operator of
        OperatorEquals \<Rightarrow> attr_eq actual expected
      | OperatorNotEquals \<Rightarrow> map_option Not (attr_eq actual expected)
      | OperatorIn \<Rightarrow> anyEqual actual expectedList
      | OperatorNotIn \<Rightarrow> map_option Not (anyEqual actual expectedList)
      | OperatorContains \<Rightarrow> Some (case (actual, expected) of (AStr a, AStr e) \<Rightarrow> Contains a e | _ \<Rightarrow> False)
      | OperatorMatches \<Rightarrow> Some (case (actual, expected) of (AStr a, AStr e) \<Rightarrow> a = e | _ \<Rightarrow> False)
      | _ \<Rightarrow> Some False)"

definition evaluateLocationCondition :: "Condition \<Rightarrow> AccessRequest \<Rightarrow> bool option" where
  "evaluateLocationCondition condition request =
     (case ar_Context request \<bind> ac_Location of
        None \<Rightarrow> Some False
      | Some location \<Rightarrow>
          (let cmp = (\<lambda>actual. compareValue (AStr actual) (cn_Operator condition) (cn_Value condition) (cn_Values condition))
           in if cn_Attribute condition = ''country'' then cmp (lo_Country location)
              else if cn_Attribute condition = ''region'' then cmp (lo_Region location)
              else if cn_Attribute condition = ''city'' then cmp (lo_City location)
              else Some False))"

definition requestAttribute :: "string \<Rightarrow> AccessRequest \<Rightarrow> attr" where
  "requestAttribute name request =
     (let v = (case ar_Context request of None \<Rightarrow> ANil | Some ctx \<Rightarrow> (case gm_get (ac_Attributes ctx) name of Some v \<Rightarrow> v | None \<Rightarrow> ANil))
      in if v = ANil then (case gm_get (ar_Metadata request) name of Some v \<Rightarrow> v | None \<Rightarrow> ANil) else v)"

definition evaluateAttributeCondition :: "Condition \<Rightarrow> AccessRequest \<Rightarrow> bool option" where
  "evaluateAttributeCondition condition request =
     (let expectedValue =
        (if cn_Value condition = AStr ''${user.id}'' then AStr (ar_UserID request)
         else if cn_Value condition = AStr ''${user.username}'' then AStr (ar_Username request)
         else cn_Value condition)
      in compareValue (requestAttribute (cn_Attribute condition) request) (cn_Operator condition) expectedValue (cn_Values condition))"

definition evaluateResourceCondition :: "Condition \<Rightarrow> AccessRequest \<Rightarrow> RBACManager \<Rightarrow> bool option" where
  "evaluateResourceCondition condition request rb =
     (case gm_get (rb_resources rb) (ar_Resource request) of
        None \<Rightarrow> Some False
      | Some resource \<Rightarrow>
          (case gm_get (re_Attributes resource) (cn_Attribute condition) of
             None \<Rightarrow> Some False
           | Some v \<Rightarrow> compareValue v (cn_Operator condition) (cn_Value condition) (cn_Values condition)))"

definition evaluateCondition :: "(gtime \<Rightarrow> nat \<times> nat) \<Rightarrow> gtime \<Rightarrow> Condition \<Rightarrow> AccessRequest \<Rightarrow> RBACManager \<Rightarrow> bool option" where
  "evaluateCondition wall clock condition request rb =
     (case cn_Type condition of
        ConditionTime \<Rightarrow> Some (evaluateTimeCondition wall clock condition request)
      | ConditionIP \<Rightarrow> evaluateIPCondition condition request
      | ConditionLocation \<Rightarrow> evaluateLocationCondition condition request
      | ConditionAttribute \<Rightarrow> evaluateAttributeCondition condition request
      | ConditionResource \<Rightarrow> evaluateResourceCondition condition request rb
      | ConditionUnknown t \<Rightarrow> Some False)"

fun evaluateConditions :: "(gtime \<Rightarrow> nat \<times> nat) \<Rightarrow> gtime \<Rightarrow> Condition list \<Rightarrow> AccessRequest \<Rightarrow> RBACManager \<Rightarrow> bool option" where
  "evaluateConditions wall clock [] request rb = Some True"
| "evaluateConditions wall clock (condition # conditions) request rb = do {
     holds \<leftarrow> evaluateCondition wall clock condition request rb;
     (if \<not> holds then Some False else evaluateConditions wall clock conditions request rb)
   }"

section \<open>Policies\<close>

text \<open>Evaluating a policy gives whether it grants, a reason, and the rules that matched and those whose conditions failed.\<close>

type_synonym verdict = "bool \<times> string \<times> string list \<times> string list"

fun evaluateRules :: "(gtime \<Rightarrow> nat \<times> nat) \<Rightarrow> gtime \<Rightarrow> PolicyRule list \<Rightarrow> AccessRequest \<Rightarrow> RBACManager \<Rightarrow> string list \<Rightarrow> string list \<Rightarrow> verdict option" where
  "evaluateRules wall clock [] request rb matchedRules failedRules = Some (False, ''No matching rules'', matchedRules, failedRules)"
| "evaluateRules wall clock (rule # rules) request rb matchedRules failedRules = do {
     matches \<leftarrow> rb_ruleMatches rule request rb;
     (if matches then do {
        holds \<leftarrow> evaluateConditions wall clock (pr_Conditions rule) request rb;
        (if holds then
           Some (if pr_Effect rule = EffectAllow then (True, ''Rule granted access'', matchedRules @ [pr_ID rule], failedRules)
                 else (False, ''Rule denied access'', matchedRules @ [pr_ID rule], failedRules))
         else evaluateRules wall clock rules request rb (matchedRules @ [pr_ID rule]) (failedRules @ [pr_ID rule]))
      }
      else evaluateRules wall clock rules request rb matchedRules failedRules)
   }"

definition evaluatePolicy :: "(gtime \<Rightarrow> nat \<times> nat) \<Rightarrow> gtime \<Rightarrow> Policy \<Rightarrow> AccessRequest \<Rightarrow> RBACManager \<Rightarrow> verdict option" where
  "evaluatePolicy wall clock policy request rb =
     (if \<not> po_IsActive policy then Some (False, ''Policy inactive'', [], [])
      else evaluateRules wall clock (po_Rules policy) request rb [] [])"

text \<open>The exchange sort of the policies: the two loops over positions.\<close>

fun sortInner :: "nat \<Rightarrow> nat \<Rightarrow> Policy list \<Rightarrow> Policy list" where
  "sortInner i 0 ps = ps"
| "sortInner i (Suc n) ps =
     (let j = length ps - Suc n
      in sortInner i n (if po_Priority (ps ! j) < po_Priority (ps ! i) then ps[i := ps ! j, j := ps ! i] else ps))"

fun sortOuter :: "nat \<Rightarrow> Policy list \<Rightarrow> Policy list" where
  "sortOuter 0 ps = ps"
| "sortOuter (Suc n) ps = (let i = length ps - Suc (Suc n) in sortOuter n (sortInner i (Suc n) ps))"

definition getApplicablePolicies :: "RBACManager \<Rightarrow> Policy list" where
  "getApplicablePolicies rb =
     (let policies = filter po_IsActive (map snd (rb_policies rb)) in sortOuter (length policies - 1) policies)"

fun evaluateEach :: "(gtime \<Rightarrow> nat \<times> nat) \<Rightarrow> gtime \<Rightarrow> Policy list \<Rightarrow> AccessRequest \<Rightarrow> RBACManager \<Rightarrow> string list \<Rightarrow> string list \<Rightarrow> int \<Rightarrow>
    (verdict \<times> int) option" where
  "evaluateEach wall clock [] request rb matchedRules failedRules n =
     Some (if rbc_DefaultDenyAll (rb_config rb) then (False, ''Default deny - no matching allow rules'', matchedRules, failedRules)
           else (True, ''Default allow'', matchedRules, failedRules), n)"
| "evaluateEach wall clock (policy # policies) request rb matchedRules failedRules n = do {
     (granted, reason, matched, failed) \<leftarrow> evaluatePolicy wall clock policy request rb;
     (if granted then Some ((True, ''Access granted by policy: '' @ po_Name policy, matchedRules @ matched, failedRules @ failed), i64 (n + 1))
      else if matched \<noteq> [] then
        Some ((False, ''Access denied by policy: '' @ po_Name policy @ '' - '' @ reason, matchedRules @ matched, failedRules @ failed), i64 (n + 1))
      else evaluateEach wall clock policies request rb (matchedRules @ matched) (failedRules @ failed) (i64 (n + 1)))
   }"

definition evaluatePolicies :: "(gtime \<Rightarrow> nat \<times> nat) \<Rightarrow> gtime \<Rightarrow> AccessRequest \<Rightarrow> RBACManager \<Rightarrow> (verdict \<times> RBACManager) option" where
  "evaluatePolicies wall clock request rb = do {
     (verdict, n) \<leftarrow> evaluateEach wall clock (getApplicablePolicies rb) request rb [] [] (rbm_PolicyEvaluations (rb_metrics rb));
     Some (verdict, rb\<lparr>rb_metrics := (rb_metrics rb)\<lparr>rbm_PolicyEvaluations := n\<rparr>\<rparr>)
   }"

section \<open>Checking access\<close>

definition tally :: "string \<Rightarrow> (string, int) gomap \<Rightarrow> (string, int) gomap" where
  "tally k m = gm_put k (i64 ((case gm_get m k of Some n \<Rightarrow> n | None \<Rightarrow> 0) + 1)) m"

text \<open>The cache is a stub: it never has a result.\<close>

definition getCachedResult :: "AccessRequest \<Rightarrow> AccessResult option" where
  "getCachedResult request = None"

definition cacheResult :: "AccessRequest \<Rightarrow> AccessResult \<Rightarrow> RBACManager \<Rightarrow> RBACManager" where
  "cacheResult request result rb = rb"

definition countCheck :: "AccessRequest \<Rightarrow> RBACMetrics \<Rightarrow> RBACMetrics" where
  "countCheck request m = m
     \<lparr>rbm_TotalAccessChecks := i64 (rbm_TotalAccessChecks m + 1), rbm_AccessByResource := tally (ar_Resource request) (rbm_AccessByResource m),
      rbm_AccessByAction := tally (ar_Action request) (rbm_AccessByAction m), rbm_AccessByRole := fold tally (ar_Roles request) (rbm_AccessByRole m)\<rparr>"

definition countDecision :: "bool \<Rightarrow> string \<Rightarrow> RBACMetrics \<Rightarrow> RBACMetrics" where
  "countDecision granted reason m =
     (if granted then m\<lparr>rbm_GrantedAccess := i64 (rbm_GrantedAccess m + 1)\<rparr>
      else m\<lparr>rbm_DeniedAccess := i64 (rbm_DeniedAccess m + 1), rbm_DenialReasons := tally reason (rbm_DenialReasons m)\<rparr>)"

definition auditsAccess :: "bool \<Rightarrow> RBACManager \<Rightarrow> bool" where
  "auditsAccess granted rb =
     (rbc_EnableAudit (rb_config rb) \<and>
      (rbc_AuditAllAccess (rb_config rb) \<or> \<not> granted \<and> rbc_AuditDeniedOnly (rb_config rb) \<or> \<not> rbc_AuditDeniedOnly (rb_config rb) \<and> granted) \<and>
      rb_auditLogger rb)"

definition decideAccess :: "(gtime \<Rightarrow> nat \<times> nat) \<Rightarrow> gtime \<Rightarrow> AccessRequest \<Rightarrow> AccessResult \<Rightarrow> RBACManager \<Rightarrow> (AccessResult \<times> RBACManager) option" where
  "decideAccess wall clock request result rb = do {
     ((granted, reason, matchedRules, failedRules), rb) \<leftarrow> evaluatePolicies wall clock request rb;
     permissions \<leftarrow> (if granted then getUserPermissions (rb_config rb) (rb_roles rb) (ar_Roles request) else Some []);
     Some (let result = result\<lparr>as_Granted := granted, as_Reason := reason, as_MatchedRules := matchedRules, as_FailedRules := failedRules,
                 as_Effect := (if granted then EffectAllow else EffectDeny), as_Permissions := permissions\<rparr>;
               rb = rb\<lparr>rb_metrics := countDecision granted reason (rb_metrics rb)\<rparr>;
               rb = (if rbc_EnableCache (rb_config rb) then cacheResult request result rb else rb);
               rb = (if auditsAccess granted rb then rb\<lparr>rb_audit := rb_audit rb @ [LogAccess request result]\<rparr> else rb)
           in (result, rb))
   }"

definition CheckAccess :: "(gtime \<Rightarrow> nat \<times> nat) \<Rightarrow> (nat \<Rightarrow> gtime) \<Rightarrow> AccessRequest \<Rightarrow> RBACManager \<Rightarrow> (AccessResult \<times> RBACManager) option" where
  "CheckAccess wall clk request rb =
     (let request = (if ar_RequestedAt request = zeroTime then request\<lparr>ar_RequestedAt := clk 0\<rparr> else request);
          result = \<lparr>as_Granted = False, as_Effect = EffectDeny, as_Reason = [], as_MatchedRules = [], as_FailedRules = [], as_Permissions = [],
            as_Context = ar_Context request, as_ProcessedAt = clk 1, as_TTL = 0, as_Metadata = []\<rparr>;
          rb = rb\<lparr>rb_metrics := countCheck request (rb_metrics rb)\<rparr>
      in if rbc_EnableCache (rb_config rb) then
           (case getCachedResult request of
              Some cached \<Rightarrow> Some (cached, rb\<lparr>rb_metrics := (rb_metrics rb)\<lparr>rbm_CacheHits := i64 (rbm_CacheHits (rb_metrics rb) + 1)\<rparr>\<rparr>)
            | None \<Rightarrow> decideAccess wall (clk 2) request result
                (rb\<lparr>rb_metrics := (rb_metrics rb)\<lparr>rbm_CacheMisses := i64 (rbm_CacheMisses (rb_metrics rb) + 1)\<rparr>\<rparr>))
         else decideAccess wall (clk 2) request result rb)"

section \<open>Managing roles and permissions\<close>

definition audits :: "audit_call \<Rightarrow> RBACManager \<Rightarrow> RBACManager" where
  "audits call rb = (if rb_auditLogger rb then rb\<lparr>rb_audit := rb_audit rb @ [call]\<rparr> else rb)"

definition CreateRole :: "gtime \<Rightarrow> Role \<Rightarrow> RBACManager \<Rightarrow> string option \<times> RBACManager" where
  "CreateRole now role rb =
     (if ro_ID role = [] then (Some ''role ID is required'', rb)
      else if gm_get (rb_roles rb) (ro_ID role) \<noteq> None then (Some ''role already exists'', rb)
      else
        (case find (\<lambda>permID. gm_get (rb_permissions rb) permID = None) (ro_Permissions role) of
           Some permID \<Rightarrow> (Some (''permission not found: '' @ permID), rb)
         | None \<Rightarrow>
             (None, audits (LogRoleChange [] (ro_ID role) ''create'')
               (rb\<lparr>rb_roles := gm_put (ro_ID role) (role\<lparr>ro_CreatedAt := now, ro_UpdatedAt := now\<rparr>) (rb_roles rb),
                   rb_metrics := (rb_metrics rb)\<lparr>rbm_RoleAssignments := i64 (rbm_RoleAssignments (rb_metrics rb) + 1)\<rparr>\<rparr>))))"

definition AssignRole :: "string \<Rightarrow> string \<Rightarrow> RBACManager \<Rightarrow> RBACManager" where
  "AssignRole userID roleID rb = audits (LogRoleChange userID roleID ''assign'') rb"

definition CreatePermission :: "gtime \<Rightarrow> Permission \<Rightarrow> RBACManager \<Rightarrow> string option \<times> RBACManager" where
  "CreatePermission now permission rb =
     (if pe_ID permission = [] then (Some ''permission ID is required'', rb)
      else if gm_get (rb_permissions rb) (pe_ID permission) \<noteq> None then (Some ''permission already exists'', rb)
      else (None, audits (LogPermissionChange (pe_ID permission) ''create'')
        (rb\<lparr>rb_permissions := gm_put (pe_ID permission) (permission\<lparr>pe_CreatedAt := now, pe_UpdatedAt := now\<rparr>) (rb_permissions rb),
            rb_metrics := (rb_metrics rb)\<lparr>rbm_PermissionGrants := i64 (rbm_PermissionGrants (rb_metrics rb) + 1)\<rparr>\<rparr>)))"

definition RB_GetMetrics :: "RBACManager \<Rightarrow> RBACMetrics" where
  "RB_GetMetrics rb = rb_metrics rb"

definition GetRoles :: "RBACManager \<Rightarrow> (string, Role) gomap" where
  "GetRoles rb = fold (\<lambda>(i, role). gm_put i role) (rb_roles rb) []"

definition GetPermissions :: "RBACManager \<Rightarrow> (string, Permission) gomap" where
  "GetPermissions rb = fold (\<lambda>(i, perm). gm_put i perm) (rb_permissions rb) []"

section \<open>Inheritance is the transitive closure\<close>

definition parent_of :: "(string, Role) gomap \<Rightarrow> (string \<times> string) set" where
  "parent_of roles = {(r, p). p \<in> set (parentsOf roles r)}"

lemma parent_of_finite: "finite (parent_of roles)"
proof (rule finite_subset)
  show "parent_of roles \<subseteq> (SIGMA r : dom (gm_get roles). set (parentsOf roles r))"
    by (auto simp: parent_of_def parentsOf_def split: option.splits dest!: sym [of "Some _"])
qed (simp add: finite_dom_map_of)

lemma inheritsAny_closure:
  assumes wf: "wf ((parent_of roles)\<inverse>)" and IH: "\<And>p. p \<in> set ps \<Longrightarrow> inheritsAny roles (parentsOf roles p) t = Some ((p, t) \<in> (parent_of roles)\<^sup>+)"
  shows "inheritsAny roles ps t = Some (\<exists>p \<in> set ps. (p, t) \<in> (parent_of roles)\<^sup>*)"
  using IH
proof (induction ps)
  case (Cons p ps)
  then have IH: "inheritsAny roles ps t = Some (\<exists>p \<in> set ps. (p, t) \<in> (parent_of roles)\<^sup>*)"
    and p: "inheritsAny roles (parentsOf roles p) t = Some ((p, t) \<in> (parent_of roles)\<^sup>+)" by simp_all
  show ?case
  proof (cases "p = t")
    case False
    then have "(p, t) \<in> (parent_of roles)\<^sup>* \<longleftrightarrow> (p, t) \<in> (parent_of roles)\<^sup>+" by (simp add: rtrancl_eq_or_trancl)
    then show ?thesis using False IH p by (subst inheritsAny.simps) (auto split: if_splits)
  qed (subst inheritsAny.simps, simp)
qed (subst inheritsAny.simps, simp)

lemma hasInheritedRole_closure:
  assumes "acyclic (parent_of roles)"
  shows "hasInheritedRole roles u t = Some ((u, t) \<in> (parent_of roles)\<^sup>+)"
proof -
  have wf: "wf ((parent_of roles)\<inverse>)" using parent_of_finite assms by (rule finite_acyclic_wf_converse)
  have "inheritsAny roles (parentsOf roles u) t = Some ((u, t) \<in> (parent_of roles)\<^sup>+)"
  proof (induction u rule: wf_induct_rule [OF wf])
    case (1 u)
    have "inheritsAny roles (parentsOf roles u) t = Some (\<exists>p \<in> set (parentsOf roles u). (p, t) \<in> (parent_of roles)\<^sup>*)"
      by (rule inheritsAny_closure [OF wf]) (use 1 in \<open>simp add: parent_of_def\<close>)
    moreover have "(\<exists>p \<in> set (parentsOf roles u). (p, t) \<in> (parent_of roles)\<^sup>*) \<longleftrightarrow> (u, t) \<in> (parent_of roles)\<^sup>+"
      unfolding trancl_unfold_left by (auto simp: parent_of_def)
    ultimately show ?case by simp
  qed
  then show ?thesis by (simp add: hasInheritedRole_def)
qed

text \<open>On a cycle that does not lead to the role that is looked for, the search does not end.\<close>

definition loops :: "(string, Role) gomap \<Rightarrow> string list \<Rightarrow> string \<Rightarrow> bool" where
  "loops roles ps t \<longleftrightarrow> (\<exists>p qs rs. ps = p # qs \<and> p \<noteq> t \<and> parentsOf roles p = p # rs)"

lemma inheritsAny_loops: "inheritsAny roles ps t = Some b \<Longrightarrow> \<not> loops roles ps t"
proof (rule inheritsAny.raw_induct [where P = "\<lambda>roles ps t b. \<not> loops roles ps t"])
  fix f :: "(string, Role) gomap \<Rightarrow> string list \<Rightarrow> string \<Rightarrow> bool option" and roles ps t b
  assume IH: "\<And>roles ps t b. f roles ps t = Some b \<Longrightarrow> \<not> loops roles ps t"
    and r: "(case ps of
        [] \<Rightarrow> Some False
      | parentRole # ps \<Rightarrow>
          if parentRole = t then Some True
          else do {
            inherited \<leftarrow> f roles (parentsOf roles parentRole) t;
            (if inherited then Some True else f roles ps t)
          }) = Some b"
  show "\<not> loops roles ps t"
  proof
    assume "loops roles ps t"
    then obtain p qs rs where p: "ps = p # qs" "p \<noteq> t" "parentsOf roles p = p # rs" unfolding loops_def by blast
    then obtain x where "f roles (parentsOf roles p) t = Some x" using r by (auto simp: bind_eq_Some_conv)
    then have "\<not> loops roles (parentsOf roles p) t" by (rule IH)
    then show False using p unfolding loops_def by auto
  qed
qed

section \<open>The permissions of a user\<close>

definition grants :: "RBACConfig \<Rightarrow> (string, Role) gomap \<Rightarrow> (string \<times> string) set" where
  "grants c roles = {(r, p). rbc_EnableInheritance c \<and> (\<exists>role. gm_get roles r = Some role \<and> ro_IsActive role \<and> p \<in> set (ro_ParentRoles role))}"

definition permsOf :: "(string, Role) gomap \<Rightarrow> string \<Rightarrow> string set" where
  "permsOf roles r = (case gm_get roles r of Some role \<Rightarrow> if ro_IsActive role then set (ro_Permissions role) else {} | None \<Rightarrow> {})"

definition effective :: "RBACConfig \<Rightarrow> (string, Role) gomap \<Rightarrow> string \<Rightarrow> string set" where
  "effective c roles r = (\<Union>q \<in> {q. (r, q) \<in> (grants c roles)\<^sup>*}. permsOf roles q)"

lemma effective_unfold: "effective c roles r = permsOf roles r \<union> (\<Union>p \<in> {p. (r, p) \<in> grants c roles}. effective c roles p)"
proof -
  have "{q. (r, q) \<in> (grants c roles)\<^sup>*} = insert r (\<Union>p \<in> {p. (r, p) \<in> grants c roles}. {q. (p, q) \<in> (grants c roles)\<^sup>*})"
    by (auto elim: converse_rtranclE intro: converse_rtrancl_into_rtrancl)
  then show ?thesis unfolding effective_def by simp
qed

lemma addNew_set: "set (addNew perms acc) = set acc \<union> set perms \<and> (distinct acc \<longrightarrow> distinct (addNew perms acc))"
  unfolding addNew_def by (induction perms arbitrary: acc) auto

fun task_perms :: "RBACConfig \<Rightarrow> (string, Role) gomap \<Rightarrow> perm_task \<Rightarrow> string set" where
  "task_perms c roles (OfRole r) = effective c roles r"
| "task_perms c roles (OfParent r) = effective c roles r"

definition collects :: "RBACConfig \<Rightarrow> (string, Role) gomap \<Rightarrow> perm_task list \<Rightarrow> bool" where
  "collects c roles tasks \<longleftrightarrow> (\<forall>acc. distinct acc \<longrightarrow>
     (\<exists>perms. collectPerms c roles tasks acc = Some perms \<and> distinct perms \<and> set perms = set acc \<union> (\<Union>(task_perms c roles ` set tasks))))"

lemma collects_Nil: "collects c roles []"
  unfolding collects_def by (subst collectPerms.simps) simp

lemma collects_parent:
  assumes "collects c roles [OfRole p]" "collects c roles tasks"
  shows "collects c roles (OfParent p # tasks)"
  unfolding collects_def
proof (intro allI impI)
  fix acc :: "string list" assume acc: "distinct acc"
  obtain ps where ps: "collectPerms c roles [OfRole p] [] = Some ps" "set ps = effective c roles p"
    using assms(1) [unfolded collects_def, rule_format, of "[]"] by auto
  have "distinct (addNew ps acc)" using addNew_set acc by blast
  with assms(2) obtain perms where "collectPerms c roles tasks (addNew ps acc) = Some perms" "distinct perms"
    "set perms = set (addNew ps acc) \<union> (\<Union>(task_perms c roles ` set tasks))"
    unfolding collects_def by blast
  then show "\<exists>perms. collectPerms c roles (OfParent p # tasks) acc = Some perms \<and> distinct perms \<and>
      set perms = set acc \<union> (\<Union>(task_perms c roles ` set (OfParent p # tasks)))"
    using ps addNew_set [of ps acc] by (subst collectPerms.simps) auto
qed

lemma collects_parents: "(\<And>p. p \<in> set ps \<Longrightarrow> collects c roles [OfRole p]) \<Longrightarrow> collects c roles tasks \<Longrightarrow> collects c roles (map OfParent ps @ tasks)"
  by (induction ps) (auto intro: collects_parent)

lemma collects_role:
  assumes parents: "\<And>p. (r, p) \<in> grants c roles \<Longrightarrow> collects c roles [OfRole p]" and rest: "collects c roles tasks"
  shows "collects c roles (OfRole r # tasks)"
proof (cases "\<exists>role. gm_get roles r = Some role \<and> ro_IsActive role")
  case True
  then obtain role where role: "gm_get roles r = Some role" "ro_IsActive role" by blast
  define ps where "ps = (if rbc_EnableInheritance c then ro_ParentRoles role else [])"
  have ps: "set ps = {p. (r, p) \<in> grants c roles}" using role by (auto simp: ps_def grants_def)
  have all: "collects c roles (map OfParent ps @ tasks)" using parents ps by (intro collects_parents rest) auto
  have step: "collectPerms c roles (OfRole r # tasks) acc = collectPerms c roles (map OfParent ps @ tasks) (addNew (ro_Permissions role) acc)" for acc
    using role by (subst collectPerms.simps) (simp add: ps_def)
  have e: "effective c roles r = set (ro_Permissions role) \<union> (\<Union>p \<in> set ps. effective c roles p)"
    using role effective_unfold [of c roles r] by (simp add: ps permsOf_def)
  show ?thesis unfolding collects_def
  proof (intro allI impI)
    fix acc :: "string list" assume "distinct acc"
    then have "distinct (addNew (ro_Permissions role) acc)" using addNew_set by blast
    with all obtain perms where "collectPerms c roles (map OfParent ps @ tasks) (addNew (ro_Permissions role) acc) = Some perms" "distinct perms"
      "set perms = set (addNew (ro_Permissions role) acc) \<union> (\<Union>(task_perms c roles ` set (map OfParent ps @ tasks)))"
      unfolding collects_def by blast
    then show "\<exists>perms. collectPerms c roles (OfRole r # tasks) acc = Some perms \<and> distinct perms \<and>
        set perms = set acc \<union> (\<Union>(task_perms c roles ` set (OfRole r # tasks)))"
      using addNew_set [of "ro_Permissions role" acc] by (auto simp: step e)
  qed
next
  case False
  then have none: "(r, p) \<notin> grants c roles" for p by (auto simp: grants_def)
  have "permsOf roles r = {}" using False by (auto simp: permsOf_def split: option.splits)
  then have e: "effective c roles r = {}" using effective_unfold [of c roles r] none by simp
  have "collectPerms c roles (OfRole r # tasks) acc = collectPerms c roles tasks acc" for acc
    using False by (subst collectPerms.simps) (auto split: option.splits)
  then show ?thesis using rest unfolding collects_def by (simp add: e)
qed

lemma grants_parent: "grants c roles \<subseteq> parent_of roles"
  by (auto simp: grants_def parent_of_def parentsOf_def)

lemma getUserPermissions_effective:
  assumes "acyclic (parent_of roles)"
  obtains perms where "getUserPermissions c roles rs = Some perms" "distinct perms" "set perms = (\<Union>r \<in> set rs. effective c roles r)"
proof -
  have wf: "wf ((grants c roles)\<inverse>)"
    using grants_parent parent_of_finite assms by (meson acyclic_subset finite_acyclic_wf_converse finite_subset)
  have one: "collects c roles [OfRole r]" for r
  proof (induction r rule: wf_induct_rule [OF wf])
    case (1 r)
    show ?case by (rule collects_role [OF _ collects_Nil]) (use 1 in simp)
  qed
  then have "collects c roles (map OfRole rs)" by (induction rs) (simp_all add: collects_Nil collects_role)
  then obtain perms where "collectPerms c roles (map OfRole rs) [] = Some perms \<and> distinct perms \<and>
      set perms = set [] \<union> (\<Union>(task_perms c roles ` set (map OfRole rs)))"
    unfolding collects_def using distinct.simps(1) by blast
  then show thesis by (intro that [of perms]) (simp_all add: getUserPermissions_def image_image)
qed

section \<open>The order of the policies\<close>

lemma mset_swap_list: "i < length xs \<Longrightarrow> j < length xs \<Longrightarrow> mset (xs[i := xs ! j, j := xs ! i]) = mset xs"
  by (rule mset_swap)

lemma sortInner_spec:
  "n \<le> length ps - Suc i \<Longrightarrow> i < length ps \<Longrightarrow>
     (\<forall>k. i < k \<and> k < length ps - n \<longrightarrow> po_Priority (ps ! i) \<le> po_Priority (ps ! k)) \<Longrightarrow>
     length (sortInner i n ps) = length ps \<and> mset (sortInner i n ps) = mset ps \<and> (\<forall>k < i. sortInner i n ps ! k = ps ! k) \<and>
     (\<forall>k. i < k \<and> k < length ps \<longrightarrow> po_Priority (sortInner i n ps ! i) \<le> po_Priority (sortInner i n ps ! k))"
proof (induction n arbitrary: ps)
  case (Suc n)
  define j where "j = length ps - Suc n"
  have j: "i < j" "j < length ps" using Suc.prems by (auto simp: j_def)
  define qs where "qs = (if po_Priority (ps ! j) < po_Priority (ps ! i) then ps[i := ps ! j, j := ps ! i] else ps)"
  have qs: "length qs = length ps" "mset qs = mset ps" "\<forall>k < i. qs ! k = ps ! k"
    using j by (auto simp: qs_def mset_swap_list nth_list_update)
  have "po_Priority (qs ! i) \<le> po_Priority (qs ! k)" if k: "i < k" "k < length qs - n" for k
  proof (cases "k = j")
    case True
    then show ?thesis using j by (auto simp: qs_def nth_list_update)
  next
    case False
    then have "k < length ps - Suc n" using k qs(1) by (auto simp: j_def)
    then have "po_Priority (ps ! i) \<le> po_Priority (ps ! k)" using Suc.prems(3) k by blast
    then show ?thesis using False j k by (auto simp: qs_def nth_list_update)
  qed
  then have "length (sortInner i n qs) = length qs \<and> mset (sortInner i n qs) = mset qs \<and> (\<forall>k < i. sortInner i n qs ! k = qs ! k) \<and>
      (\<forall>k. i < k \<and> k < length qs \<longrightarrow> po_Priority (sortInner i n qs ! i) \<le> po_Priority (sortInner i n qs ! k))"
    using Suc.prems qs(1) by (intro Suc.IH) auto
  moreover have "sortInner i (Suc n) ps = sortInner i n qs" by (simp add: Let_def j_def qs_def)
  ultimately show ?case using qs by simp
qed simp

lemma in_drop: "x \<in> set (drop i xs) \<longleftrightarrow> (\<exists>k. i \<le> k \<and> k < length xs \<and> x = xs ! k)"
proof
  assume "\<exists>k. i \<le> k \<and> k < length xs \<and> x = xs ! k"
  then obtain k where "i \<le> k" "k < length xs" "x = drop i xs ! (k - i)" by auto
  then show "x \<in> set (drop i xs)" by (metis diff_less_mono length_drop nth_mem)
next
  assume "x \<in> set (drop i xs)"
  then obtain j where "j < length xs - i" "x = xs ! (i + j)" by (auto simp: in_set_conv_nth)
  then show "\<exists>k. i \<le> k \<and> k < length xs \<and> x = xs ! k" by (intro exI [of _ "i + j"]) auto
qed

lemma mset_tail:
  assumes "mset xs = mset ys" "length xs = length ys" "\<forall>k < i. xs ! k = ys ! k" "i \<le> length xs"
  shows "set (drop i xs) = set (drop i ys)"
proof -
  have "take i xs = take i ys" using assms by (intro nth_equalityI) auto
  then have "mset (drop i xs) = mset (drop i ys)"
    using assms(1) by (metis append_take_drop_id mset_append add_left_cancel)
  then show ?thesis by (rule mset_eq_setD)
qed

lemma sortOuter_spec:
  "n < length ps \<Longrightarrow> (\<forall>a b. a < length ps - Suc n \<and> a < b \<and> b < length ps \<longrightarrow> po_Priority (ps ! a) \<le> po_Priority (ps ! b)) \<Longrightarrow>
     mset (sortOuter n ps) = mset ps \<and> sorted (map po_Priority (sortOuter n ps))"
proof (induction n arbitrary: ps)
  case 0
  then show ?case by (auto simp: sorted_iff_nth_mono_less)
next
  case (Suc n)
  define i where "i = length ps - Suc (Suc n)"
  define qs where "qs = sortInner i (Suc n) ps"
  have i: "i < length ps" "Suc n \<le> length ps - Suc i" using Suc.prems(1) by (auto simp: i_def)
  have "\<forall>k. i < k \<and> k < length ps - Suc n \<longrightarrow> po_Priority (ps ! i) \<le> po_Priority (ps ! k)" by (auto simp: i_def)
  from sortInner_spec [OF i(2,1) this]
  have qs: "length qs = length ps" "mset qs = mset ps" "\<forall>k < i. qs ! k = ps ! k"
    "\<forall>k. i < k \<and> k < length ps \<longrightarrow> po_Priority (qs ! i) \<le> po_Priority (qs ! k)"
    unfolding qs_def by blast+
  have "po_Priority (qs ! a) \<le> po_Priority (qs ! b)" if ab: "a < length qs - Suc n" "a < b" "b < length qs" for a b
  proof (cases "a = i")
    case False
    then have a: "a < i" using ab(1) qs(1) by (auto simp: i_def)
    show ?thesis
    proof (cases "b < i")
      case True
      then show ?thesis using a qs(3) Suc.prems(2) ab i by (auto simp: i_def)
    next
      case False
      then have "qs ! b \<in> set (drop i qs)" using ab(3) unfolding in_drop by (intro exI [of _ b]) simp
      then obtain k where "i \<le> k" "k < length ps" "qs ! b = ps ! k"
        using mset_tail [OF qs(2,1,3)] i(1) qs(1) by (auto simp: in_drop)
      then show ?thesis using a qs(3) Suc.prems(2) by (auto simp: i_def)
    qed
  qed (use qs(1,4) ab in auto)
  then have "mset (sortOuter n qs) = mset qs \<and> sorted (map po_Priority (sortOuter n qs))"
    using Suc.prems(1) qs(1) by (intro Suc.IH) auto
  then show ?case using qs(2) by (simp add: Let_def i_def [symmetric] qs_def)
qed

lemma getApplicablePolicies_sorted:
  "mset (getApplicablePolicies rb) = mset (filter po_IsActive (map snd (rb_policies rb))) \<and> sorted (map po_Priority (getApplicablePolicies rb))"
proof (cases "filter po_IsActive (map snd (rb_policies rb))")
  case (Cons p ps)
  then show ?thesis unfolding getApplicablePolicies_def Let_def Cons by (intro sortOuter_spec) auto
qed (simp add: getApplicablePolicies_def)

section \<open>What the default policies decide\<close>

definition holdsRole :: "string \<Rightarrow> string list \<Rightarrow> RBACManager \<Rightarrow> bool" where
  "holdsRole r userRoles rb \<longleftrightarrow>
     (\<exists>u \<in> set userRoles. u = r \<or> rbc_EnableInheritance (rb_config rb) \<and> (u, r) \<in> (parent_of (rb_roles rb))\<^sup>+)"

lemma subjectRoles_holds:
  assumes "acyclic (parent_of (rb_roles rb))"
  shows "subjectRoles (rb_config rb) (rb_roles rb) r us = Some (holdsRole r us rb)"
  by (induction us) (auto simp: holdsRole_def hasInheritedRole_closure [OF assms])

definition readsData :: "AccessRequest \<Rightarrow> RBACManager \<Rightarrow> bool" where
  "readsData request rb \<longleftrightarrow>
     holdsRole ''role_user'' (ar_Roles request) rb \<and> HasPrefix (ar_Resource request) ''data/'' \<and> ar_Action request = ''read''"

definition ownsData :: "AccessRequest \<Rightarrow> bool" where
  "ownsData request \<longleftrightarrow> requestAttribute ''owner'' request = AStr (ar_UserID request)"

lemma owner_condition: "evaluateConditions wall clock [ownerCondition] request rb = Some (ownsData request)"
  by (cases "requestAttribute ''owner'' request")
    (auto simp: ownerCondition_def evaluateCondition_def evaluateAttributeCondition_def compareValue_def attr_eq_def ownsData_def)

lemma default_policies_order:
  assumes "mset ps = mset (createDefaultPolicies clk c)"
  shows "getApplicablePolicies (rb\<lparr>rb_policies := ps\<rparr>) =
    map snd (drop 1 (createDefaultPolicies clk c) @ (if rbc_DefaultDenyAll c then [hd (createDefaultPolicies clk c)] else []))"
    (is "?xs = ?ys")
proof -
  have "mset (filter po_IsActive (map snd ps)) = mset (filter po_IsActive (map snd (createDefaultPolicies clk c)))"
    using assms by (metis mset_filter mset_map)
  also have "\<dots> = mset ?ys" by (simp add: createDefaultPolicies_def systemPolicy_def)
  finally have m: "mset ?xs = mset ?ys" using getApplicablePolicies_sorted [of "rb\<lparr>rb_policies := ps\<rparr>"] by simp
  have sorted: "sorted (map po_Priority ?ys)" and distinct: "distinct (map po_Priority ?ys)"
    by (cases "rbc_DefaultDenyAll c"; simp add: createDefaultPolicies_def systemPolicy_def)+
  then have inj: "inj_on po_Priority (set ?ys)" by (metis distinct_map)
  have e: "set ?xs = set ?ys" using m by (rule mset_eq_setD)
  have "distinct (map po_Priority ?xs)" using distinct m by (metis mset_map mset_eq_imp_distinct_iff)
  then have "map po_Priority ?xs = map po_Priority ?ys"
    using sorted distinct getApplicablePolicies_sorted [of "rb\<lparr>rb_policies := ps\<rparr>"] e by (intro sorted_distinct_set_unique) auto
  then show ?thesis using inj e by (intro map_inj_on [of po_Priority]) auto
qed

definition default_policy :: "nat \<Rightarrow> (nat \<Rightarrow> gtime) \<Rightarrow> RBACConfig \<Rightarrow> Policy" where
  "default_policy i clk c = snd (createDefaultPolicies clk c ! i)"

lemma default_policies_list:
  "map snd (drop 1 (createDefaultPolicies clk c) @ (if rbc_DefaultDenyAll c then [hd (createDefaultPolicies clk c)] else [])) =
     [default_policy 1 clk c, default_policy 2 clk c] @ (if rbc_DefaultDenyAll c then [default_policy 0 clk c] else [])"
  by (simp add: default_policy_def createDefaultPolicies_def numeral_2_eq_2)

lemma default_policy_verdicts:
  assumes "acyclic (parent_of (rb_roles rb))"
  shows "evaluatePolicy wall clock (default_policy 1 clk c) request rb =
      Some (if holdsRole ''role_admin'' (ar_Roles request) rb then (True, ''Rule granted access'', [''rule_admin_all''], [])
            else (False, ''No matching rules'', [], []))" (is ?admin)
    and "evaluatePolicy wall clock (default_policy 2 clk c) request rb =
      Some (if readsData request rb then
              if ownsData request then (True, ''Rule granted access'', [''rule_user_read''], [])
              else (False, ''No matching rules'', [''rule_user_read''], [''rule_user_read''])
            else (False, ''No matching rules'', [], []))" (is ?user)
    and "rbc_DefaultDenyAll c \<Longrightarrow> evaluatePolicy wall clock (default_policy 0 clk c) request rb =
      Some (False, ''Rule denied access'', [''rule_deny_all''], [])"
proof -
  note defs = default_policy_def createDefaultPolicies_def systemPolicy_def systemRule_def evaluatePolicy_def rb_ruleMatches_def subjectMatches_def
    resourceMatches_def actionMatches_def
  show ?admin using subjectRoles_holds [OF assms, of "''role_admin''"] by (simp add: defs HasPrefix_def)
  have "HasSuffix ''data/*'' ''*''" "TrimSuffix ''data/*'' ''*'' = ''data/''" by code_simp+
  then show ?user using subjectRoles_holds [OF assms, of "''role_user''"]
    by (simp add: defs owner_condition readsData_def HasPrefix_def [of "''role:role_user''"] del: evaluateConditions.simps)
  show "rbc_DefaultDenyAll c \<Longrightarrow> evaluatePolicy wall clock (default_policy 0 clk c) request rb =
      Some (False, ''Rule denied access'', [''rule_deny_all''], [])" by (simp add: defs)
qed

lemma default_decision:
  assumes ps: "mset ps = mset (createDefaultPolicies clk c)" and deny: "rbc_DefaultDenyAll (rb_config rb) = rbc_DefaultDenyAll c"
    and acyc: "acyclic (parent_of (rb_roles rb))" and rb': "rb' = rb\<lparr>rb_policies := ps\<rparr>"
  obtains reason matched failed n where "evaluateEach wall clock (getApplicablePolicies rb') request rb' [] [] m =
    Some ((if holdsRole ''role_admin'' (ar_Roles request) rb' then True
           else if readsData request rb' then ownsData request
           else \<not> rbc_DefaultDenyAll c, reason, matched, failed), n)"
proof -
  have "acyclic (parent_of (rb_roles rb'))" and deny': "rbc_DefaultDenyAll (rb_config rb') = rbc_DefaultDenyAll c"
    using acyc deny by (simp_all add: rb')
  note verdicts = default_policy_verdicts [OF this(1)]
  have "getApplicablePolicies rb' = [default_policy 1 clk c, default_policy 2 clk c] @ (if rbc_DefaultDenyAll c then [default_policy 0 clk c] else [])"
    unfolding rb' default_policies_order [OF ps] by (rule default_policies_list)
  then show thesis
    using that verdicts deny'
    by (cases "holdsRole ''role_admin'' (ar_Roles request) rb'"; cases "readsData request rb'"; cases "ownsData request"; cases "rbc_DefaultDenyAll c"; simp)
qed

end
