(* ===== verification/Access_Runs.thy ===== *)
theory Access_Runs
  imports RBAC
begin

text \<open>
  Histories of the access control of src/internal/security/rbac.go (\<open>RBAC\<close>): what a sequence of checks and of
  changes to roles and permissions leaves alone, what the default policies decide after any of them, and what a cyclic role does.
\<close>

section \<open>Runs\<close>

datatype rb_event =
    RB_Check "gtime \<Rightarrow> nat \<times> nat" "nat \<Rightarrow> gtime" AccessRequest
  | RB_CreateRole gtime Role
  | RB_CreatePermission gtime Permission
  | RB_AssignRole string string

fun rb_step :: "rb_event \<Rightarrow> RBACManager \<Rightarrow> RBACManager" where
  "rb_step (RB_Check wall clk request) rb = (case CheckAccess wall clk request rb of Some (result, rb') \<Rightarrow> rb' | None \<Rightarrow> rb)"
| "rb_step (RB_CreateRole now role) rb = snd (CreateRole now role rb)"
| "rb_step (RB_CreatePermission now permission) rb = snd (CreatePermission now permission rb)"
| "rb_step (RB_AssignRole userID roleID) rb = AssignRole userID roleID rb"

lemma decideAccess_None: "evaluateEach wall clock (getApplicablePolicies rb) request rb [] [] (rbm_PolicyEvaluations (rb_metrics rb)) = None \<Longrightarrow>
    decideAccess wall clock request result rb = None"
  by (simp add: decideAccess_def evaluatePolicies_def)

lemma decideAccess_Some:
  assumes "evaluateEach wall clock (getApplicablePolicies rb) request rb [] [] (rbm_PolicyEvaluations (rb_metrics rb)) = Some ((g, reason, matched, failed), n)"
    and "(if g then getUserPermissions (rb_config rb) (rb_roles rb) (ar_Roles request) else Some []) = Some perms"
  shows "\<exists>result' rb'. decideAccess wall clock request result rb = Some (result', rb') \<and> as_Granted result' = g \<and>
    rb_config rb' = rb_config rb \<and> rb_policies rb' = rb_policies rb \<and> rb_roles rb' = rb_roles rb"
proof -
  have eval: "evaluatePolicies wall clock request rb =
      Some ((g, reason, matched, failed), rb\<lparr>rb_metrics := (rb_metrics rb)\<lparr>rbm_PolicyEvaluations := n\<rparr>\<rparr>)"
    by (simp add: evaluatePolicies_def assms(1))
  have perms: "(if g then getUserPermissions (rb_config (rb\<lparr>rb_metrics := mt\<rparr>)) (rb_roles (rb\<lparr>rb_metrics := mt\<rparr>)) (ar_Roles request) else Some []) = Some perms" for mt
    using assms(2) by (cases g) simp_all
  show ?thesis unfolding decideAccess_def eval Option.bind.simps prod.case perms Let_def cacheResult_def if_cancel
    by (intro exI conjI) (rule refl, simp_all)
qed

lemma decideAccess_frame:
  assumes "decideAccess wall clock request result rb = Some (result', rb')"
  shows "rb_config rb' = rb_config rb \<and> rb_policies rb' = rb_policies rb \<and> rb_roles rb' = rb_roles rb"
proof -
  obtain g reason matched failed n where
    e: "evaluateEach wall clock (getApplicablePolicies rb) request rb [] [] (rbm_PolicyEvaluations (rb_metrics rb)) = Some ((g, reason, matched, failed), n)"
    using assms decideAccess_None by (metis option.exhaust option.distinct(1) surj_pair)
  show ?thesis
  proof (cases "if g then getUserPermissions (rb_config rb) (rb_roles rb) (ar_Roles request) else Some []")
    case None
    then have "decideAccess wall clock request result rb = None" by (simp add: decideAccess_def evaluatePolicies_def e split: if_splits)
    then show ?thesis using assms by simp
  next
    case (Some perms)
    from decideAccess_Some [OF e this, of result] assms show ?thesis by auto
  qed
qed

lemma CheckAccess_decides:
  "\<exists>request' mt clock result. CheckAccess wall clk request rb = decideAccess wall clock request' result (rb\<lparr>rb_metrics := mt\<rparr>) \<and>
     (request' = request \<or> request' = request\<lparr>ar_RequestedAt := clk 0\<rparr>)"
  unfolding CheckAccess_def Let_def getCachedResult_def option.case
  by (cases "rbc_EnableCache (rb_config rb)"; cases "ar_RequestedAt request = zeroTime") (simp, blast)+

lemma CheckAccess_frame:
  assumes "CheckAccess wall clk request rb = Some (result, rb')"
  shows "rb_config rb' = rb_config rb \<and> rb_policies rb' = rb_policies rb \<and> rb_roles rb' = rb_roles rb"
proof -
  obtain request' mt clock result0 where "CheckAccess wall clk request rb = decideAccess wall clock request' result0 (rb\<lparr>rb_metrics := mt\<rparr>)"
    using CheckAccess_decides by metis
  then have "decideAccess wall clock request' result0 (rb\<lparr>rb_metrics := mt\<rparr>) = Some (result, rb')" using assms by simp
  from decideAccess_frame [OF this] show ?thesis by simp
qed

lemma rb_step_frame: "rb_config (rb_step e rb) = rb_config rb \<and> rb_policies (rb_step e rb) = rb_policies rb"
proof (cases e)
  case (RB_Check wall clk request)
  show ?thesis
  proof (cases "CheckAccess wall clk request rb")
    case (Some a)
    then show ?thesis using CheckAccess_frame [of wall clk request rb] RB_Check by (cases a) simp
  qed (simp add: RB_Check)
qed (auto simp: CreateRole_def CreatePermission_def AssignRole_def audits_def split: option.split)

lemma rb_run_frame:
  "rb_config (fold rb_step es rb) = rb_config rb \<and> rb_policies (fold rb_step es rb) = rb_policies rb"
  by (induction es arbitrary: rb) (simp_all add: rb_step_frame)

lemma CheckAccess_granted:
  assumes acyc: "acyclic (parent_of (rb_roles rb))"
    and each: "\<And>clock request' m rb'. \<lbrakk>rb_config rb' = rb_config rb; rb_roles rb' = rb_roles rb; rb_policies rb' = rb_policies rb;
      rb_resources rb' = rb_resources rb; ar_Roles request' = ar_Roles request; ar_Resource request' = ar_Resource request;
      ar_Action request' = ar_Action request; requestAttribute ''owner'' request' = requestAttribute ''owner'' request;
      ar_UserID request' = ar_UserID request\<rbrakk> \<Longrightarrow>
      \<exists>reason matched failed n. evaluateEach wall clock (getApplicablePolicies rb') request' rb' [] [] m = Some ((g, reason, matched, failed), n)"
  shows "\<exists>result rb'. CheckAccess wall clk request rb = Some (result, rb') \<and> as_Granted result = g"
proof -
  obtain request' mt clock result0 where
    d: "CheckAccess wall clk request rb = decideAccess wall clock request' result0 (rb\<lparr>rb_metrics := mt\<rparr>)"
    and r: "request' = request \<or> request' = request\<lparr>ar_RequestedAt := clk 0\<rparr>"
    using CheckAccess_decides by metis
  have same: "ar_Roles request' = ar_Roles request" "ar_Resource request' = ar_Resource request" "ar_Action request' = ar_Action request"
    "requestAttribute ''owner'' request' = requestAttribute ''owner'' request" "ar_UserID request' = ar_UserID request"
    using r by (auto simp: requestAttribute_def Let_def cong: if_cong)
  obtain reason matched failed n where
    e: "evaluateEach wall clock (getApplicablePolicies (rb\<lparr>rb_metrics := mt\<rparr>)) request' (rb\<lparr>rb_metrics := mt\<rparr>) [] []
        (rbm_PolicyEvaluations (rb_metrics (rb\<lparr>rb_metrics := mt\<rparr>))) = Some ((g, reason, matched, failed), n)"
    using each [OF _ _ _ _ same, of "rb\<lparr>rb_metrics := mt\<rparr>"] by fastforce
  obtain perms where "getUserPermissions (rb_config rb) (rb_roles rb) (ar_Roles request') = Some perms"
    using getUserPermissions_effective [OF acyc] by metis
  then obtain perms' where "(if g then getUserPermissions (rb_config (rb\<lparr>rb_metrics := mt\<rparr>)) (rb_roles (rb\<lparr>rb_metrics := mt\<rparr>)) (ar_Roles request')
      else Some []) = Some perms'" by (cases g) simp_all
  from decideAccess_Some [OF e this, of result0] show ?thesis unfolding d by blast
qed

section \<open>A sample history\<close>

text \<open>A role \<open>auditor\<close> below the administrator, a role \<open>loop\<close> that is its own parent, and a request of a holder.\<close>

definition sampleConfig :: RBACConfig where
  "sampleConfig = \<lparr>rbc_DefaultDenyAll = True, rbc_EnableInheritance = True, rbc_EnableDynamicRoles = False, rbc_EnableCache = True, rbc_CacheTTL = 0,
     rbc_CacheSize = 0, rbc_EnableValidation = False, rbc_StrictMode = False, rbc_EnableTemporal = False, rbc_MaxGrantDuration = 0,
     rbc_EnableAudit = True, rbc_AuditAllAccess = True, rbc_AuditDeniedOnly = False\<rparr>"

definition sampleRole :: "string \<Rightarrow> string \<Rightarrow> Role" where
  "sampleRole i parent = \<lparr>ro_ID = i, ro_Name = i, ro_Description = [], ro_Permissions = [''perm_read_all''], ro_ParentRoles = [parent], ro_IsSystem = False,
     ro_IsActive = True, ro_CreatedAt = 0, ro_UpdatedAt = 0, ro_CreatedBy = [], ro_Metadata = [], ro_Constraints = None\<rparr>"

definition sampleRequest :: "string \<Rightarrow> AccessRequest" where
  "sampleRequest role = \<lparr>ar_UserID = ''ann'', ar_Username = ''ann'', ar_Roles = [role], ar_Resource = ''data/1'', ar_Action = ''write'', ar_Context = None,
     ar_RequestedAt = 1, ar_Metadata = []\<rparr>"

definition sampleManager :: RBACManager where
  "sampleManager = fold rb_step [RB_CreateRole 3 (sampleRole ''auditor'' ''role_admin'')] (NewRBACManager int sampleConfig True)"

lemmas sample_defs = sampleManager_def NewRBACManager_def Let_def CreateRole_def sampleRole_def createDefaultRoles_def systemRole_def
  createDefaultPermissions_def systemPermission_def audits_def sampleConfig_def

lemma sample_roles: "rb_roles sampleManager = createDefaultRoles int @ [(''auditor'', (sampleRole ''auditor'' ''role_admin'')\<lparr>ro_CreatedAt := 3, ro_UpdatedAt := 3\<rparr>)]"
  by (simp add: sample_defs)

lemma sample_parents: "parent_of (rb_roles sampleManager) = {(''auditor'', ''role_admin'')}"
  unfolding sample_roles parent_of_def parentsOf_def by (auto simp: createDefaultRoles_def systemRole_def sampleRole_def split: if_splits)

lemma sample_acyclic: "acyclic (parent_of (rb_roles sampleManager))"
  unfolding sample_parents by (simp add: acyclic_insert wf_acyclic)

section \<open>Properties\<close>

text \<open>
  C21. What the access control decides, as it comes out of the box, in any order in which the policies
  are enumerated and after any history of creating roles and permissions and of checks: when the inheritance of
  roles has no cycle the check returns, and it grants access exactly to administrators, to users that read data
  they own, and, unless everything is denied by default, to everybody else except for users that read data of others. In particular the permissions of the
  roles have no say, and the super administrator is an ordinary caller.
\<close>

theorem default_access_exact:
  assumes "rb = fold rb_step es (NewRBACManager clk0 config logger)" and "mset ps = mset (rb_policies rb)"
    and "acyclic (parent_of (rb_roles rb))"
  shows "\<exists>result rb'. CheckAccess wall clk request (rb\<lparr>rb_policies := ps\<rparr>) = Some (result, rb') \<and>
    (as_Granted result \<longleftrightarrow>
      (if holdsRole ''role_admin'' (ar_Roles request) rb then True
       else if readsData request rb then ownsData request
       else \<not> rbc_DefaultDenyAll config))"
proof -
  let ?g = "if holdsRole ''role_admin'' (ar_Roles request) rb then True
       else if readsData request rb then ownsData request else \<not> rbc_DefaultDenyAll config"
  obtain c where new: "rb_policies (NewRBACManager clk0 config logger) = createDefaultPolicies clk0 c" "rb_config (NewRBACManager clk0 config logger) = c"
    "rbc_DefaultDenyAll c = rbc_DefaultDenyAll config"
    by (simp add: NewRBACManager_def Let_def)
  have c: "rb_policies rb = createDefaultPolicies clk0 c" "rb_config rb = c"
    unfolding assms(1) using rb_run_frame new by simp_all
  have "\<exists>result rb'. CheckAccess wall clk request (rb\<lparr>rb_policies := ps\<rparr>) = Some (result, rb') \<and> as_Granted result = ?g"
  proof (rule CheckAccess_granted, goal_cases)
    case (2 clock request' m rb')
    have "ps = rb_policies rb'" and roles: "rb_roles rb' = rb_roles rb" and config: "rb_config rb' = c" using 2(1-3) c by simp_all
    then have rb': "rb' = rb'\<lparr>rb_policies := ps\<rparr>" by simp
    have deny: "rbc_DefaultDenyAll (rb_config rb') = rbc_DefaultDenyAll c" by (simp add: config)
    have acyc: "acyclic (parent_of (rb_roles rb'))" using assms(3) by (simp add: roles)
    have "holdsRole r us rb' = holdsRole r us rb" for r us by (simp add: holdsRole_def roles config c(2))
    then have g: "(if holdsRole ''role_admin'' (ar_Roles request') rb' then True else if readsData request' rb' then ownsData request'
        else \<not> rbc_DefaultDenyAll c) = ?g"
      using 2(5-9) new(3) by (simp add: readsData_def ownsData_def)
    show ?case
      by (rule default_decision [OF assms(2) [unfolded c(1)] deny acyc rb', of wall clock request' m]) (unfold g, blast)
  qed (use assms(3) in simp)
  then show ?thesis by blast
qed

theorem default_access_exact_witness:
  "\<exists>result rb'. CheckAccess (\<lambda>t. (0, 0)) int (sampleRequest ''auditor'') sampleManager = Some (result, rb') \<and> as_Granted result"
proof -
  have "holdsRole ''role_admin'' (ar_Roles (sampleRequest ''auditor'')) sampleManager"
    by (auto simp: holdsRole_def sample_parents sampleRequest_def) (simp add: sample_defs)
  then show ?thesis
    using default_access_exact [OF sampleManager_def refl sample_acyclic, of "\<lambda>t. (0, 0)" int "sampleRequest ''auditor''"] by simp
qed

text \<open>
  C39. As long as the inheritance of roles has no cycle, the recursive search for an inherited role returns
  and decides the transitive closure of the parent relation, and the collection of permissions returns, without repetition, exactly the permissions
  of the active roles that are reached from the user's roles through active roles.
\<close>

theorem inheritance_is_closure:
  assumes "acyclic (parent_of roles)"
  shows "hasInheritedRole roles u t = Some ((u, t) \<in> (parent_of roles)\<^sup>+) \<and>
    (\<exists>perms. getUserPermissions c roles rs = Some perms \<and> distinct perms \<and> set perms = (\<Union>r \<in> set rs. effective c roles r))"
  using hasInheritedRole_closure [OF assms] getUserPermissions_effective [OF assms, of c rs] by metis

theorem inheritance_is_closure_witness:
  "hasInheritedRole (rb_roles sampleManager) ''auditor'' ''role_admin'' = Some True \<and>
   hasInheritedRole (rb_roles sampleManager) ''role_admin'' ''auditor'' = Some False"
  using inheritance_is_closure [OF sample_acyclic, of "''auditor''" "''role_admin''"]
    inheritance_is_closure [OF sample_acyclic, of "''role_admin''" "''auditor''"]
  by (auto simp: sample_parents trancl_insert)

text \<open>
  C40. Nothing keeps the inheritance of roles free of cycles: a role that names itself as its parent is
  accepted. From then on, with inheritance on, the search for an inherited role of a holder of this role
  does not return, and neither does the check of a request of such a holder when its other roles come later.
\<close>

theorem cyclic_role_never_returns:
  assumes "ro_ID role = r" "ro_ParentRoles role = [r]" "r \<noteq> []" "r \<noteq> ''role_admin''" and "gm_get (rb_roles rb) r = None"
    and "\<forall>p \<in> set (ro_Permissions role). gm_get (rb_permissions rb) p \<noteq> None" and "rbc_EnableInheritance (rb_config rb)"
    and "rb_policies rb = createDefaultPolicies clk0 c" and "ar_Roles request = r # rs"
  shows "fst (CreateRole now role rb) = None \<and> CheckAccess wall clk request (snd (CreateRole now role rb)) = None"
proof -
  define rb1 where "rb1 = snd (CreateRole now role rb)"
  have "find (\<lambda>permID. gm_get (rb_permissions rb) permID = None) (ro_Permissions role) = None" using assms(6) by (auto simp: find_None_iff)
  then have create: "CreateRole now role rb = (None, audits (LogRoleChange [] r ''create'')
      (rb\<lparr>rb_roles := gm_put r (role\<lparr>ro_CreatedAt := now, ro_UpdatedAt := now\<rparr>) (rb_roles rb),
          rb_metrics := (rb_metrics rb)\<lparr>rbm_RoleAssignments := i64 (rbm_RoleAssignments (rb_metrics rb) + 1)\<rparr>\<rparr>))"
    using assms(1,3,5) by (simp add: CreateRole_def)
  have rb1: "rb_config rb1 = rb_config rb" "rb_policies rb1 = rb_policies rb" "parentsOf (rb_roles rb1) r = [r]"
    using assms(2) by (simp_all add: rb1_def create audits_def parentsOf_def)
  have "loops (rb_roles rb1) [r] ''role_admin''" using rb1(3) assms(4) by (auto simp: loops_def)
  then have none: "hasInheritedRole (rb_roles rb1) r ''role_admin'' = None"
    using inheritsAny_loops [of "rb_roles rb1" "[r]" "''role_admin''"] rb1(3) by (cases "inheritsAny (rb_roles rb1) [r] ''role_admin''") (auto simp: hasInheritedRole_def)
  have first: "\<exists>xs. getApplicablePolicies rb2 = default_policy 1 clk0 c # xs" if "rb_policies rb2 = rb_policies rb" for rb2 :: RBACManager
  proof -
    have e: "rb2\<lparr>rb_policies := createDefaultPolicies clk0 c\<rparr> = rb2" unfolding assms(8) [symmetric] that [symmetric] by simp
    from default_policies_order [OF refl, of clk0 c rb2] show ?thesis unfolding default_policies_list e by simp
  qed
  have "evaluatePolicy wall clock (default_policy 1 clk0 c) request' rb2 = None"
    if "rb_roles rb2 = rb_roles rb1" "rb_config rb2 = rb_config rb" "ar_Roles request' = r # rs" for clock request' rb2
    using that none assms(4,7) by (simp add: default_policy_def createDefaultPolicies_def systemPolicy_def systemRule_def evaluatePolicy_def
        rb_ruleMatches_def subjectMatches_def HasPrefix_def)
  then have none: "decideAccess wall clock request' result rb2 = None"
    if "rb_roles rb2 = rb_roles rb1" "rb_config rb2 = rb_config rb" "rb_policies rb2 = rb_policies rb" "ar_Roles request' = r # rs" for clock request' result rb2
    using first [OF that(3)] that by (intro decideAccess_None) auto
  obtain request' mt clock result0 where "CheckAccess wall clk request rb1 = decideAccess wall clock request' result0 (rb1\<lparr>rb_metrics := mt\<rparr>)"
    and "request' = request \<or> request' = request\<lparr>ar_RequestedAt := clk 0\<rparr>"
    using CheckAccess_decides by metis
  then have "CheckAccess wall clk request rb1 = None"
    using none [of "rb1\<lparr>rb_metrics := mt\<rparr>" request'] assms(9) rb1 by auto
  then show ?thesis using create by (simp add: rb1_def)
qed

theorem cyclic_role_never_returns_witness:
  "fst (CreateRole 4 (sampleRole ''loop'' ''loop'') sampleManager) = None \<and>
   CheckAccess (\<lambda>t. (0, 0)) int (sampleRequest ''loop'') (snd (CreateRole 4 (sampleRole ''loop'' ''loop'') sampleManager)) = None"
  by (rule cyclic_role_never_returns [where r = "''loop''" and rs = "[]" and ?clk0.0 = int and c = "rb_config sampleManager"])
    (simp_all add: sampleRequest_def sample_defs)

end
