(* ===== verification/Spec2Isabelle.thy ===== *)
theory Spec2Isabelle
  imports KV_Service Coordinator Safety_Validator Circuit_Breaker Rate_Limiter Access_Runs
begin

text \<open>
  A verification library for a distributed key-value store written in Go. This theory collects the
  theories of the library and describes them.

  \<^bold>\<open>The program.\<close> A node stores keys and values in BadgerDB behind an LRU cache
  (\<^verbatim>\<open>src/internal/storage\<close>, \<^verbatim>\<open>src/internal/cache\<close>). Nodes replicate a log by Raft and apply it to a key-value state
  machine (\<^verbatim>\<open>src/internal/consensus\<close>). Keys are spread over shards, each with its own Raft group, by a consistent hash ring;
  a router sends operations to the leader of a shard, and a coordinator runs transactions over several
  shards by two-phase commit (\<^verbatim>\<open>src/internal/partitioning\<close>). Requests pass a rate limiter and
  role-based access control (\<^verbatim>\<open>src/internal/security\<close>). Clients protect themselves by a circuit breaker (\<^verbatim>\<open>src/pkg/client\<close>).

  \<^bold>\<open>How Go is modelled.\<close> A struct is a record whose fields carry a short prefix, an enumeration a datatype. A method is a function from
  the old state to results and new state, under the name of the method, with a prefix where several types
  have a method of that name. A map is an association list (\<open>gomap\<close>); where the program iterates over a map the theorems allow for every
  order, by a permutation that is an argument or by any state with the same entries. A pointer structure is an explicit heap (\<open>LRU_Cache\<close>). Errors are values of
  a sum or option type, with the texts of the program. A panic, and a loop that does not end, is \<open>None\<close>. \<^verbatim>\<open>int64\<close> and \<^verbatim>\<open>int\<close> wrap at 64 bits where
  the code computes with them (\<open>i64\<close>), unsigned integers are machine words. Times are nanoseconds; each reading of the
  clock, each random draw, and the outcome of each operation on a file is an argument, so theorems hold for all of them. Goroutines and tickers are events of
  a step relation, in any order. Mutexes are not modelled: a method runs as a whole, and races between the two halves
  of an unlocked method are stated as interleavings. \<open>Prelude\<close> has the shared vocabulary, \<open>Go_Lib\<close>, \<open>Json_Text\<close>, \<open>Json\<close> and \<open>Sha256\<close> the parts of the
  Go library that the program uses.

  \<^bold>\<open>Storage.\<close> \<open>LRU_Cache\<close> is the doubly linked list with hash map of \<^verbatim>\<open>cache.go\<close>; \<open>LRU_Refinement\<close> has the list of entries in order of recency and
  proves that every run of the pointer code returns what the list returns and never panics. \<open>Cache_Interface\<close> and \<open>Storage_Interface\<close> are
  the contracts (locales) between the layers; \<open>Engine\<close> is \<^verbatim>\<open>engine.go\<close> over BadgerDB, which is a parameter with its documented laws as
  hypotheses, and is interpreted in the contract of a storage engine. \<open>Cached_Storage\<close> is \<^verbatim>\<open>cached_storage.go\<close> and \<^verbatim>\<open>factory.go\<close>: every run of calls answers as a
  key-value map, and an interleaving of Get with Put that breaks this. \<open>GRPC_Server\<close> is \<^verbatim>\<open>src/internal/server/grpc_server.go\<close>: its handlers are lemmas inside
  the contract of a storage engine, and \<open>KV_Service\<close> states for the deployed stack, handlers over cache over database, that every sequence of requests is answered as by a map.

  \<^bold>\<open>Consensus.\<close> \<open>Consensus_Codec\<close> has the types that are stored as JSON. \<open>KV_State_Machine\<close> is \<^verbatim>\<open>state_machine.go\<close>: replicas agree, snapshots restore.
  \<open>Persistence\<close> is \<^verbatim>\<open>persistent_state.go\<close> and \<^verbatim>\<open>log_storage.go\<close> over a file system whose calls may fail: saving the vote is atomic, and reopening a log
  gives it back. \<open>Raft_Node\<close> is \<^verbatim>\<open>raft.go\<close>, every handler and goroutine. \<open>Raft_Log\<close> has log matching, the catching up of followers, the rule by which a leader
  commits, and agreement of what nodes have applied. \<open>Step_System\<close> is the contract of a step relation with an invariant;
  \<open>Raft_Steps\<close> interprets it for the event loop \<^verbatim>\<open>run\<close>: durability of term and vote, one vote per term, and the runs that break the promises of Raft.
  \<open>Cluster_Manager\<close> is \<^verbatim>\<open>cluster.go\<close>: the peers form a full mesh. \<open>Safety_Validator\<close> is \<^verbatim>\<open>safety.go\<close>: what its checks decide.

  \<^bold>\<open>Partitioning.\<close> \<open>Hash_Ring\<close> is \<^verbatim>\<open>hash_ring.go\<close> for any hash function, with the SHA-256 of the program as its instance: binary search is a linear scan, few keys move, the ring
  depends on its members only. \<open>Shard_Manager\<close> is \<^verbatim>\<open>shard_manager.go\<close>: shards never overlap and no hash is lost. \<open>Router\<close> is \<^verbatim>\<open>router.go\<close>: staleness of the
  route cache, and the way of a write from the router through the Raft log to the state machine. \<open>Coordinator\<close> is \<^verbatim>\<open>coordinator.go\<close>: two-phase commit,
  as another instance of \<open>Step_System\<close>.

  \<^bold>\<open>Security and client.\<close> \<open>Rate_Limiter\<close> is \<^verbatim>\<open>ratelimit.go\<close>: how many requests of a client can pass in any period. \<open>RBAC\<close> is \<^verbatim>\<open>rbac.go\<close> with inheritance
  as a transitive closure and the sorting of policies, \<open>Access_Runs\<close> whom the default policies let in after any history. \<open>Circuit_Breaker\<close> is \<^verbatim>\<open>circuit_breaker.go\<close>
  with the defaults of \<^verbatim>\<open>advanced_client.go\<close>.

  \<^bold>\<open>Bounds.\<close> No function takes fuel. Loops that may run for ever are partial functions whose value
  is then \<open>None\<close>, and the theorems say when they return: \<open>HR_GetNodes\<close> on a ring with a node of the wanted status, \<open>WaitForLeader\<close>
  with an advancing clock, the searches through roles when inheritance has no cycle. Floating point numbers are rationals
  or the datatype \<open>float64\<close> with infinities and without rounding; no theorem depends on rounding.

  \<^bold>\<open>Not modelled.\<close> The transport and the HTTP servers and clients (\<^verbatim>\<open>src/internal/server\<close> but for the handlers of the gRPC service, \<^verbatim>\<open>src/internal/api\<close>, \<^verbatim>\<open>rpc.go\<close>, \<^verbatim>\<open>src/pkg/client\<close> but for the above), which
  translate messages; authentication, encryption, certificates, audit files and scanners of \<^verbatim>\<open>src/internal/security\<close>, which rest on
  cryptography and files; the chaos, performance, monitoring, logging and tracing packages, the Kubernetes operator, the commands and the
  generated protocol buffer code. In modelled files: log output, the timers behind \<^verbatim>\<open>SimulatePartition\<close> of \<^verbatim>\<open>safety.go\<close>, the dialling of \<^verbatim>\<open>ClusterJoiner\<close>.
\<close>

end
